(* ===== verification/Prelude.thy ===== *)
theory Prelude
  imports Main "HOL-Library.Word"
begin

text \<open>
  Shared vocabulary of the development: C++ exceptions as values, the sequencing of
  computations that may throw, the bounds of the machine integers the program uses, and
  the decimal digit strings that the numeric parsers and printers have in common.
\<close>

section \<open>Exceptions\<close>

text \<open>
  One constructor per exception class the program raises or catches. The JSON library's
  exceptions carry the numeric id that the library documents for each of them; the rest of
  their message (a position, a type name) never influences control flow and is left out.
\<close>

datatype exn =
    InvalidArgument string
  | OutOfRange string
  | OverflowError string
  | RuntimeError string
  | JsonParseError nat
  | JsonTypeError nat
  | JsonOutOfRange nat

type_synonym 'a result = "exn + 'a"

text \<open>Exceptions that derive from \<open>std::logic_error\<close>, and those of \<open>json::exception\<close>.\<close>

fun is_logic_error :: "exn \<Rightarrow> bool" where
  "is_logic_error (InvalidArgument _) = True"
| "is_logic_error (OutOfRange _) = True"
| "is_logic_error _ = False"

fun is_json_exception :: "exn \<Rightarrow> bool" where
  "is_json_exception (JsonParseError _) = True"
| "is_json_exception (JsonTypeError _) = True"
| "is_json_exception (JsonOutOfRange _) = True"
| "is_json_exception _ = False"

fun is_overflow_error :: "exn \<Rightarrow> bool" where
  "is_overflow_error (OverflowError _) = True"
| "is_overflow_error _ = False"

text \<open>Sequencing: the continuation runs only when the first computation does not throw.\<close>

definition bind_exn :: "'e + 'a \<Rightarrow> ('a \<Rightarrow> 'e + 'b) \<Rightarrow> 'e + 'b" where
  "bind_exn m f = (case m of Inl e \<Rightarrow> Inl e | Inr x \<Rightarrow> f x)"

lemma bind_exn_simps [simp]:
  "bind_exn (Inl e) f = Inl e"
  "bind_exn (Inr x) f = f x"
  by (simp_all add: bind_exn_def)

lemma bind_exn_eq_Inr:
  "bind_exn m f = Inr y \<longleftrightarrow> (\<exists>x. m = Inr x \<and> f x = Inr y)"
  by (cases m) simp_all

lemma bind_exn_eq_Inl:
  "bind_exn m f = Inl e \<longleftrightarrow> m = Inl e \<or> (\<exists>x. m = Inr x \<and> f x = Inl e)"
  by (cases m) simp_all

lemma bind_exn_assoc:
  "bind_exn (bind_exn m f) g = bind_exn m (\<lambda>x. bind_exn (f x) g)"
  by (cases m) simp_all

lemma bind_exn_cong [fundef_cong]:
  assumes "m = m'" and "\<And>x. m' = Inr x \<Longrightarrow> f x = f' x"
  shows "bind_exn m f = bind_exn m' f'"
  using assms by (cases m') simp_all

text \<open>A loop over a list whose body may throw, collecting the results in order.\<close>

fun traverse :: "('a \<Rightarrow> 'e + 'b) \<Rightarrow> 'a list \<Rightarrow> 'e + 'b list" where
  "traverse f [] = Inr []"
| "traverse f (x # xs) = bind_exn (f x) (\<lambda>y. bind_exn (traverse f xs) (\<lambda>ys. Inr (y # ys)))"

lemma traverse_Inr_iff:
  "traverse f xs = Inr ys \<longleftrightarrow> list_all2 (\<lambda>x y. f x = Inr y) xs ys"
proof (induction xs arbitrary: ys)
  case Nil
  then show ?case by auto
next
  case (Cons x xs)
  then show ?case by (auto simp: bind_exn_eq_Inr list_all2_Cons1)
qed

lemma traverse_length: "traverse f xs = Inr ys \<Longrightarrow> length ys = length xs"
  by (simp add: traverse_Inr_iff list_all2_lengthD)

text \<open>
  The classes of exception a computation may throw. The rules of the collection follow the
  structure of the code, so that a \<open>catch\<close> clause can be shown to cover everything the block
  it guards throws.
\<close>

named_theorems throws_rules

definition throws_only :: "('e \<Rightarrow> bool) \<Rightarrow> 'e + 'a \<Rightarrow> bool" where
  "throws_only P m \<longleftrightarrow> (case m of Inl e \<Rightarrow> P e | Inr _ \<Rightarrow> True)"

lemma throws_only_values [throws_rules]: "throws_only P (Inr x)" "P e \<Longrightarrow> throws_only P (Inl e)"
  by (simp_all add: throws_only_def)

lemma throws_only_bind [throws_rules]:
  "throws_only P m \<Longrightarrow> (\<And>x. m = Inr x \<Longrightarrow> throws_only P (f x)) \<Longrightarrow> throws_only P (bind_exn m f)"
  by (cases m) (simp_all add: throws_only_def)

lemma throws_only_if [throws_rules]:
  "(b \<Longrightarrow> throws_only P m) \<Longrightarrow> (\<not> b \<Longrightarrow> throws_only P m') \<Longrightarrow> throws_only P (if b then m else m')"
  by simp

lemma throws_only_option [throws_rules]:
  "(x = None \<Longrightarrow> throws_only P m) \<Longrightarrow> (\<And>y. x = Some y \<Longrightarrow> throws_only P (f y)) \<Longrightarrow>
   throws_only P (case x of None \<Rightarrow> m | Some y \<Rightarrow> f y)"
  by (cases x) simp_all

lemma throws_only_traverse [throws_rules]:
  "(\<And>x. x \<in> set xs \<Longrightarrow> throws_only P (f x)) \<Longrightarrow> throws_only P (traverse f xs)"
  by (induction xs) (auto intro!: throws_rules)

lemma throws_onlyI: "(\<And>e. m = Inl e \<Longrightarrow> P e) \<Longrightarrow> throws_only P m"
  by (cases m) (simp_all add: throws_only_def)

lemma throws_onlyD: "throws_only P m \<Longrightarrow> m = Inl e \<Longrightarrow> P e"
  by (simp add: throws_only_def)

lemma throws_only_mono: "throws_only P m \<Longrightarrow> (\<And>e. P e \<Longrightarrow> Q e) \<Longrightarrow> throws_only Q m"
  by (cases m) (simp_all add: throws_only_def)

text \<open>Cutting a list at the first occurrence of a separator.\<close>

lemma takeWhile_until: "c \<notin> set xs \<Longrightarrow> takeWhile (\<lambda>x. x \<noteq> c) (xs @ c # ys) = xs"
  by (induction xs) auto

lemma dropWhile_until: "c \<notin> set xs \<Longrightarrow> dropWhile (\<lambda>x. x \<noteq> c) (xs @ c # ys) = c # ys"
  by (induction xs) auto

text \<open>Facts checked for every number of an interval.\<close>

lemma list_all_upt: "list_all P [m..<n] \<Longrightarrow> m \<le> k \<Longrightarrow> k < n \<Longrightarrow> P k"
  by (simp add: list_all_iff)

section \<open>Machine integers\<close>

text \<open>
  Unsigned 64 and 32 bit counters, sequences and checksums are words, whose arithmetic
  wraps as the language defines it. Signed quantities are integers; wherever the code
  computes with them the bounds that exclude signed overflow are proved.
\<close>

type_synonym uint64 = "64 word"
type_synonym uint32 = "32 word"

definition INT64_MAX :: int where "INT64_MAX = 9223372036854775807"
definition INT64_MIN :: int where "INT64_MIN = - 9223372036854775808"
definition INT32_MAX :: int where "INT32_MAX = 2147483647"

definition fits_int64 :: "int \<Rightarrow> bool" where
  "fits_int64 x \<longleftrightarrow> INT64_MIN \<le> x \<and> x \<le> INT64_MAX"

lemmas int_limits = INT64_MAX_def INT64_MIN_def INT32_MAX_def fits_int64_def

section \<open>Decimal digit strings\<close>

definition is_digit :: "char \<Rightarrow> bool" where
  "is_digit c \<longleftrightarrow> 48 \<le> (of_char c :: nat) \<and> (of_char c :: nat) \<le> 57"

definition digit_val :: "char \<Rightarrow> nat" where
  "digit_val c = of_char c - 48"

definition digit_char :: "nat \<Rightarrow> char" where
  "digit_char d = char_of (48 + d)"

text \<open>The number a digit string denotes, most significant digit first.\<close>

definition digits_val :: "string \<Rightarrow> nat" where
  "digits_val ds = foldl (\<lambda>acc c. acc * 10 + digit_val c) 0 ds"

text \<open>Decimal printing of a natural number, as \<open>std::to_string\<close> does it.\<close>

fun nat_digits :: "nat \<Rightarrow> string" where
  "nat_digits n = (if n < 10 then [digit_char n] else nat_digits (n div 10) @ [digit_char (n mod 10)])"

declare nat_digits.simps [simp del]

lemma digit_val_digit_char [simp]: "d < 10 \<Longrightarrow> digit_val (digit_char d) = d"
  by (simp add: digit_val_def digit_char_def)

lemma is_digit_digit_char [simp]: "d < 10 \<Longrightarrow> is_digit (digit_char d)"
  by (simp add: is_digit_def digit_char_def)

lemma digit_val_less [simp]: "is_digit c \<Longrightarrow> digit_val c < 10"
  by (auto simp: is_digit_def digit_val_def)

lemma digit_char_digit_val: "is_digit c \<Longrightarrow> digit_char (digit_val c) = c"
  by (auto simp: is_digit_def digit_val_def digit_char_def)

lemma not_digit_dot [simp]: "\<not> is_digit (CHR ''.'')"
  by (simp add: is_digit_def)

lemma foldl_digits_shift:
  "foldl (\<lambda>acc c. acc * 10 + digit_val c) a ds = a * 10 ^ length ds + digits_val ds"
proof (induction ds arbitrary: a)
  case Nil
  then show ?case by (simp add: digits_val_def)
next
  case (Cons d ds)
  have "digits_val (d # ds) = digit_val d * 10 ^ length ds + digits_val ds"
    using Cons.IH [of "digit_val d"] by (simp add: digits_val_def)
  then show ?case using Cons.IH [of "a * 10 + digit_val d"] by (simp add: algebra_simps)
qed

lemma digits_val_Nil [simp]: "digits_val [] = 0"
  by (simp add: digits_val_def)

lemma digits_val_append: "digits_val (xs @ ys) = digits_val xs * 10 ^ length ys + digits_val ys"
  using foldl_digits_shift [of "digits_val xs" ys] by (simp add: digits_val_def)

lemma digits_val_singleton [simp]: "digits_val [c] = digit_val c"
  by (simp add: digits_val_def)

lemma digits_val_Cons: "digits_val (c # cs) = digit_val c * 10 ^ length cs + digits_val cs"
  using digits_val_append [of "[c]" cs] by simp

lemma digits_val_zeros [simp]: "digits_val (replicate n (CHR ''0'')) = 0"
  by (induction n) (simp_all add: digits_val_Cons digit_val_def)

lemma digits_val_less: "list_all is_digit ds \<Longrightarrow> digits_val ds < 10 ^ length ds"
proof (induction ds rule: rev_induct)
  case Nil
  then show ?case by simp
next
  case (snoc d ds)
  then have "digits_val ds < 10 ^ length ds" and "digit_val d < 10" by simp_all
  then show ?case by (simp add: digits_val_append)
qed

lemma nat_digits_digits [simp]: "list_all is_digit (nat_digits n)"
proof (induction n rule: nat_digits.induct)
  case (1 n)
  then show ?case by (simp add: nat_digits.simps [of n])
qed

lemma digits_val_nat_digits [simp]: "digits_val (nat_digits n) = n"
proof (induction n rule: nat_digits.induct)
  case (1 n)
  then show ?case by (simp add: nat_digits.simps [of n] digits_val_append)
qed

lemma nat_digits_nonempty [simp]: "nat_digits n \<noteq> []"
  by (simp add: nat_digits.simps [of n])

section \<open>Exception messages\<close>

text \<open>\<open>what()\<close>. Of a JSON exception only the documented prefix with its id is kept.\<close>

fun what :: "exn \<Rightarrow> string" where
  "what (InvalidArgument s) = s"
| "what (OutOfRange s) = s"
| "what (OverflowError s) = s"
| "what (RuntimeError s) = s"
| "what (JsonParseError n) = ''[json.exception.parse_error.'' @ nat_digits n @ ''] ''"
| "what (JsonTypeError n) = ''[json.exception.type_error.'' @ nat_digits n @ ''] ''"
| "what (JsonOutOfRange n) = ''[json.exception.out_of_range.'' @ nat_digits n @ ''] ''"

end
