(* ===== verification/OrderedMap.thy ===== *)
theory OrderedMap
  imports Prelude
begin

text \<open>
  The ordered associative container \<open>std::map\<close> with its comparator as an explicit
  argument. A container is the list of its key/value pairs in iteration order, so
  \<open>begin()\<close> is the head. The operations are those the program calls. The locale
  \<open>key_order\<close> states what the program relies on of a comparator; the price comparators
  \<open>std::less\<close> and \<open>std::greater\<close> are interpretations of it.
\<close>

type_synonym ('k, 'v) omap = "('k \<times> 'v) list"

fun om_insert_or_assign :: "('k \<Rightarrow> 'k \<Rightarrow> bool) \<Rightarrow> 'k \<Rightarrow> 'v \<Rightarrow> ('k, 'v) omap \<Rightarrow> ('k, 'v) omap" where
  "om_insert_or_assign lt k v [] = [(k, v)]"
| "om_insert_or_assign lt k v ((k', v') # m) =
     (if lt k k' then (k, v) # (k', v') # m
      else if lt k' k then (k', v') # om_insert_or_assign lt k v m
      else (k', v) # m)"

definition om_find :: "'k \<Rightarrow> ('k, 'v) omap \<Rightarrow> 'v option" where
  "om_find k m = map_of m k"

text \<open>\<open>emplace\<close> inserts only when the key is absent and reports whether it did.\<close>

definition om_emplace :: "('k \<Rightarrow> 'k \<Rightarrow> bool) \<Rightarrow> 'k \<Rightarrow> 'v \<Rightarrow> ('k, 'v) omap \<Rightarrow> ('k, 'v) omap \<times> bool" where
  "om_emplace lt k v m =
     (case om_find k m of None \<Rightarrow> (om_insert_or_assign lt k v m, True) | Some _ \<Rightarrow> (m, False))"

definition om_erase :: "'k \<Rightarrow> ('k, 'v) omap \<Rightarrow> ('k, 'v) omap" where
  "om_erase k m = filter (\<lambda>(k', _). k' \<noteq> k) m"

definition om_begin :: "('k, 'v) omap \<Rightarrow> ('k \<times> 'v) option" where
  "om_begin m = (case m of [] \<Rightarrow> None | kv # _ \<Rightarrow> Some kv)"

definition om_sorted :: "('k \<Rightarrow> 'k \<Rightarrow> bool) \<Rightarrow> ('k, 'v) omap \<Rightarrow> bool" where
  "om_sorted lt m \<longleftrightarrow> sorted_wrt lt (map fst m)"

lemma om_sorted_Nil [simp]: "om_sorted lt []"
  by (simp add: om_sorted_def)

lemma om_sorted_Cons [simp]:
  "om_sorted lt ((k, v) # m) \<longleftrightarrow> (\<forall>k' \<in> fst ` set m. lt k k') \<and> om_sorted lt m"
  by (simp add: om_sorted_def)

lemma om_sorted_filter: "om_sorted lt m \<Longrightarrow> om_sorted lt (filter P m)"
  unfolding om_sorted_def by (induction m) auto

lemma om_sorted_take: "om_sorted lt m \<Longrightarrow> om_sorted lt (take n m)"
  unfolding om_sorted_def take_map [symmetric] by (rule sorted_wrt_take)

lemma om_sorted_erase: "om_sorted lt m \<Longrightarrow> om_sorted lt (om_erase k m)"
  by (simp add: om_erase_def om_sorted_filter)

lemma om_find_erase: "om_find x (om_erase k m) = (if x = k then None else om_find x m)"
  unfolding om_find_def om_erase_def by (induction m) auto

lemma om_keys_insert: "fst ` set (om_insert_or_assign lt k v m) \<subseteq> insert k (fst ` set m)"
  by (induction lt k v m rule: om_insert_or_assign.induct) auto

lemma om_values_insert: "snd ` set (om_insert_or_assign lt k v m) \<subseteq> insert v (snd ` set m)"
  by (induction lt k v m rule: om_insert_or_assign.induct) auto

lemma om_find_dom: "k \<in> fst ` set m \<longleftrightarrow> om_find k m \<noteq> None"
  by (simp add: om_find_def map_of_eq_None_iff)

section \<open>The contract of a comparator\<close>

locale key_order =
  fixes lt :: "'k \<Rightarrow> 'k \<Rightarrow> bool"
  assumes lt_irrefl: "\<not> lt a a"
    and lt_trans: "lt a b \<Longrightarrow> lt b c \<Longrightarrow> lt a c"
    and lt_total: "lt a b \<or> a = b \<or> lt b a"
begin

lemma om_sorted_distinct: "om_sorted lt m \<Longrightarrow> distinct (map fst m)"
proof (induction m)
  case Nil
  then show ?case by simp
next
  case (Cons kv m)
  then show ?case using lt_irrefl by (cases kv) force
qed

lemma find_insert:
  "om_find x (om_insert_or_assign lt k v m) = (if x = k then Some v else om_find x m)"
proof (induction m)
  case Nil
  then show ?case by (simp add: om_find_def)
next
  case (Cons kv m)
  then show ?case using lt_total lt_irrefl by (cases kv) (auto simp: om_find_def)
qed

lemma sorted_insert: "om_sorted lt m \<Longrightarrow> om_sorted lt (om_insert_or_assign lt k v m)"
proof (induction m)
  case Nil
  then show ?case by simp
next
  case (Cons kv m)
  obtain k' v' where kv: "kv = (k', v')" by (cases kv)
  have keys: "x = k \<or> x \<in> fst ` set m" if "x \<in> fst ` set (om_insert_or_assign lt k v m)" for x
    using that om_keys_insert [of lt k v m] by blast
  show ?case
  proof (cases "lt k' k")
    case True
    then have "\<not> lt k k'" using lt_irrefl lt_trans by blast
    moreover have "lt k' x" if "x \<in> fst ` set (om_insert_or_assign lt k v m)" for x
      using keys [OF that] True Cons.prems by (auto simp: kv)
    ultimately show ?thesis using Cons True by (simp add: kv)
  next
    case False
    then show ?thesis using Cons.prems lt_trans [of k k'] by (auto simp: kv)
  qed
qed

lemma find_emplace:
  "om_find x (fst (om_emplace lt k v m)) =
     (if x = k \<and> om_find k m = None then Some v else om_find x m)"
  by (auto simp: om_emplace_def find_insert split: option.split)

lemma sorted_emplace: "om_sorted lt m \<Longrightarrow> om_sorted lt (fst (om_emplace lt k v m))"
  by (simp add: om_emplace_def sorted_insert split: option.split)

text \<open>A sorted container is determined by the lookups it answers.\<close>

lemma om_sorted_head_eq:
  assumes "om_sorted lt ((k, v) # m)" and "om_sorted lt ((k', v') # m')"
    and "k \<in> fst ` set ((k', v') # m')" and "k' \<in> fst ` set ((k, v) # m)"
  shows "k = k'"
proof (rule ccontr)
  assume "k \<noteq> k'"
  then have "lt k' k" and "lt k k'" using assms by auto
  then show False using lt_irrefl lt_trans by blast
qed

lemma om_sorted_ext:
  assumes "om_sorted lt m" and "om_sorted lt m'" and "\<And>k. om_find k m = om_find k m'"
  shows "m = m'"
  using assms
proof (induction m arbitrary: m')
  case Nil
  then have "x \<notin> fst ` set m'" for x using om_find_dom [of x m'] by (simp add: om_find_def)
  then show ?case by (cases m') force+
next
  case (Cons kv m)
  obtain k v where kv: "kv = (k, v)" by (cases kv)
  have "m' \<noteq> []" using Cons.prems(3) [of k] by (auto simp: kv om_find_def)
  then obtain k' v' m'' where m': "m' = (k', v') # m''" by (cases m') auto
  have "om_find k m' = Some v" using Cons.prems(3) [of k] by (simp add: kv om_find_def)
  then have k: "k \<in> fst ` set m'" by (simp add: om_find_dom)
  have "om_find k' (kv # m) = Some v'" using Cons.prems(3) [of k'] by (simp add: m' om_find_def)
  then have k': "k' \<in> fst ` set (kv # m)" by (simp only: om_find_dom) simp
  have eq: "k = k'"
    using om_sorted_head_eq [of k v m k' v' m''] Cons.prems(1,2) k k' kv m' by simp
  have "v = v'" using \<open>om_find k m' = Some v\<close> eq by (simp add: m' om_find_def)
  have "k \<notin> fst ` set m" "k \<notin> fst ` set m''"
    using Cons.prems(1,2) lt_irrefl eq kv m' by auto
  then have none: "om_find k m = None" "om_find k m'' = None"
    by (simp_all add: om_find_dom)
  have "om_find x m = om_find x m''" for x
    using none Cons.prems(3) [of x] eq by (cases "x = k") (simp_all add: kv m' om_find_def)
  then have "m = m''" using Cons.IH [of m''] Cons.prems(1,2) kv m' by simp
  then show ?case using eq \<open>v = v'\<close> kv m' by simp
qed

text \<open>\<open>begin()\<close> is the least key in the comparator's order.\<close>

lemma om_begin_least:
  assumes "om_sorted lt m" and "om_begin m = Some (k, v)" and "om_find k' m \<noteq> None"
  shows "k' = k \<or> lt k k'"
  using assms om_find_dom [of k' m] by (cases m) (auto simp: om_begin_def)

lemma om_begin_find:
  assumes "om_begin m = Some (k, v)"
  shows "om_find k m = Some v"
  using assms by (cases m) (auto simp: om_begin_def om_find_def)

end

text \<open>The two comparators of the program's price maps.\<close>

definition std_less :: "int \<Rightarrow> int \<Rightarrow> bool" where "std_less a b \<longleftrightarrow> a < b"
definition std_greater :: "int \<Rightarrow> int \<Rightarrow> bool" where "std_greater a b \<longleftrightarrow> a > b"

interpretation ascending: key_order std_less
  by unfold_locales (auto simp: std_less_def)

interpretation descending: key_order std_greater
  by unfold_locales (auto simp: std_greater_def)

end
