(* ===== verification/FixedPoint.thy ===== *)
theory FixedPoint
  imports Prelude
begin

text \<open>
  Exact fixed-point numbers: \<open>include/core/fixed_point.hpp\<close> and \<open>src/core/fixed_point.cpp\<close>.
  The four C++ wrappers share one representation, a nonnegative 64 bit integer; the tag
  that keeps them apart exists at compile time only, so each is a synonym here.
\<close>

type_synonym fixed_point = int
type_synonym price_ticks = fixed_point
type_synonym quantity_atoms = fixed_point
type_synonym money_atoms = fixed_point
type_synonym fee_rate = fixed_point

text \<open>The constructor rejects negative raw values.\<close>

definition FixedPoint :: "int \<Rightarrow> fixed_point result" where
  "FixedPoint raw =
     (if raw < 0 then Inl (InvalidArgument ''fixed-point values must be nonnegative'') else Inr raw)"

definition require_increment :: "fixed_point \<Rightarrow> fixed_point \<Rightarrow> fixed_point result" where
  "require_increment value increment =
     (if increment = 0 then Inl (InvalidArgument ''increment must be positive'')
      else if value mod increment \<noteq> 0
      then Inl (InvalidArgument ''value is not a multiple of the venue increment'')
      else Inr value)"

section \<open>Parsing\<close>

text \<open>
  The validating pass of \<open>parse_decimal\<close>: \<open>n\<close> is the length of the whole text, \<open>i\<close> the
  current index. It returns the number of fractional digits.
\<close>

fun scan_decimal :: "nat \<Rightarrow> nat \<Rightarrow> bool \<Rightarrow> nat \<Rightarrow> string \<Rightarrow> nat result" where
  "scan_decimal n i point_seen fractional_digits [] = Inr fractional_digits"
| "scan_decimal n i point_seen fractional_digits (ch # rest) =
     (if ch = CHR ''.'' then
        (if point_seen \<or> i = 0 \<or> i = n - 1
         then Inl (InvalidArgument ''invalid decimal point'')
         else scan_decimal n (Suc i) True fractional_digits rest)
      else if \<not> is_digit ch
      then Inl (InvalidArgument ''decimal contains an invalid character'')
      else scan_decimal n (Suc i) point_seen
             (if point_seen then Suc fractional_digits else fractional_digits) rest)"

text \<open>The accumulating lambda, whose guard keeps \<open>raw * 10 + digit\<close> inside 64 bits.\<close>

definition append_digit :: "int \<Rightarrow> int \<Rightarrow> int result" where
  "append_digit raw digit =
     (if raw > (INT64_MAX - digit) div 10
      then Inl (OverflowError ''decimal exceeds INT64_MAX'')
      else Inr (raw * 10 + digit))"

fun append_chars :: "int \<Rightarrow> string \<Rightarrow> int result" where
  "append_chars raw [] = Inr raw"
| "append_chars raw (ch # rest) =
     (if ch \<noteq> CHR ''.''
      then bind_exn (append_digit raw (int (digit_val ch))) (\<lambda>raw'. append_chars raw' rest)
      else append_chars raw rest)"

fun append_zeros :: "nat \<Rightarrow> int \<Rightarrow> int result" where
  "append_zeros 0 raw = Inr raw"
| "append_zeros (Suc k) raw = bind_exn (append_digit raw 0) (append_zeros k)"

definition parse_decimal :: "string \<Rightarrow> int \<Rightarrow> int result" where
  "parse_decimal decimal scale =
     (if scale < 0 \<or> scale > 18 then Inl (OutOfRange ''scale must be between 0 and 18'')
      else if decimal = [] then Inl (InvalidArgument ''decimal must not be empty'')
      else bind_exn (scan_decimal (length decimal) 0 False 0 decimal) (\<lambda>fractional_digits.
        if fractional_digits > nat scale
        then Inl (InvalidArgument ''decimal exceeds requested precision'')
        else bind_exn (append_chars 0 decimal) (append_zeros (nat scale - fractional_digits))))"

definition parse_price :: "string \<Rightarrow> int \<Rightarrow> price_ticks result" where
  "parse_price decimal scale = bind_exn (parse_decimal decimal scale) FixedPoint"

definition parse_quantity :: "string \<Rightarrow> int \<Rightarrow> quantity_atoms result" where
  "parse_quantity decimal scale = bind_exn (parse_decimal decimal scale) FixedPoint"

definition parse_money :: "string \<Rightarrow> int \<Rightarrow> money_atoms result" where
  "parse_money decimal scale = bind_exn (parse_decimal decimal scale) FixedPoint"

definition parse_fee_rate :: "string \<Rightarrow> int \<Rightarrow> fee_rate result" where
  "parse_fee_rate decimal scale = bind_exn (parse_decimal decimal scale) FixedPoint"

section \<open>The grammar and the value of a decimal\<close>

text \<open>
  The documented grammar: an integer part, and a fractional part that is either absent or
  a point followed by at least one digit.
\<close>

definition decimal_parts :: "string \<Rightarrow> string \<Rightarrow> string \<Rightarrow> bool" where
  "decimal_parts s ip fp \<longleftrightarrow>
     ip \<noteq> [] \<and> list_all is_digit ip \<and> list_all is_digit fp \<and>
     s = (if fp = [] then ip else ip @ CHR ''.'' # fp)"

text \<open>The exact scaled value: the digits as one number, shifted to the scale.\<close>

definition scaled_value :: "string \<Rightarrow> string \<Rightarrow> int \<Rightarrow> int" where
  "scaled_value ip fp scale = int (digits_val (ip @ fp) * 10 ^ (nat scale - length fp))"

lemma digit_not_dot: "is_digit c \<Longrightarrow> c \<noteq> CHR ''.''"
  by auto

lemma digits_no_dot: "list_all is_digit ds \<Longrightarrow> CHR ''.'' \<notin> set ds"
  by (auto simp: list_all_iff)

lemma scan_after_point:
  "scan_decimal n i True f cs = Inr f' \<longleftrightarrow> list_all is_digit cs \<and> f' = f + length cs"
  by (induction cs arbitrary: i f) auto

text \<open>The text up to its first point, and what follows that point.\<close>

primrec split_point :: "string \<Rightarrow> string \<times> string option" where
  "split_point [] = ([], None)"
| "split_point (c # cs) =
     (if c = CHR ''.'' then ([], Some cs)
      else (c # fst (split_point cs), snd (split_point cs)))"

lemma split_point_None: "snd (split_point s) = None \<longleftrightarrow> CHR ''.'' \<notin> set s"
  by (induction s) auto

lemma fst_split_point: "CHR ''.'' \<notin> set (fst (split_point s))"
  by (induction s) auto

lemma split_point_whole: "snd (split_point s) = None \<Longrightarrow> fst (split_point s) = s"
  by (induction s) (auto split: if_splits)

lemma split_point_Some: "snd (split_point s) = Some fp \<Longrightarrow> s = fst (split_point s) @ CHR ''.'' # fp"
  by (induction s) (auto split: if_splits)

lemma split_point_append: "CHR ''.'' \<notin> set ip \<Longrightarrow> split_point (ip @ CHR ''.'' # fp) = (ip, Some fp)"
  by (induction ip) auto

lemma scan_before_point:
  assumes "n = i + length cs"
  shows "scan_decimal n i False f cs = Inr f' \<longleftrightarrow>
    list_all is_digit (fst (split_point cs)) \<and>
    (case snd (split_point cs) of None \<Rightarrow> f' = f
     | Some fp \<Rightarrow> (i = 0 \<longrightarrow> fst (split_point cs) \<noteq> []) \<and> fp \<noteq> [] \<and>
         list_all is_digit fp \<and> f' = f + length fp)"
  using assms
proof (induction cs arbitrary: i)
  case Nil
  then show ?case by auto
next
  case (Cons c cs)
  show ?case
  proof (cases "c = CHR ''.''")
    case True
    have "i = n - 1 \<longleftrightarrow> cs = []" using Cons.prems by simp
    then show ?thesis using True by (auto simp: scan_after_point)
  next
    case False
    then show ?thesis
      using Cons.IH [of "Suc i"] Cons.prems by (cases "snd (split_point cs)") auto
  qed
qed

lemma decimal_parts_split:
  "decimal_parts s ip fp \<longleftrightarrow>
     ip \<noteq> [] \<and> list_all is_digit ip \<and> list_all is_digit fp \<and>
     split_point s = (ip, if fp = [] then None else Some fp)"
proof (cases "fp = []")
  case True
  have "split_point ip = (ip, None)" if "list_all is_digit ip" for ip
    using digits_no_dot [OF that] split_point_None [of ip] split_point_whole [of ip]
    by (metis prod.collapse)
  moreover have "s = ip" if "split_point s = (ip, None)" for ip
    using that split_point_whole [of s] by simp
  ultimately show ?thesis using True by (auto simp: decimal_parts_def)
next
  case False
  then show ?thesis
    using split_point_append [OF digits_no_dot, of ip fp] split_point_Some [of s fp]
    by (auto simp: decimal_parts_def)
qed

lemma scan_decimal_iff:
  assumes "s \<noteq> []"
  shows "scan_decimal (length s) 0 False 0 s = Inr f \<longleftrightarrow>
    (\<exists>ip fp. decimal_parts s ip fp \<and> f = length fp)"
proof (cases "snd (split_point s)")
  case None
  then have "fst (split_point s) \<noteq> []" using split_point_whole [OF None] assms by simp
  then show ?thesis using None
    by (auto simp: scan_before_point decimal_parts_split prod_eq_iff split: if_splits)
next
  case (Some fp')
  then show ?thesis
    by (auto simp: scan_before_point decimal_parts_split prod_eq_iff split: if_splits)
qed

lemma decimal_parts_unique:
  assumes "decimal_parts s ip fp" and "decimal_parts s ip' fp'"
  shows "ip = ip' \<and> fp = fp'"
  using assms by (auto simp: decimal_parts_split split: if_splits)

lemma scan_decimal_error:
  "scan_decimal n i p f cs = Inl e \<Longrightarrow> \<exists>m. e = InvalidArgument m"
  by (induction cs arbitrary: i p f) (auto split: if_splits)

lemma append_digit_eq:
  "append_digit raw d =
     (if raw * 10 + d \<le> INT64_MAX then Inr (raw * 10 + d)
      else Inl (OverflowError ''decimal exceeds INT64_MAX''))"
  by (auto simp: append_digit_def)

lemma overflow_stays:
  assumes "(0::int) \<le> raw" and "0 \<le> d" and "INT64_MAX < raw * 10 + d"
  shows "INT64_MAX < (raw * 10 + d) * 10 ^ k + int v"
proof -
  have "raw * 10 + d \<le> (raw * 10 + d) * 10 ^ k"
    using assms by (simp add: mult_le_cancel_left1)
  then show ?thesis using assms by linarith
qed

lemma append_chars_eq:
  assumes "0 \<le> raw" and "raw \<le> INT64_MAX"
  shows "append_chars raw cs =
    (let ds = filter (\<lambda>c. c \<noteq> CHR ''.'') cs; r = raw * 10 ^ length ds + int (digits_val ds)
     in if r \<le> INT64_MAX then Inr r else Inl (OverflowError ''decimal exceeds INT64_MAX''))"
  using assms
proof (induction cs arbitrary: raw)
  case Nil
  then show ?case by simp
next
  case (Cons c cs)
  let ?ds = "filter (\<lambda>c. c \<noteq> CHR ''.'') cs"
  let ?r = "raw * 10 + int (digit_val c)"
  have shift: "?r * 10 ^ length ?ds + int (digits_val ?ds) =
      raw * 10 ^ length (c # ?ds) + int (digits_val (c # ?ds))"
    by (simp add: digits_val_Cons algebra_simps)
  show ?case
  proof (cases "?r \<le> INT64_MAX")
    case True
    then show ?thesis
      using Cons.IH [of ?r] Cons.IH [of raw] Cons.prems shift by (simp add: append_digit_eq Let_def)
  next
    case False
    then have "INT64_MAX < ?r * 10 ^ length ?ds + int (digits_val ?ds)"
      using Cons.prems by (intro overflow_stays) simp_all
    then show ?thesis
      using False Cons.IH [of raw] Cons.prems shift by (simp add: append_digit_eq Let_def)
  qed
qed

lemma append_zeros_eq:
  assumes "0 \<le> raw" and "raw \<le> INT64_MAX"
  shows "append_zeros k raw =
    (if raw * 10 ^ k \<le> INT64_MAX then Inr (raw * 10 ^ k)
     else Inl (OverflowError ''decimal exceeds INT64_MAX''))"
  using assms
proof (induction k arbitrary: raw)
  case 0
  then show ?case by simp
next
  case (Suc k)
  show ?case
  proof (cases "raw * 10 \<le> INT64_MAX")
    case True
    then show ?thesis using Suc.IH [of "raw * 10"] Suc.prems
      by (simp add: append_digit_eq algebra_simps)
  next
    case False
    then have "INT64_MAX < (raw * 10 + 0) * 10 ^ k + int 0"
      using Suc.prems by (intro overflow_stays) simp_all
    then show ?thesis using False by (simp add: append_digit_eq algebra_simps)
  qed
qed

lemma decimal_parts_filter:
  "decimal_parts s ip fp \<Longrightarrow> filter (\<lambda>c. c \<noteq> CHR ''.'') s = ip @ fp"
  using digits_no_dot [of ip] digits_no_dot [of fp]
  by (auto simp: decimal_parts_def filter_id_conv intro!: arg_cong2 [where f = "(@)"])

text \<open>The whole parser in one equation, for a scale in range.\<close>

lemma parse_decimal_parts:
  assumes "0 \<le> scale" and "scale \<le> 18" and "decimal_parts s ip fp"
  shows "parse_decimal s scale =
    (if nat scale < length fp then Inl (InvalidArgument ''decimal exceeds requested precision'')
     else if scaled_value ip fp scale \<le> INT64_MAX then Inr (scaled_value ip fp scale)
     else Inl (OverflowError ''decimal exceeds INT64_MAX''))"
proof -
  have "s \<noteq> []" using assms(3) by (auto simp: decimal_parts_def)
  have scan: "scan_decimal (length s) 0 False 0 s = Inr (length fp)"
    using scan_decimal_iff [OF \<open>s \<noteq> []\<close>] assms(3) by blast
  let ?v = "int (digits_val (ip @ fp))"
  have chars: "append_chars 0 s =
      (if ?v \<le> INT64_MAX then Inr ?v else Inl (OverflowError ''decimal exceeds INT64_MAX''))"
    using append_chars_eq [of 0 s] decimal_parts_filter [OF assms(3)]
    by (simp add: Let_def INT64_MAX_def)
  show ?thesis
  proof (cases "?v \<le> INT64_MAX")
    case True
    then show ?thesis
      using append_zeros_eq [of ?v "nat scale - length fp"] assms(1,2) \<open>s \<noteq> []\<close>
      by (simp add: parse_decimal_def scan chars scaled_value_def)
  next
    case False
    have "?v \<le> ?v * 10 ^ (nat scale - length fp)" by (simp add: mult_le_cancel_left1)
    then have "\<not> scaled_value ip fp scale \<le> INT64_MAX"
      using False by (simp add: scaled_value_def)
    then show ?thesis using False assms(1,2) \<open>s \<noteq> []\<close>
      by (simp add: parse_decimal_def scan chars)
  qed
qed

lemma parse_decimal_malformed:
  assumes "0 \<le> scale" and "scale \<le> 18" and "\<nexists>ip fp. decimal_parts s ip fp"
  shows "\<exists>m. parse_decimal s scale = Inl (InvalidArgument m)"
proof (cases "s = []")
  case True
  then show ?thesis using assms(1,2) by (simp add: parse_decimal_def)
next
  case False
  then obtain e where "scan_decimal (length s) 0 False 0 s = Inl e"
    using assms(3) scan_decimal_iff [OF False] by (cases "scan_decimal (length s) 0 False 0 s") auto
  then show ?thesis using assms(1,2) False scan_decimal_error by (fastforce simp: parse_decimal_def)
qed

lemma parse_decimal_range:
  assumes "parse_decimal s scale = Inr r"
  shows "0 \<le> r \<and> r \<le> INT64_MAX"
proof -
  have sc: "0 \<le> scale" "scale \<le> 18" using assms by (auto simp: parse_decimal_def split: if_splits)
  then obtain ip fp where parts: "decimal_parts s ip fp"
    using assms parse_decimal_malformed [of scale s] by fastforce
  then show ?thesis using assms parse_decimal_parts [OF sc parts]
    by (auto simp: scaled_value_def split: if_splits)
qed

lemma parse_decimal_price [simp]: "parse_price s scale = parse_decimal s scale"
  using parse_decimal_range [of s scale]
  by (cases "parse_decimal s scale") (auto simp: parse_price_def FixedPoint_def)

lemma parse_decimal_quantity [simp]: "parse_quantity s scale = parse_decimal s scale"
  using parse_decimal_range [of s scale]
  by (cases "parse_decimal s scale") (auto simp: parse_quantity_def FixedPoint_def)

section \<open>Properties\<close>

text \<open>C24. A price text is accepted at a scale in 0..18 exactly when it has the form
  digits or digits.digits, has no more fractional digits than the scale and its exact
  scaled value fits 64 bits; the result is then that exact value, with no rounding.\<close>

theorem parse_price_exact:
  assumes "0 \<le> scale" and "scale \<le> 18"
  shows "parse_price s scale = Inr r \<longleftrightarrow>
    (\<exists>ip fp. decimal_parts s ip fp \<and> length fp \<le> nat scale \<and>
       r = scaled_value ip fp scale \<and> r \<le> INT64_MAX)"
proof (cases "\<exists>ip fp. decimal_parts s ip fp")
  case True
  then obtain ip fp where parts: "decimal_parts s ip fp" by blast
  then have uniq: "decimal_parts s ip' fp' \<longleftrightarrow> ip' = ip \<and> fp' = fp" for ip' fp'
    using decimal_parts_unique by blast
  show ?thesis using parse_decimal_parts [OF assms parts] by (auto simp: uniq)
next
  case False
  then show ?thesis using parse_decimal_malformed [OF assms, of s] by auto
qed

theorem parse_price_exact_witness:
  "(\<exists>ip fp. decimal_parts ''62143.27'' ip fp \<and> length fp \<le> nat 2 \<and>
     (6214327::int) = scaled_value ip fp 2 \<and> (6214327::int) \<le> INT64_MAX)"
proof -
  have "parse_price ''62143.27'' 2 = Inr 6214327" by code_simp
  then show ?thesis using parse_price_exact [of 2 "''62143.27''" 6214327] by simp
qed

end
