(* ===== verification/MarketData.thy ===== *)
theory MarketData
  imports FixedPoint
begin

text \<open>
  The canonical market data types of \<open>include/core\<close>: venues, instruments, sides, book
  states, price levels and the two market events that adapters emit. Timestamps are
  nanosecond counts; the three wrapper structs around them are synonyms of \<open>int\<close>.
\<close>

datatype venue = Coinbase | Kraken

datatype instrument = BTC_USD

datatype side = Bid | Ask

datatype book_state = Initializing | Valid | Stale | Resyncing | Disconnected | Invalid

type_synonym exchange_timestamp = int
type_synonym receive_wall_timestamp = int
type_synonym receive_monotonic_timestamp = int

record book_level =
  lv_side :: side
  lv_price :: price_ticks
  lv_quantity :: quantity_atoms

record book_snapshot =
  sn_venue :: venue
  sn_instrument :: instrument
  sn_levels :: "book_level list"
  sn_exchange_time :: exchange_timestamp
  sn_receive_wall_time :: receive_wall_timestamp
  sn_receive_monotonic_time :: receive_monotonic_timestamp
  sn_sequence :: "uint64 option"

record book_update =
  up_venue :: venue
  up_instrument :: instrument
  up_changes :: "book_level list"
  up_exchange_time :: exchange_timestamp
  up_receive_wall_time :: receive_wall_timestamp
  up_receive_monotonic_time :: receive_monotonic_timestamp
  up_sequence :: "uint64 option"

datatype market_event = BookSnapshot book_snapshot | BookUpdate book_update

fun is_snapshot :: "market_event \<Rightarrow> bool" where
  "is_snapshot (BookSnapshot _) = True"
| "is_snapshot (BookUpdate _) = False"

end
