(* ===== verification/SequenceTracker.thy ===== *)
theory SequenceTracker
  imports Prelude
begin

text \<open>
  Envelope sequence continuity: \<open>src/core/sequence_tracker.cpp\<close>. The tracker's whole state
  is the optional last accepted sequence.
\<close>

datatype sequence_result = First | Expected | Duplicate | OutOfOrder | Gap

type_synonym sequence_tracker = "uint64 option"

definition seq_observe :: "uint64 \<Rightarrow> sequence_tracker \<Rightarrow> sequence_result \<times> sequence_tracker" where
  "seq_observe sequence lst =
     (case lst of
        None \<Rightarrow> (First, Some sequence)
      | Some l \<Rightarrow>
          if sequence = l then (Duplicate, lst)
          else if sequence < l then (OutOfOrder, lst)
          else if sequence - l \<noteq> 1 then (Gap, lst)
          else (Expected, Some sequence))"

definition seq_reset :: "sequence_tracker \<Rightarrow> sequence_tracker" where
  "seq_reset lst = None"

text \<open>The sequences a run accepts: those answered \<open>First\<close> or \<open>Expected\<close>.\<close>

fun accepted_sequences :: "sequence_tracker \<Rightarrow> uint64 list \<Rightarrow> uint64 list" where
  "accepted_sequences t [] = []"
| "accepted_sequences t (s # ss) =
     (case seq_observe s t of (r, t') \<Rightarrow>
        (if r = First \<or> r = Expected then s # accepted_sequences t' ss
         else accepted_sequences t' ss))"

lemma seq_observe_Some:
  "seq_observe s (Some l) =
     (if unat s = unat l then (Duplicate, Some l)
      else if unat s < unat l then (OutOfOrder, Some l)
      else if unat s = Suc (unat l) then (Expected, Some s)
      else (Gap, Some l))"
proof (cases "l < s")
  case True
  then have "unat (s - l) = unat s - unat l"
    by (simp add: unat_sub less_imp_le)
  then have "s - l = 1 \<longleftrightarrow> unat s - unat l = 1"
    by (metis unat_1 word_unat_eq_iff)
  with True show ?thesis
    by (auto simp: seq_observe_def word_less_nat_alt word_unat_eq_iff)
next
  case False
  then show ?thesis
    by (auto simp: seq_observe_def word_less_nat_alt word_unat_eq_iff)
qed

lemma seq_observe_None [simp]: "seq_observe s None = (First, Some s)"
  by (simp add: seq_observe_def)

lemma seq_observe_keeps:
  "fst (seq_observe s t) \<in> {Duplicate, OutOfOrder, Gap} \<Longrightarrow> snd (seq_observe s t) = t"
  by (cases t) (auto simp: seq_observe_Some split: if_splits)

lemma upt_Cons_length: "n # [Suc n ..< Suc n + k] = [n ..< n + Suc k]"
  by (simp add: upt_conv_Cons del: upt_Suc)

lemma accepted_from_Some:
  "map unat (accepted_sequences (Some l) ss) =
     [Suc (unat l) ..< Suc (unat l) + length (accepted_sequences (Some l) ss)]"
proof (induction ss arbitrary: l)
  case Nil
  then show ?case by simp
next
  case (Cons s ss)
  show ?case
  proof (cases "unat s = Suc (unat l)")
    case True
    then show ?thesis using Cons.IH [of s] upt_Cons_length [of "Suc (unat l)"]
      by (simp add: seq_observe_Some del: upt_Suc)
  next
    case False
    then show ?thesis using Cons.IH [of l] by (auto simp: seq_observe_Some split: if_splits)
  qed
qed

section \<open>Properties\<close>

text \<open>C29. Whatever sequence numbers arrive after a reset, the accepted ones are
  contiguous: each is exactly one more than the one before it, as numbers and without
  wrapping around at 64 bits. Duplicates, regressions and gaps never enter the run.\<close>

theorem accepted_contiguous:
  "\<exists>start. map unat (accepted_sequences (seq_reset t) ss) =
     [start ..< start + length (accepted_sequences (seq_reset t) ss)]"
proof (cases ss)
  case Nil
  then show ?thesis by simp
next
  case (Cons s ss')
  have "map unat (accepted_sequences None ss) =
      [unat s ..< unat s + length (accepted_sequences None ss)]"
    using accepted_from_Some [of s ss'] upt_Cons_length [of "unat s"]
    by (simp add: Cons del: upt_Suc)
  then show ?thesis by (auto simp: seq_reset_def)
qed

end
