(* ===== verification/OrderBook.thy ===== *)
theory OrderBook
  imports OrderedMap MarketData
begin

text \<open>
  The order book: \<open>include/core/order_book.hpp\<close> and \<open>src/core/order_book.cpp\<close>. Bids are
  kept in a map ordered by \<open>std::greater\<close>, asks in one ordered by \<open>std::less\<close>. Every
  \<open>apply\<close> returns the C++ result together with the book it leaves behind.
\<close>

type_synonym levels = "(price_ticks, quantity_atoms) omap"

abbreviation bid_lt :: "price_ticks \<Rightarrow> price_ticks \<Rightarrow> bool" where "bid_lt \<equiv> std_greater"
abbreviation ask_lt :: "price_ticks \<Rightarrow> price_ticks \<Rightarrow> bool" where "ask_lt \<equiv> std_less"

record order_book =
  ob_venue :: venue
  ob_instrument :: instrument
  ob_state :: book_state
  ob_bids :: levels
  ob_asks :: levels
  ob_last_sequence :: "uint64 option"

definition OrderBook :: "venue \<Rightarrow> instrument \<Rightarrow> order_book" where
  "OrderBook v i = \<lparr>ob_venue = v, ob_instrument = i, ob_state = Initializing,
     ob_bids = [], ob_asks = [], ob_last_sequence = None\<rparr>"

definition valid_level :: "book_level \<Rightarrow> bool \<Rightarrow> bool" where
  "valid_level level snapshot \<longleftrightarrow>
     (lv_side level = Bid \<or> lv_side level = Ask) \<and> lv_price level > 0 \<and>
     (if snapshot then lv_quantity level > 0 else lv_quantity level \<ge> 0)"

section \<open>Staging and committing changes\<close>

text \<open>
  Staging records only the touched prices; a zero quantity is a tombstone. \<open>None\<close> is the
  \<open>false\<close> return, on which the callers drop what was staged.
\<close>

fun stage_changes :: "book_level list \<Rightarrow> levels \<Rightarrow> levels \<Rightarrow> (levels \<times> levels) option" where
  "stage_changes [] bids asks = Some (bids, asks)"
| "stage_changes (change # rest) bids asks =
     (if \<not> valid_level change False then None
      else if lv_side change = Bid
      then stage_changes rest (om_insert_or_assign bid_lt (lv_price change) (lv_quantity change) bids) asks
      else stage_changes rest bids (om_insert_or_assign ask_lt (lv_price change) (lv_quantity change) asks))"

definition stage_update :: "book_update \<Rightarrow> venue \<Rightarrow> instrument \<Rightarrow> levels \<Rightarrow> levels \<Rightarrow> (levels \<times> levels) option" where
  "stage_update update v i bids asks =
     (if up_venue update \<noteq> v \<or> up_instrument update \<noteq> i then None
      else stage_changes (up_changes update) bids asks)"

text \<open>The loop extracts the first staged node until none is left.\<close>

fun commit_changes :: "(price_ticks \<Rightarrow> price_ticks \<Rightarrow> bool) \<Rightarrow> levels \<Rightarrow> levels \<Rightarrow> levels" where
  "commit_changes lt levels [] = levels"
| "commit_changes lt levels ((key, mapped) # changes) =
     commit_changes lt
       (let found = om_find key levels in
        if mapped = 0 then (if found \<noteq> None then om_erase key levels else levels)
        else if found \<noteq> None then om_insert_or_assign lt key mapped levels
        else om_insert_or_assign lt key mapped levels)
       changes"

section \<open>The operations\<close>

fun snapshot_levels :: "book_level list \<Rightarrow> levels \<Rightarrow> levels \<Rightarrow> (levels \<times> levels) option" where
  "snapshot_levels [] new_bids new_asks = Some (new_bids, new_asks)"
| "snapshot_levels (level # rest) new_bids new_asks =
     (if \<not> valid_level level True then None
      else if lv_side level = Bid
      then (case om_emplace bid_lt (lv_price level) (lv_quantity level) new_bids of
              (bids, inserted) \<Rightarrow> if \<not> inserted then None else snapshot_levels rest bids new_asks)
      else (case om_emplace ask_lt (lv_price level) (lv_quantity level) new_asks of
              (asks, inserted) \<Rightarrow> if \<not> inserted then None else snapshot_levels rest new_bids asks))"

definition apply_snapshot :: "book_snapshot \<Rightarrow> order_book \<Rightarrow> bool \<times> order_book" where
  "apply_snapshot snapshot b =
     (if sn_venue snapshot \<noteq> ob_venue b \<or> sn_instrument snapshot \<noteq> ob_instrument b then (False, b)
      else case snapshot_levels (sn_levels snapshot) [] [] of
          None \<Rightarrow> (False, b)
        | Some (new_bids, new_asks) \<Rightarrow>
            (True, b\<lparr>ob_bids := new_bids, ob_asks := new_asks,
                     ob_last_sequence := sn_sequence snapshot, ob_state := Valid\<rparr>))"

definition apply_update :: "book_update \<Rightarrow> order_book \<Rightarrow> bool \<times> order_book" where
  "apply_update update b =
     (if ob_state b \<noteq> Valid then (False, b)
      else case stage_update update (ob_venue b) (ob_instrument b) [] [] of
          None \<Rightarrow> (False, b)
        | Some (bids, asks) \<Rightarrow>
            (True, b\<lparr>ob_bids := commit_changes bid_lt (ob_bids b) bids,
                     ob_asks := commit_changes ask_lt (ob_asks b) asks,
                     ob_last_sequence := up_sequence update\<rparr>))"

fun apply_event :: "market_event \<Rightarrow> order_book \<Rightarrow> bool \<times> order_book" where
  "apply_event (BookSnapshot s) b = apply_snapshot s b"
| "apply_event (BookUpdate u) b = apply_update u b"

text \<open>The loop over a copy of the book that stops at the first rejected event.\<close>

fun apply_each :: "market_event list \<Rightarrow> order_book \<Rightarrow> bool \<times> order_book" where
  "apply_each [] b = (True, b)"
| "apply_each (e # es) b =
     (case apply_event e b of (ok, b') \<Rightarrow> if ok then apply_each es b' else (False, b'))"

text \<open>
  Staging a whole envelope of updates into one pair of change maps.
  \<open>std::get\<close> on a snapshot throws; the caller has excluded snapshots before.
\<close>

fun stage_events :: "market_event list \<Rightarrow> venue \<Rightarrow> instrument \<Rightarrow> levels \<Rightarrow> levels \<Rightarrow> (levels \<times> levels) option" where
  "stage_events [] v i bids asks = Some (bids, asks)"
| "stage_events (BookUpdate u # es) v i bids asks =
     (case stage_update u v i bids asks of
        None \<Rightarrow> None
      | Some (bids', asks') \<Rightarrow> stage_events es v i bids' asks')"
| "stage_events (BookSnapshot s # es) v i bids asks = None"

fun event_sequence :: "market_event \<Rightarrow> uint64 option" where
  "event_sequence (BookSnapshot s) = sn_sequence s"
| "event_sequence (BookUpdate u) = up_sequence u"

definition apply_events :: "market_event list \<Rightarrow> order_book \<Rightarrow> bool \<times> order_book" where
  "apply_events events b =
     (if events = [] then (True, b)
      else if list_ex is_snapshot events then
        (case apply_each events b of (ok, staged) \<Rightarrow> if ok then (True, staged) else (False, b))
      else if ob_state b \<noteq> Valid then (False, b)
      else case stage_events events (ob_venue b) (ob_instrument b) [] [] of
          None \<Rightarrow> (False, b)
        | Some (bids, asks) \<Rightarrow>
            (True, b\<lparr>ob_bids := commit_changes bid_lt (ob_bids b) bids,
                     ob_asks := commit_changes ask_lt (ob_asks b) asks,
                     ob_last_sequence := event_sequence (last events)\<rparr>))"

definition mark_initializing :: "order_book \<Rightarrow> order_book" where
  "mark_initializing b = b\<lparr>ob_state := Initializing\<rparr>"
definition mark_stale :: "order_book \<Rightarrow> order_book" where
  "mark_stale b = b\<lparr>ob_state := Stale\<rparr>"
definition mark_resyncing :: "order_book \<Rightarrow> order_book" where
  "mark_resyncing b = b\<lparr>ob_state := Resyncing\<rparr>"
definition mark_disconnected :: "order_book \<Rightarrow> order_book" where
  "mark_disconnected b = b\<lparr>ob_state := Disconnected\<rparr>"
definition invalidate :: "order_book \<Rightarrow> order_book" where
  "invalidate b = b\<lparr>ob_state := Invalid\<rparr>"

lemmas mark_defs = mark_initializing_def mark_stale_def mark_resyncing_def
  mark_disconnected_def invalidate_def

definition best_bid :: "order_book \<Rightarrow> book_level option" where
  "best_bid b =
     (if ob_state b \<noteq> Valid then None
      else case om_begin (ob_bids b) of None \<Rightarrow> None
         | Some (price, quantity) \<Rightarrow> Some \<lparr>lv_side = Bid, lv_price = price, lv_quantity = quantity\<rparr>)"

definition best_ask :: "order_book \<Rightarrow> book_level option" where
  "best_ask b =
     (if ob_state b \<noteq> Valid then None
      else case om_begin (ob_asks b) of None \<Rightarrow> None
         | Some (price, quantity) \<Rightarrow> Some \<lparr>lv_side = Ask, lv_price = price, lv_quantity = quantity\<rparr>)"

definition has_two_sided_market :: "order_book \<Rightarrow> bool" where
  "has_two_sided_market b \<longleftrightarrow> ob_state b = Valid \<and> ob_bids b \<noteq> [] \<and> ob_asks b \<noteq> []"

section \<open>The abstract book\<close>

text \<open>
  The contract of \<open>market_event.hpp\<close>: a book is a quantity per side and price; a positive
  quantity replaces the level, zero deletes it.
\<close>

type_synonym abstract_book = "side \<Rightarrow> price_ticks \<Rightarrow> quantity_atoms option"

definition set_level :: "book_level \<Rightarrow> abstract_book \<Rightarrow> abstract_book" where
  "set_level l f = f(lv_side l := (f (lv_side l))(lv_price l :=
     (if lv_quantity l = 0 then None else Some (lv_quantity l))))"

fun side_levels :: "order_book \<Rightarrow> side \<Rightarrow> levels" where
  "side_levels b Bid = ob_bids b"
| "side_levels b Ask = ob_asks b"

definition book_abs :: "order_book \<Rightarrow> abstract_book" where
  "book_abs b s p = om_find p (side_levels b s)"

fun side_lt :: "side \<Rightarrow> price_ticks \<Rightarrow> price_ticks \<Rightarrow> bool" where
  "side_lt Bid = bid_lt"
| "side_lt Ask = ask_lt"

text \<open>The representation invariant: both sides sorted, every price and quantity positive.\<close>

definition book_sorted :: "order_book \<Rightarrow> bool" where
  "book_sorted b \<longleftrightarrow> om_sorted bid_lt (ob_bids b) \<and> om_sorted ask_lt (ob_asks b)"

definition book_positive :: "order_book \<Rightarrow> bool" where
  "book_positive b \<longleftrightarrow> (\<forall>s p q. book_abs b s p = Some q \<longrightarrow> 0 < p \<and> 0 < q)"

definition book_inv :: "order_book \<Rightarrow> bool" where
  "book_inv b \<longleftrightarrow> book_sorted b \<and> book_positive b"

lemma book_ext:
  assumes "book_sorted b" and "book_sorted b'" and "book_abs b = book_abs b'"
  shows "ob_bids b = ob_bids b' \<and> ob_asks b = ob_asks b'"
proof -
  have "om_find p (side_levels b s) = om_find p (side_levels b' s)" for s p
    using assms(3) by (metis book_abs_def)
  from this [of _ Bid] this [of _ Ask] show ?thesis
    using assms(1,2) descending.om_sorted_ext [of "ob_bids b" "ob_bids b'"]
      ascending.om_sorted_ext [of "ob_asks b" "ob_asks b'"]
    by (simp add: book_sorted_def)
qed

section \<open>Committing overlays the staged changes\<close>

text \<open>What a change map does to a side: tombstones delete, other entries replace.\<close>

definition overlay :: "(price_ticks \<Rightarrow> quantity_atoms option) \<Rightarrow> (price_ticks \<Rightarrow> quantity_atoms option) \<Rightarrow>
    price_ticks \<Rightarrow> quantity_atoms option" where
  "overlay l c = (\<lambda>p. case c p of None \<Rightarrow> l p | Some q \<Rightarrow> if q = 0 then None else Some q)"

lemma overlay_empty [simp]: "overlay l (\<lambda>_. None) = l"
  by (simp add: overlay_def)

lemma overlay_upd:
  "overlay l (c(p := Some q)) = (overlay l c)(p := if q = 0 then None else Some q)"
  by (auto simp: overlay_def)

text \<open>One side's share of a change, and the staging of one side alone.\<close>

definition side_set :: "side \<Rightarrow> book_level \<Rightarrow> (price_ticks \<Rightarrow> quantity_atoms option) \<Rightarrow>
    price_ticks \<Rightarrow> quantity_atoms option" where
  "side_set s l f = (if lv_side l = s
     then f(lv_price l := if lv_quantity l = 0 then None else Some (lv_quantity l)) else f)"

definition stage_side :: "(price_ticks \<Rightarrow> price_ticks \<Rightarrow> bool) \<Rightarrow> side \<Rightarrow> book_level list \<Rightarrow> levels \<Rightarrow> levels" where
  "stage_side lt s = fold (\<lambda>l m. if lv_side l = s
     then om_insert_or_assign lt (lv_price l) (lv_quantity l) m else m)"

lemma stage_side_simps [simp]:
  "stage_side lt s [] m = m"
  "stage_side lt s (l # ls) m = stage_side lt s ls
     (if lv_side l = s then om_insert_or_assign lt (lv_price l) (lv_quantity l) m else m)"
  by (simp_all add: stage_side_def)

lemma stage_side_append: "stage_side lt s (xs @ ys) m = stage_side lt s ys (stage_side lt s xs m)"
  by (simp add: stage_side_def)

lemma stage_changes_eq:
  "stage_changes chs bids asks =
     (if list_all (\<lambda>c. valid_level c False) chs
      then Some (stage_side bid_lt Bid chs bids, stage_side ask_lt Ask chs asks) else None)"
proof (induction chs arbitrary: bids asks)
  case Nil
  then show ?case by simp
next
  case (Cons c chs)
  then show ?case by (cases "lv_side c") auto
qed

text \<open>The contract of a price comparator: a key order on prices.\<close>

locale price_order = key_order lt for lt :: "price_ticks \<Rightarrow> price_ticks \<Rightarrow> bool"
begin

lemma sorted_stage_side: "om_sorted lt m \<Longrightarrow> om_sorted lt (stage_side lt s chs m)"
  by (induction chs arbitrary: m) (simp_all add: sorted_insert)

lemma overlay_stage_side:
  "overlay l (\<lambda>p. om_find p (stage_side lt s chs m)) =
     fold (side_set s) chs (overlay l (\<lambda>p. om_find p m))"
proof (induction chs arbitrary: m)
  case Nil
  then show ?case by simp
next
  case (Cons c chs)
  let ?m = "if lv_side c = s then om_insert_or_assign lt (lv_price c) (lv_quantity c) m else m"
  have "overlay l (\<lambda>p. om_find p ?m) = side_set s c (overlay l (\<lambda>p. om_find p m))"
    by (auto simp: find_insert overlay_def side_set_def)
  then show ?case using Cons.IH [of ?m] by simp
qed

lemma sorted_commit: "om_sorted lt m \<Longrightarrow> om_sorted lt (commit_changes lt m cs)"
  by (induction cs arbitrary: m) (auto simp: sorted_insert om_sorted_erase Let_def)

lemma find_commit:
  assumes "distinct (map fst cs)"
  shows "(\<lambda>p. om_find p (commit_changes lt m cs)) = overlay (\<lambda>p. om_find p m) (\<lambda>p. om_find p cs)"
  using assms
proof (induction cs arbitrary: m)
  case Nil
  then show ?case by (simp add: overlay_def om_find_def)
next
  case (Cons kq cs)
  obtain k q where kq: "kq = (k, q)" by (cases kq)
  let ?m = "if q = 0 then (if om_find k m \<noteq> None then om_erase k m else m) else om_insert_or_assign lt k q m"
  have m: "(\<lambda>p. om_find p ?m) = (\<lambda>p. om_find p m)(k := if q = 0 then None else Some q)"
    by (auto simp: find_insert om_find_erase)
  have "om_find k cs = None" using Cons.prems by (simp add: kq om_find_def map_of_eq_None_iff)
  then have "overlay (\<lambda>p. om_find p ?m) (\<lambda>p. om_find p cs) = overlay (\<lambda>p. om_find p m) (\<lambda>p. om_find p (kq # cs))"
    unfolding m by (auto simp: overlay_def kq om_find_def fun_eq_iff split: option.split)
  then show ?case using Cons.IH [of ?m] Cons.prems by (simp add: kq Let_def cong: if_cong)
qed

lemma find_commit_stage:
  "(\<lambda>p. om_find p (commit_changes lt m (stage_side lt s chs []))) =
     fold (side_set s) chs (\<lambda>p. om_find p m)"
proof -
  have "om_sorted lt (stage_side lt s chs [])" by (rule sorted_stage_side) simp
  then have "distinct (map fst (stage_side lt s chs []))" by (rule om_sorted_distinct)
  then show ?thesis
    by (simp add: find_commit overlay_stage_side) (simp add: om_find_def)
qed

end

interpretation bid_side: price_order std_greater
  by unfold_locales

interpretation ask_side: price_order std_less
  by unfold_locales

lemma fold_set_level: "fold set_level chs f s = fold (side_set s) chs (f s)"
  by (induction chs arbitrary: f) (auto simp: set_level_def side_set_def)

text \<open>The result of committing staged changes, in terms of the abstract book.\<close>

definition commit_book :: "order_book \<Rightarrow> book_level list \<Rightarrow> uint64 option \<Rightarrow> order_book" where
  "commit_book b chs sq = b\<lparr>ob_bids := commit_changes bid_lt (ob_bids b) (stage_side bid_lt Bid chs []),
     ob_asks := commit_changes ask_lt (ob_asks b) (stage_side ask_lt Ask chs []),
     ob_last_sequence := sq\<rparr>"

lemma commit_book_frame [simp]:
  "ob_venue (commit_book b chs sq) = ob_venue b"
  "ob_instrument (commit_book b chs sq) = ob_instrument b"
  "ob_state (commit_book b chs sq) = ob_state b"
  "ob_last_sequence (commit_book b chs sq) = sq"
  by (simp_all add: commit_book_def)

lemma book_abs_commit: "book_abs (commit_book b chs sq) = fold set_level chs (book_abs b)"
proof
  fix s
  show "book_abs (commit_book b chs sq) s = fold set_level chs (book_abs b) s"
    unfolding fold_set_level book_abs_def
    by (cases s) (simp_all add: commit_book_def bid_side.find_commit_stage ask_side.find_commit_stage)
qed

lemma book_sorted_commit: "book_sorted b \<Longrightarrow> book_sorted (commit_book b chs sq)"
  by (simp add: book_sorted_def commit_book_def bid_side.sorted_commit ask_side.sorted_commit)

definition update_accepted :: "book_update \<Rightarrow> order_book \<Rightarrow> bool" where
  "update_accepted u b \<longleftrightarrow> ob_state b = Valid \<and> up_venue u = ob_venue b \<and> up_instrument u = ob_instrument b \<and>
     list_all (\<lambda>c. valid_level c False) (up_changes u)"

lemma apply_update_eq:
  "apply_update u b =
     (if update_accepted u b then (True, commit_book b (up_changes u) (up_sequence u)) else (False, b))"
  by (auto simp: apply_update_def update_accepted_def stage_update_def stage_changes_eq commit_book_def)

section \<open>An envelope of updates is its updates one after the other\<close>

fun event_changes :: "market_event \<Rightarrow> book_level list" where
  "event_changes (BookSnapshot s) = sn_levels s"
| "event_changes (BookUpdate u) = up_changes u"

fun update_fits :: "venue \<Rightarrow> instrument \<Rightarrow> market_event \<Rightarrow> bool" where
  "update_fits v i (BookUpdate u) \<longleftrightarrow> up_venue u = v \<and> up_instrument u = i \<and>
     list_all (\<lambda>c. valid_level c False) (up_changes u)"
| "update_fits v i (BookSnapshot s) \<longleftrightarrow> False"

lemma stage_events_eq:
  "\<not> list_ex is_snapshot es \<Longrightarrow> stage_events es v i bids asks =
     (if list_all (update_fits v i) es
      then Some (stage_side bid_lt Bid (concat (map event_changes es)) bids,
                 stage_side ask_lt Ask (concat (map event_changes es)) asks)
      else None)"
proof (induction es v i bids asks rule: stage_events.induct)
  case (2 u es v i bids asks)
  then show ?case
    by (auto simp: stage_update_def stage_changes_eq stage_side_append)
qed auto

lemma book_eqI:
  fixes b b' :: order_book
  assumes "ob_venue b = ob_venue b'" and "ob_instrument b = ob_instrument b'"
    and "ob_state b = ob_state b'" and "ob_last_sequence b = ob_last_sequence b'"
    and "book_sorted b" and "book_sorted b'" and "book_abs b = book_abs b'"
  shows "b = b'"
  using assms book_ext [OF assms(5-7)] by (intro order_book.equality) simp_all

lemma commit_book_append:
  assumes "book_sorted b"
  shows "commit_book (commit_book b xs sq) ys sq' = commit_book b (xs @ ys) sq'"
  using assms by (intro book_eqI) (simp_all add: book_sorted_commit book_abs_commit)

lemma apply_each_updates:
  assumes "\<not> list_ex is_snapshot es" and "es \<noteq> []" and "ob_state b = Valid" and "book_sorted b"
  shows "if list_all (update_fits (ob_venue b) (ob_instrument b)) es
    then apply_each es b =
      (True, commit_book b (concat (map event_changes es)) (event_sequence (last es)))
    else \<not> fst (apply_each es b)"
  using assms
proof (induction es arbitrary: b)
  case Nil
  then show ?case by simp
next
  case (Cons e es)
  then obtain u where e: "e = BookUpdate u" by (cases e) auto
  let ?b = "commit_book b (up_changes u) (up_sequence u)"
  show ?case
  proof (cases "update_fits (ob_venue b) (ob_instrument b) e")
    case fits: True
    then have step: "apply_event e b = (True, ?b)"
      using Cons.prems by (simp add: e apply_update_eq update_accepted_def)
    show ?thesis
    proof (cases "es = []")
      case True
      then show ?thesis using step fits by (simp add: e)
    next
      case False
      then show ?thesis
        using Cons.IH [of ?b] Cons.prems step fits
        by (simp add: e book_sorted_commit commit_book_append)
    qed
  next
    case False
    then show ?thesis by (auto simp: e apply_update_eq update_accepted_def)
  qed
qed

lemma apply_each_needs_valid:
  assumes "\<not> list_ex is_snapshot es" and "es \<noteq> []" and "ob_state b \<noteq> Valid"
  shows "\<not> fst (apply_each es b)"
proof -
  obtain e es' where "es = e # es'" using assms(2) by (cases es) auto
  moreover then obtain u where "e = BookUpdate u" using assms(1) by (cases e) auto
  ultimately show ?thesis using assms(3) by (simp add: apply_update_eq update_accepted_def)
qed

lemma apply_events_eq:
  assumes "book_sorted b"
  shows "apply_events es b = (if fst (apply_each es b) then apply_each es b else (False, b))"
proof (cases "es = [] \<or> list_ex is_snapshot es \<or> ob_state b \<noteq> Valid")
  case True
  then show ?thesis
    using apply_each_needs_valid [of es b]
    by (auto simp: apply_events_def split: prod.split)
next
  case False
  then show ?thesis
    using apply_each_updates [of es b] assms
    by (auto simp: apply_events_def stage_events_eq commit_book_def split: if_splits)
qed

section \<open>Snapshots\<close>

definition level_key :: "book_level \<Rightarrow> side \<times> price_ticks" where
  "level_key l = (lv_side l, lv_price l)"

definition staged_find :: "levels \<Rightarrow> levels \<Rightarrow> book_level \<Rightarrow> quantity_atoms option" where
  "staged_find bids asks l = om_find (lv_price l) (case lv_side l of Bid \<Rightarrow> bids | Ask \<Rightarrow> asks)"

lemma staged_find_insert:
  "staged_find (om_insert_or_assign bid_lt p q bids) asks x =
     (if level_key x = (Bid, p) then Some q else staged_find bids asks x)"
  "staged_find bids (om_insert_or_assign ask_lt p q asks) x =
     (if level_key x = (Ask, p) then Some q else staged_find bids asks x)"
  by (auto simp: staged_find_def level_key_def descending.find_insert ascending.find_insert
      split: side.split)

lemma list_all_fresh:
  "list_all (\<lambda>x. (if k x = c then Some q else g x) = None) ls \<longleftrightarrow>
     c \<notin> k ` set ls \<and> list_all (\<lambda>x. g x = None) ls"
  by (auto simp: list_all_iff)

lemma snapshot_levels_eq:
  "snapshot_levels ls bids asks =
     (if list_all (\<lambda>l. valid_level l True) ls \<and> distinct (map level_key ls) \<and>
         list_all (\<lambda>l. staged_find bids asks l = None) ls
      then Some (stage_side bid_lt Bid ls bids, stage_side ask_lt Ask ls asks) else None)"
proof (induction ls arbitrary: bids asks)
  case Nil
  then show ?case by simp
next
  case (Cons l ls)
  show ?case
  proof (cases "lv_side l")
    case Bid
    then have "staged_find bids asks l = om_find (lv_price l) bids" and "level_key l = (Bid, lv_price l)"
      by (simp_all add: staged_find_def level_key_def)
    then show ?thesis using Bid
      by (simp add: Cons.IH om_emplace_def staged_find_insert list_all_fresh split: option.split)
  next
    case Ask
    then have "staged_find bids asks l = om_find (lv_price l) asks" and "level_key l = (Ask, lv_price l)"
      by (simp_all add: staged_find_def level_key_def)
    then show ?thesis using Ask
      by (simp add: Cons.IH om_emplace_def staged_find_insert list_all_fresh split: option.split)
  qed
qed

context price_order
begin

lemma find_stage_nonzero:
  "list_all (\<lambda>l. lv_quantity l \<noteq> 0) chs \<Longrightarrow>
     (\<lambda>p. om_find p (stage_side lt s chs m)) = fold (side_set s) chs (\<lambda>p. om_find p m)"
proof (induction chs arbitrary: m)
  case Nil
  then show ?case by simp
next
  case (Cons c chs)
  let ?m = "if lv_side c = s then om_insert_or_assign lt (lv_price c) (lv_quantity c) m else m"
  have "(\<lambda>p. om_find p ?m) = side_set s c (\<lambda>p. om_find p m)"
    using Cons.prems by (auto simp: find_insert side_set_def)
  then show ?case using Cons.IH [of ?m] Cons.prems by simp
qed

end

definition snapshot_fits :: "book_snapshot \<Rightarrow> order_book \<Rightarrow> bool" where
  "snapshot_fits sn b \<longleftrightarrow> sn_venue sn = ob_venue b \<and> sn_instrument sn = ob_instrument b \<and>
     list_all (\<lambda>l. valid_level l True) (sn_levels sn) \<and> distinct (map level_key (sn_levels sn))"

definition snapshot_book :: "book_snapshot \<Rightarrow> order_book \<Rightarrow> order_book" where
  "snapshot_book sn b = b\<lparr>ob_bids := stage_side bid_lt Bid (sn_levels sn) [],
     ob_asks := stage_side ask_lt Ask (sn_levels sn) [],
     ob_last_sequence := sn_sequence sn, ob_state := Valid\<rparr>"

lemma apply_snapshot_eq:
  "apply_snapshot sn b = (if snapshot_fits sn b then (True, snapshot_book sn b) else (False, b))"
proof -
  have "staged_find [] [] l = None" for l
    by (simp add: staged_find_def om_find_def split: side.split)
  then show ?thesis
    by (auto simp: apply_snapshot_def snapshot_levels_eq snapshot_fits_def snapshot_book_def list_all_iff)
qed

lemma book_sorted_snapshot: "book_sorted (snapshot_book sn b)"
  by (simp add: book_sorted_def snapshot_book_def bid_side.sorted_stage_side ask_side.sorted_stage_side)

lemma book_abs_snapshot:
  assumes "snapshot_fits sn b"
  shows "book_abs (snapshot_book sn b) = fold set_level (sn_levels sn) (\<lambda>_ _. None)"
proof
  fix s
  have nz: "list_all (\<lambda>l. lv_quantity l \<noteq> 0) (sn_levels sn)"
    using assms by (auto simp: snapshot_fits_def valid_level_def list_all_iff)
  have empty: "(\<lambda>p. om_find p []) = (\<lambda>_. None)" by (simp add: om_find_def)
  show "book_abs (snapshot_book sn b) s = fold set_level (sn_levels sn) (\<lambda>_ _. None) s"
    unfolding fold_set_level book_abs_def
    by (cases s) (simp_all add: snapshot_book_def empty bid_side.find_stage_nonzero [OF nz]
        ask_side.find_stage_nonzero [OF nz])
qed

lemma fold_set_level_distinct:
  assumes "distinct (map level_key ls)" and "list_all (\<lambda>l. lv_quantity l \<noteq> 0) ls"
  shows "fold set_level ls f s p =
    (case map_of (map (\<lambda>l. (level_key l, lv_quantity l)) ls) (s, p) of None \<Rightarrow> f s p | Some q \<Rightarrow> Some q)"
  using assms
proof (induction ls arbitrary: f)
  case Nil
  then show ?case by simp
next
  case (Cons l ls)
  have "map_of (map (\<lambda>l. (level_key l, lv_quantity l)) ls) (level_key l) = None"
    using Cons.prems by (auto simp: map_of_eq_None_iff)
  then show ?case
    using Cons.IH [of "set_level l f"] Cons.prems
    by (auto simp: set_level_def level_key_def split: option.split)
qed

section \<open>The representation invariant\<close>

lemma book_positive_fold:
  assumes "\<forall>s p q. f s p = Some q \<longrightarrow> 0 < p \<and> 0 < q" and "list_all (\<lambda>c. valid_level c False) chs"
  shows "\<forall>s p q. fold set_level chs f s p = Some q \<longrightarrow> 0 < p \<and> 0 < q"
  using assms
proof (induction chs arbitrary: f)
  case Nil
  then show ?case by simp
next
  case (Cons c chs)
  have step: "\<forall>s p q. set_level c f s p = Some q \<longrightarrow> 0 < p \<and> 0 < q"
    using Cons.prems by (auto simp: set_level_def valid_level_def split: if_splits)
  have rest: "list_all (\<lambda>c. valid_level c False) chs" using Cons.prems(2) by simp
  show ?case using Cons.IH [OF step rest] by simp
qed

lemma valid_snapshot_level: "valid_level l True \<Longrightarrow> valid_level l False"
  by (auto simp: valid_level_def)

lemma book_inv_new [simp]: "book_inv (OrderBook v i)"
proof -
  have "side_levels (OrderBook v i) s = []" for s by (cases s) (simp_all add: OrderBook_def)
  then show ?thesis
    by (simp add: book_inv_def book_sorted_def book_positive_def book_abs_def om_find_def) (simp add: OrderBook_def)
qed

lemma book_inv_commit:
  assumes "book_inv b" and "list_all (\<lambda>c. valid_level c False) chs"
  shows "book_inv (commit_book b chs sq)"
proof -
  have pos: "\<forall>s p q. book_abs b s p = Some q \<longrightarrow> 0 < p \<and> 0 < q"
    using assms(1) unfolding book_inv_def book_positive_def by blast
  have "book_positive (commit_book b chs sq)"
    unfolding book_positive_def book_abs_commit by (rule book_positive_fold [OF pos assms(2)])
  then show ?thesis using assms(1) by (simp only: book_inv_def book_sorted_commit)
qed

lemma book_inv_snapshot:
  assumes "snapshot_fits sn b"
  shows "book_inv (snapshot_book sn b)"
proof -
  have valid: "list_all (\<lambda>c. valid_level c False) (sn_levels sn)"
    using assms by (auto simp: snapshot_fits_def list_all_iff valid_snapshot_level)
  have "book_positive (snapshot_book sn b)"
    unfolding book_positive_def book_abs_snapshot [OF assms]
    by (rule book_positive_fold [OF _ valid]) simp
  then show ?thesis by (simp only: book_inv_def book_sorted_snapshot)
qed

lemma book_inv_apply_event: "book_inv b \<Longrightarrow> book_inv (snd (apply_event e b))"
  by (cases e) (auto simp: apply_update_eq update_accepted_def apply_snapshot_eq book_inv_commit book_inv_snapshot)

lemma book_inv_apply_each: "book_inv b \<Longrightarrow> book_inv (snd (apply_each es b))"
proof (induction es arbitrary: b)
  case Nil
  then show ?case by simp
next
  case (Cons e es)
  then show ?case using book_inv_apply_event [of b e] by (auto split: prod.split)
qed

lemma book_inv_apply_events: "book_inv b \<Longrightarrow> book_inv (snd (apply_events es b))"
  using book_inv_apply_each [of b es] by (simp add: apply_events_eq book_inv_def)

lemma book_inv_state [simp]: "book_inv (b\<lparr>ob_state := st\<rparr>) = book_inv b"
proof -
  have "side_levels (b\<lparr>ob_state := st\<rparr>) s = side_levels b s" for s by (cases s) simp_all
  then show ?thesis by (simp add: book_inv_def book_sorted_def book_positive_def book_abs_def)
qed

lemma book_inv_marks [simp]:
  "book_inv (mark_initializing b) = book_inv b" "book_inv (mark_stale b) = book_inv b"
  "book_inv (mark_resyncing b) = book_inv b" "book_inv (mark_disconnected b) = book_inv b"
  "book_inv (invalidate b) = book_inv b"
  by (simp_all add: mark_defs)

text \<open>Every book the class's operations can produce.\<close>

inductive book_reachable :: "order_book \<Rightarrow> bool" where
  constructed: "book_reachable (OrderBook v i)"
| snapshot: "book_reachable b \<Longrightarrow> book_reachable (snd (apply_snapshot sn b))"
| update: "book_reachable b \<Longrightarrow> book_reachable (snd (apply_update u b))"
| events: "book_reachable b \<Longrightarrow> book_reachable (snd (apply_events es b))"
| marked: "book_reachable b \<Longrightarrow>
    b' \<in> {mark_initializing b, mark_stale b, mark_resyncing b, mark_disconnected b, invalidate b} \<Longrightarrow>
    book_reachable b'"

lemma book_reachable_inv: "book_reachable b \<Longrightarrow> book_inv b"
proof (induction rule: book_reachable.induct)
  case (snapshot b sn)
  then show ?case using book_inv_apply_event [of b "BookSnapshot sn"] by simp
next
  case (update b u)
  then show ?case using book_inv_apply_event [of b "BookUpdate u"] by simp
next
  case (events b es)
  then show ?case by (simp add: book_inv_apply_events)
qed auto

section \<open>Best prices\<close>

lemma om_begin_None: "om_begin m = None \<longleftrightarrow> (\<forall>p. om_find p m = None)"
proof (cases m)
  case Nil
  then show ?thesis by (simp add: om_begin_def om_find_def)
next
  case (Cons kv m')
  then have "om_find (fst kv) m \<noteq> None" by (cases kv) (simp add: om_find_def)
  then show ?thesis using Cons by (auto simp: om_begin_def)
qed

text \<open>What the head of one side is: the level that no other level of the side precedes.\<close>

definition is_best :: "order_book \<Rightarrow> side \<Rightarrow> book_level option \<Rightarrow> bool" where
  "is_best b s r \<longleftrightarrow>
     (case r of
        None \<Rightarrow> \<forall>p. book_abs b s p = None
      | Some l \<Rightarrow> lv_side l = s \<and> 0 < lv_price l \<and> 0 < lv_quantity l \<and>
          book_abs b s (lv_price l) = Some (lv_quantity l) \<and>
          (\<forall>p. book_abs b s p \<noteq> None \<longrightarrow> p = lv_price l \<or> side_lt s (lv_price l) p))"

lemma book_inv_positive: "book_inv b \<Longrightarrow> book_abs b s p = Some q \<Longrightarrow> 0 < p \<and> 0 < q"
  unfolding book_inv_def book_positive_def by blast

lemma is_best_bid:
  assumes "book_inv b" and "ob_state b = Valid"
  shows "is_best b Bid (best_bid b)"
proof (cases "om_begin (ob_bids b)")
  case None
  then have "\<forall>p. om_find p (ob_bids b) = None" by (rule om_begin_None [THEN iffD1])
  then show ?thesis using assms(2) None by (simp add: is_best_def best_bid_def book_abs_def)
next
  case (Some pq)
  obtain p q where pq: "pq = (p, q)" by (cases pq)
  have "om_sorted bid_lt (ob_bids b)" using assms(1) by (simp add: book_inv_def book_sorted_def)
  then have "p' = p \<or> bid_lt p p'" if "om_find p' (ob_bids b) \<noteq> None" for p'
    using descending.om_begin_least Some that by (simp add: pq)
  moreover have find: "book_abs b Bid p = Some q"
    using descending.om_begin_find Some by (simp add: pq book_abs_def)
  ultimately show ?thesis
    using assms(2) Some book_inv_positive [OF assms(1) find]
    by (simp add: is_best_def best_bid_def pq) (simp add: book_abs_def)
qed

lemma is_best_ask:
  assumes "book_inv b" and "ob_state b = Valid"
  shows "is_best b Ask (best_ask b)"
proof (cases "om_begin (ob_asks b)")
  case None
  then have "\<forall>p. om_find p (ob_asks b) = None" by (rule om_begin_None [THEN iffD1])
  then show ?thesis using assms(2) None by (simp add: is_best_def best_ask_def book_abs_def)
next
  case (Some pq)
  obtain p q where pq: "pq = (p, q)" by (cases pq)
  have "om_sorted ask_lt (ob_asks b)" using assms(1) by (simp add: book_inv_def book_sorted_def)
  then have "p' = p \<or> ask_lt p p'" if "om_find p' (ob_asks b) \<noteq> None" for p'
    using ascending.om_begin_least Some that by (simp add: pq)
  moreover have find: "book_abs b Ask p = Some q"
    using ascending.om_begin_find Some by (simp add: pq book_abs_def)
  ultimately show ?thesis
    using assms(2) Some book_inv_positive [OF assms(1) find]
    by (simp add: is_best_def best_ask_def pq) (simp add: book_abs_def)
qed

lemma is_best_bid_iff:
  "is_best b Bid (Some l) \<longleftrightarrow> lv_side l = Bid \<and> 0 < lv_price l \<and> 0 < lv_quantity l \<and>
     book_abs b Bid (lv_price l) = Some (lv_quantity l) \<and>
     (\<forall>p. book_abs b Bid p \<noteq> None \<longrightarrow> p \<le> lv_price l)"
  by (auto simp: is_best_def std_greater_def)

lemma is_best_ask_iff:
  "is_best b Ask (Some l) \<longleftrightarrow> lv_side l = Ask \<and> 0 < lv_price l \<and> 0 < lv_quantity l \<and>
     book_abs b Ask (lv_price l) = Some (lv_quantity l) \<and>
     (\<forall>p. book_abs b Ask p \<noteq> None \<longrightarrow> lv_price l \<le> p)"
  by (auto simp: is_best_def std_less_def)

section \<open>Properties\<close>

text \<open>A small book used by the witnesses: bids at 100 and 99, an ask at 102.\<close>

definition sample_level :: "side \<Rightarrow> int \<Rightarrow> int \<Rightarrow> book_level" where
  "sample_level s p q = \<lparr>lv_side = s, lv_price = p, lv_quantity = q\<rparr>"

definition sample_snapshot :: book_snapshot where
  "sample_snapshot = \<lparr>sn_venue = Coinbase, sn_instrument = BTC_USD,
     sn_levels = [sample_level Bid 99 7, sample_level Bid 100 5, sample_level Ask 102 4],
     sn_exchange_time = 0, sn_receive_wall_time = 0, sn_receive_monotonic_time = 0,
     sn_sequence = Some 10\<rparr>"

definition sample_update :: "book_level list \<Rightarrow> uint64 \<Rightarrow> book_update" where
  "sample_update chs sq = \<lparr>up_venue = Coinbase, up_instrument = BTC_USD, up_changes = chs,
     up_exchange_time = 0, up_receive_wall_time = 0, up_receive_monotonic_time = 0,
     up_sequence = Some sq\<rparr>"

definition sample_book :: order_book where
  "sample_book = snd (apply_snapshot sample_snapshot (OrderBook Coinbase BTC_USD))"

lemmas sample_defs = sample_level_def sample_snapshot_def sample_update_def

lemma sample_book_reachable: "book_reachable sample_book"
  unfolding sample_book_def by (intro book_reachable.intros)

lemma sample_book_eq:
  "sample_book = \<lparr>ob_venue = Coinbase, ob_instrument = BTC_USD, ob_state = Valid,
     ob_bids = [(100, 5), (99, 7)], ob_asks = [(102, 4)], ob_last_sequence = Some 10\<rparr>"
  unfolding sample_book_def by code_simp

text \<open>C13. Applying an envelope of events is applying its events one after the other and
  committing only if none is rejected: the staged fast path for pure updates (one change
  map for the whole envelope, then one commit) gives the same book, and on any rejection
  the book is returned untouched.\<close>

theorem apply_events_sequential:
  assumes "book_reachable b"
  shows "apply_events es b =
    (case apply_each es b of (ok, b') \<Rightarrow> if ok then (True, b') else (False, b))"
proof -
  have "book_sorted b" using book_reachable_inv [OF assms] by (simp add: book_inv_def)
  then show ?thesis by (simp add: apply_events_eq split: prod.split)
qed

theorem apply_events_sequential_witness:
  "apply_events [BookUpdate (sample_update [sample_level Bid 100 0, sample_level Ask 101 3] 11),
       BookUpdate (sample_update [sample_level Bid 100 9, sample_level Ask 101 0] 12)] sample_book =
     (True, sample_book\<lparr>ob_bids := [(100, 9), (99, 7)], ob_asks := [(102, 4)], ob_last_sequence := Some 12\<rparr>)"
  unfolding apply_events_sequential [OF sample_book_reachable]
  unfolding sample_book_eq by code_simp

text \<open>C14. Applying an update implements the documented contract: it is accepted exactly
  when the book is Valid, venue and instrument match and every change has a positive price
  and a nonnegative quantity; then each change in order replaces its level, or deletes it
  when the quantity is zero, and nothing else changes but the sequence.\<close>

theorem apply_update_refines:
  "(fst (apply_update u b) \<longleftrightarrow> update_accepted u b) \<and>
   (update_accepted u b \<longrightarrow>
      book_abs (snd (apply_update u b)) = fold set_level (up_changes u) (book_abs b) \<and>
      ob_state (snd (apply_update u b)) = Valid \<and>
      ob_last_sequence (snd (apply_update u b)) = up_sequence u) \<and>
   (\<not> update_accepted u b \<longrightarrow> snd (apply_update u b) = b)"
  by (auto simp: apply_update_eq book_abs_commit update_accepted_def)

theorem apply_update_refines_witness:
  "update_accepted (sample_update [sample_level Bid 100 0] 11) sample_book \<and>
   book_abs (snd (apply_update (sample_update [sample_level Bid 100 0] 11) sample_book)) Bid 100 = None \<and>
   \<not> update_accepted (sample_update [sample_level Bid 0 1] 11) sample_book \<and>
   snd (apply_update (sample_update [sample_level Bid 0 1] 11) sample_book) = sample_book"
proof -
  have acc: "update_accepted (sample_update [sample_level Bid 100 0] 11) sample_book"
    and rej: "\<not> update_accepted (sample_update [sample_level Bid 0 1] 11) sample_book"
    unfolding sample_book_eq by (simp_all add: update_accepted_def sample_defs valid_level_def)
  have "book_abs (snd (apply_update (sample_update [sample_level Bid 100 0] 11) sample_book)) Bid 100 = None"
    using apply_update_refines [of "sample_update [sample_level Bid 100 0] 11" sample_book] acc
    by (simp add: sample_defs set_level_def)
  then show ?thesis
    using acc rej apply_update_refines [of "sample_update [sample_level Bid 0 1] 11" sample_book] by simp
qed

text \<open>C16. A snapshot is accepted in any state, exactly when venue and instrument match,
  every level has positive price and quantity and no side and price occurs twice. It
  replaces the whole book by its levels and makes it Valid; otherwise nothing changes.\<close>

theorem apply_snapshot_replaces:
  "apply_snapshot sn b =
     (if snapshot_fits sn b then (True, snapshot_book sn b) else (False, b)) \<and>
   (snapshot_fits sn b \<longrightarrow>
      ob_state (snapshot_book sn b) = Valid \<and> ob_last_sequence (snapshot_book sn b) = sn_sequence sn \<and>
      (\<forall>s p. book_abs (snapshot_book sn b) s p =
         map_of (map (\<lambda>l. (level_key l, lv_quantity l)) (sn_levels sn)) (s, p)))"
proof -
  have "list_all (\<lambda>l. lv_quantity l \<noteq> 0) (sn_levels sn)" if "snapshot_fits sn b"
    using that by (auto simp: snapshot_fits_def valid_level_def list_all_iff)
  then show ?thesis
    by (auto simp: apply_snapshot_eq book_abs_snapshot fold_set_level_distinct snapshot_fits_def
        split: option.split) (simp_all add: snapshot_book_def)
qed

theorem apply_snapshot_replaces_witness:
  "snapshot_fits sample_snapshot (OrderBook Coinbase BTC_USD) \<and>
   book_abs (snapshot_book sample_snapshot (OrderBook Coinbase BTC_USD)) Bid 99 = Some 7"
proof -
  have fits: "snapshot_fits sample_snapshot (OrderBook Coinbase BTC_USD)"
    by (simp add: snapshot_fits_def sample_defs OrderBook_def valid_level_def level_key_def)
  then show ?thesis
    using apply_snapshot_replaces [of sample_snapshot "OrderBook Coinbase BTC_USD"]
    by (simp add: sample_defs level_key_def)
qed

text \<open>C17. In every book the operations can produce, a book that is not Valid exposes no
  best prices, and a Valid one exposes exactly the highest bid and the lowest ask, with
  their positive prices and quantities, or none when the side is empty.\<close>

theorem best_prices_correct:
  assumes "book_reachable b"
  shows "if ob_state b = Valid
    then (case best_bid b of None \<Rightarrow> \<forall>p. book_abs b Bid p = None
          | Some l \<Rightarrow> 0 < lv_price l \<and> 0 < lv_quantity l \<and>
              book_abs b Bid (lv_price l) = Some (lv_quantity l) \<and>
              (\<forall>p. book_abs b Bid p \<noteq> None \<longrightarrow> p \<le> lv_price l)) \<and>
         (case best_ask b of None \<Rightarrow> \<forall>p. book_abs b Ask p = None
          | Some l \<Rightarrow> 0 < lv_price l \<and> 0 < lv_quantity l \<and>
              book_abs b Ask (lv_price l) = Some (lv_quantity l) \<and>
              (\<forall>p. book_abs b Ask p \<noteq> None \<longrightarrow> lv_price l \<le> p))
    else best_bid b = None \<and> best_ask b = None"
proof (cases "ob_state b = Valid")
  case True
  have "book_inv b" using assms by (rule book_reachable_inv)
  then have "is_best b Bid (best_bid b)" and "is_best b Ask (best_ask b)"
    using True is_best_bid is_best_ask by simp_all
  then show ?thesis using True
    by (cases "best_bid b"; cases "best_ask b")
      (simp_all add: is_best_bid_iff is_best_ask_iff, simp_all add: is_best_def)
next
  case False
  then show ?thesis by (simp add: best_bid_def best_ask_def)
qed

theorem best_prices_correct_witness:
  "best_bid sample_book = Some (sample_level Bid 100 5) \<and>
   \<not> (\<exists>p. book_abs sample_book Bid p \<noteq> None \<and> 100 < p)"
proof -
  have "ob_state sample_book = Valid" and best: "best_bid sample_book = Some (sample_level Bid 100 5)"
    unfolding sample_book_eq by (simp_all add: best_bid_def om_begin_def sample_level_def)
  then show ?thesis
    using best_prices_correct [OF sample_book_reachable] by (auto simp: sample_level_def)
qed

end
