(* ===== verification/Json.thy ===== *)
theory Json
  imports OrderedMap
begin

text \<open>
  The JSON value of \<open>third_party/nlohmann/json.hpp\<close> and the accessors the program uses.
  An object is a \<open>std::map\<close> from byte strings, kept in the order of \<open>std::less\<close>; the two
  integer alternatives are kept apart as the library keeps them (unsigned 64 bit, signed
  64 bit), and a floating point number is the exact value of an IEEE double.
\<close>

section \<open>Byte strings as keys\<close>

text \<open>\<open>std::string\<close> compares lexicographically by unsigned byte.\<close>

fun str_less :: "string \<Rightarrow> string \<Rightarrow> bool" where
  "str_less [] [] = False"
| "str_less [] (y # ys) = True"
| "str_less (x # xs) [] = False"
| "str_less (x # xs) (y # ys) =
     (if (of_char x :: nat) < of_char y then True
      else if (of_char y :: nat) < of_char x then False
      else str_less xs ys)"

lemma str_less_irrefl: "\<not> str_less a a"
  by (induction a) simp_all

lemma str_less_trans: "str_less a b \<Longrightarrow> str_less b c \<Longrightarrow> str_less a c"
proof (induction a arbitrary: b c)
  case Nil
  then show ?case by (cases b; cases c) simp_all
next
  case (Cons x xs)
  then show ?case by (cases b; cases c) (auto split: if_splits)
qed

lemma str_less_total: "str_less a b \<or> a = b \<or> str_less b a"
proof (induction a arbitrary: b)
  case Nil
  then show ?case by (cases b) simp_all
next
  case (Cons x xs)
  show ?case
  proof (cases b)
    case Nil
    then show ?thesis by simp
  next
    case (Cons y ys)
    have "x = y" if "(of_char x :: nat) = of_char y" using that by simp
    then show ?thesis using Cons Cons.IH [of ys] by auto
  qed
qed

interpretation text_keys: key_order str_less
proof unfold_locales
  show "\<not> str_less a a" for a by (rule str_less_irrefl)
  show "str_less a c" if "str_less a b" "str_less b c" for a b c using that by (rule str_less_trans)
  show "str_less a b \<or> a = b \<or> str_less b a" for a b by (rule str_less_total)
qed

section \<open>Doubles\<close>

text \<open>
  A finite double is \<open>m * 2 ^ e\<close>, held as the pair \<open>(m, e)\<close> with \<open>m\<close> odd, or \<open>(0, 0)\<close>.
  \<open>round_to_double\<close> is the correctly rounded conversion (to nearest, ties to even) of the
  nonnegative fraction \<open>n / d\<close>; \<open>None\<close> is overflow to infinity.
\<close>

type_synonym double = "int \<times> int"

fun bit_length :: "nat \<Rightarrow> nat" where
  "bit_length n = (if n = 0 then 0 else Suc (bit_length (n div 2)))"

declare bit_length.simps [simp del]

fun odd_part :: "nat \<Rightarrow> int \<Rightarrow> nat \<times> int" where
  "odd_part m e = (if m = 0 then (0, 0) else if even m then odd_part (m div 2) (e + 1) else (m, e))"

declare odd_part.simps [simp del]

definition shift_fraction :: "nat \<Rightarrow> nat \<Rightarrow> int \<Rightarrow> nat \<times> nat" where
  "shift_fraction n d e = (if 0 \<le> e then (n, d * 2 ^ nat e) else (n * 2 ^ nat (- e), d))"

definition round_to_double :: "nat \<Rightarrow> nat \<Rightarrow> (nat \<times> int) option" where
  "round_to_double n d =
     (let e0 = int (bit_length n) - int (bit_length d) - 53;
          (n0, d0) = shift_fraction n d e0;
          e = max (- 1074) (if d0 * 2 ^ 53 \<le> n0 then e0 + 1 else e0);
          (n', d') = shift_fraction n d e;
          q = n' div d'; r = n' mod d';
          m = (if d' < 2 * r \<or> (d' = 2 * r \<and> odd q) then q + 1 else q)
      in if e \<ge> 972 \<or> (e = 971 \<and> 2 ^ 53 \<le> m) then None else Some (odd_part m e))"

text \<open>The cast of an integer to \<open>double\<close>.\<close>

definition double_of_int :: "int \<Rightarrow> double" where
  "double_of_int i =
     (case round_to_double (nat \<bar>i\<bar>) 1 of
        None \<Rightarrow> (0, 0)
      | Some (m, e) \<Rightarrow> (if i < 0 then - int m else int m, e))"

section \<open>Values\<close>

datatype json =
    JNull
  | JBool bool
  | JInt int
  | JUInt uint64
  | JFloat double
  | JString string
  | JArray "json list"
  | JObject "(string \<times> json) list"

text \<open>Comparison for equality, which converts between the number types.\<close>

fun json_eq :: "json \<Rightarrow> json \<Rightarrow> bool"
and json_eq_list :: "json list \<Rightarrow> json list \<Rightarrow> bool"
and json_eq_members :: "(string \<times> json) list \<Rightarrow> (string \<times> json) list \<Rightarrow> bool" where
  "json_eq (JArray xs) (JArray ys) = json_eq_list xs ys"
| "json_eq (JObject xs) (JObject ys) = json_eq_members xs ys"
| "json_eq JNull JNull = True"
| "json_eq (JString a) (JString b) = (a = b)"
| "json_eq (JBool a) (JBool b) = (a = b)"
| "json_eq (JInt a) (JInt b) = (a = b)"
| "json_eq (JUInt a) (JUInt b) = (a = b)"
| "json_eq (JFloat a) (JFloat b) = (a = b)"
| "json_eq (JInt a) (JFloat b) = (double_of_int a = b)"
| "json_eq (JFloat a) (JInt b) = (a = double_of_int b)"
| "json_eq (JUInt a) (JFloat b) = (double_of_int (uint a) = b)"
| "json_eq (JFloat a) (JUInt b) = (a = double_of_int (uint b))"
| "json_eq (JUInt a) (JInt b) = (sint a = b)"
| "json_eq (JInt a) (JUInt b) = (a = sint b)"
| "json_eq _ _ = False"
| "json_eq_list [] [] = True"
| "json_eq_list (x # xs) (y # ys) = (json_eq x y \<and> json_eq_list xs ys)"
| "json_eq_list _ _ = False"
| "json_eq_members [] [] = True"
| "json_eq_members ((k, x) # xs) ((l, y) # ys) = (k = l \<and> json_eq x y \<and> json_eq_members xs ys)"
| "json_eq_members _ _ = False"

fun is_object :: "json \<Rightarrow> bool" where
  "is_object (JObject _) = True"
| "is_object _ = False"

fun is_array :: "json \<Rightarrow> bool" where
  "is_array (JArray _) = True"
| "is_array _ = False"

fun is_string :: "json \<Rightarrow> bool" where
  "is_string (JString _) = True"
| "is_string _ = False"

fun is_number_unsigned :: "json \<Rightarrow> bool" where
  "is_number_unsigned (JUInt _) = True"
| "is_number_unsigned _ = False"

fun is_number_integer :: "json \<Rightarrow> bool" where
  "is_number_integer (JInt _) = True"
| "is_number_integer (JUInt _) = True"
| "is_number_integer _ = False"

section \<open>Access\<close>

fun json_find :: "string \<Rightarrow> json \<Rightarrow> json option" where
  "json_find key (JObject m) = om_find key m"
| "json_find key _ = None"

definition json_contains :: "json \<Rightarrow> string \<Rightarrow> bool" where
  "json_contains j key \<longleftrightarrow> is_object j \<and> json_find key j \<noteq> None"

definition json_at :: "json \<Rightarrow> string \<Rightarrow> json result" where
  "json_at j key =
     (if \<not> is_object j then Inl (JsonTypeError 304)
      else case json_find key j of None \<Rightarrow> Inl (JsonOutOfRange 403) | Some v \<Rightarrow> Inr v)"

text \<open>\<open>operator[]\<close> used as the target of an assignment.\<close>

fun json_set :: "string \<Rightarrow> json \<Rightarrow> json \<Rightarrow> json result" where
  "json_set key v JNull = Inr (JObject [(key, v)])"
| "json_set key v (JObject m) = Inr (JObject (om_insert_or_assign str_less key v m))"
| "json_set key v _ = Inl (JsonTypeError 305)"

text \<open>\<open>get_ref\<close> and \<open>get\<close> differ in the exception of a mismatch.\<close>

fun get_ref_string :: "json \<Rightarrow> string result" where
  "get_ref_string (JString s) = Inr s"
| "get_ref_string _ = Inl (JsonTypeError 303)"

fun get_ref_array :: "json \<Rightarrow> json list result" where
  "get_ref_array (JArray xs) = Inr xs"
| "get_ref_array _ = Inl (JsonTypeError 303)"

fun get_string :: "json \<Rightarrow> string result" where
  "get_string (JString s) = Inr s"
| "get_string _ = Inl (JsonTypeError 302)"

fun get_bool :: "json \<Rightarrow> bool result" where
  "get_bool (JBool b) = Inr b"
| "get_bool _ = Inl (JsonTypeError 302)"

text \<open>The truncation of a double, as the cast to an integer type computes it.\<close>

definition double_trunc :: "double \<Rightarrow> int" where
  "double_trunc d =
     (case d of (m, e) \<Rightarrow>
        (if 0 \<le> e then m * 2 ^ nat e
         else (if m < 0 then - ((- m) div 2 ^ nat (- e)) else m div 2 ^ nat (- e))))"

fun get_uint64 :: "json \<Rightarrow> uint64 result" where
  "get_uint64 (JUInt u) = Inr u"
| "get_uint64 (JInt i) = Inr (word_of_int i)"
| "get_uint64 (JFloat d) = Inr (word_of_int (double_trunc d))"
| "get_uint64 _ = Inl (JsonTypeError 302)"

fun get_int64 :: "json \<Rightarrow> int result" where
  "get_int64 (JUInt u) = Inr (sint u)"
| "get_int64 (JInt i) = Inr i"
| "get_int64 (JFloat d) = Inr (double_trunc d)"
| "get_int64 _ = Inl (JsonTypeError 302)"

definition value_string :: "json \<Rightarrow> string \<Rightarrow> string \<Rightarrow> string result" where
  "value_string j key default_value =
     (if is_object j
      then (case json_find key j of None \<Rightarrow> Inr default_value | Some v \<Rightarrow> get_string v)
      else Inl (JsonTypeError 306))"

text \<open>A value's objects are sorted by key at every depth, as the map type guarantees.\<close>

fun json_wf :: "json \<Rightarrow> bool" where
  "json_wf (JArray xs) = list_all json_wf xs"
| "json_wf (JObject m) = (om_sorted str_less m \<and> list_all (\<lambda>kv. json_wf (snd kv)) m)"
| "json_wf (JInt i) = fits_int64 i"
| "json_wf _ = True"

lemma json_at_Inr: "json_at j key = Inr v \<longleftrightarrow> is_object j \<and> json_find key j = Some v"
  by (auto simp: json_at_def split: option.splits if_splits)

lemma json_access_exn:
  "json_at j key = Inl e \<Longrightarrow> is_json_exception e"
  "get_ref_string j = Inl e \<Longrightarrow> is_json_exception e"
  "get_ref_array j = Inl e \<Longrightarrow> is_json_exception e"
  "get_string j = Inl e \<Longrightarrow> is_json_exception e"
  "get_bool j = Inl e \<Longrightarrow> is_json_exception e"
  "get_uint64 j = Inl e \<Longrightarrow> is_json_exception e"
  "get_int64 j = Inl e \<Longrightarrow> is_json_exception e"
proof -
  show "json_at j key = Inl e \<Longrightarrow> is_json_exception e"
    by (auto simp: json_at_def split: option.splits if_splits)
qed (cases j; auto; fail)+

lemma value_string_exn: "value_string j key d = Inl e \<Longrightarrow> is_json_exception e"
  by (auto simp: value_string_def split: if_splits option.splits dest: json_access_exn)

end
