(* ===== verification/JsonLexer.thy ===== *)
theory JsonLexer
  imports Json
begin

unbundle bit_operations_syntax

text \<open>
  The lexer of \<open>third_party/nlohmann/json.hpp\<close> (class \<open>lexer\<close>) on byte strings. Its input
  state is the list of bytes not yet read: \<open>get()\<close> takes the head, \<open>unget()\<close> leaves it. A
  scanning function returns the token with the bytes that remain, or \<open>None\<close> for
  \<open>token_type::parse_error\<close>, after which no more input is read.
\<close>

datatype token =
    literal_true
  | literal_false
  | literal_null
  | value_string_token string
  | value_unsigned uint64
  | value_integer int
  | value_float "double option"
  | begin_array
  | begin_object
  | end_array
  | end_object
  | name_separator
  | value_separator
  | end_of_input

abbreviation byte :: "char \<Rightarrow> nat" where "byte c \<equiv> of_char c"

definition in_range :: "nat \<times> nat \<Rightarrow> char \<Rightarrow> bool" where
  "in_range r c \<longleftrightarrow> fst r \<le> byte c \<and> byte c \<le> snd r"

section \<open>Strings\<close>

definition hex_digit_val :: "char \<Rightarrow> nat option" where
  "hex_digit_val c =
     (if in_range (0x30, 0x39) c then Some (byte c - 0x30)
      else if in_range (0x41, 0x46) c then Some (byte c - 0x37)
      else if in_range (0x61, 0x66) c then Some (byte c - 0x57)
      else None)"

fun get_codepoint_from :: "nat list \<Rightarrow> nat \<Rightarrow> string \<Rightarrow> (nat \<times> string) option" where
  "get_codepoint_from [] codepoint input = Some (codepoint, input)"
| "get_codepoint_from (factor # factors) codepoint [] = None"
| "get_codepoint_from (factor # factors) codepoint (c # input) =
     (case hex_digit_val c of
        None \<Rightarrow> None
      | Some d \<Rightarrow> get_codepoint_from factors (codepoint + push_bit factor d) input)"

definition get_codepoint :: "string \<Rightarrow> (nat \<times> string) option" where
  "get_codepoint input = get_codepoint_from [12, 8, 4, 0] 0 input"

text \<open>The bytes a code point is translated into.\<close>

definition codepoint_bytes :: "nat \<Rightarrow> string" where
  "codepoint_bytes codepoint = map char_of
     (if codepoint < 0x80 then [codepoint]
      else if codepoint \<le> 0x7FF
      then [0xC0 OR drop_bit 6 codepoint, 0x80 OR (codepoint AND 0x3F)]
      else if codepoint \<le> 0xFFFF
      then [0xE0 OR drop_bit 12 codepoint, 0x80 OR (drop_bit 6 codepoint AND 0x3F),
            0x80 OR (codepoint AND 0x3F)]
      else [0xF0 OR drop_bit 18 codepoint, 0x80 OR (drop_bit 12 codepoint AND 0x3F),
            0x80 OR (drop_bit 6 codepoint AND 0x3F), 0x80 OR (codepoint AND 0x3F)])"

text \<open>After \<open>\u\<close>: one code unit, or two for a surrogate pair.\<close>

definition scan_unicode_escape :: "string \<Rightarrow> (string \<times> string) option" where
  "scan_unicode_escape input =
     (case get_codepoint input of
        None \<Rightarrow> None
      | Some (codepoint1, input1) \<Rightarrow>
          if 0xD800 \<le> codepoint1 \<and> codepoint1 \<le> 0xDBFF then
            (case input1 of
               b # u # input2 \<Rightarrow>
                 if b = CHR 0x5C \<and> u = CHR ''u'' then
                   (case get_codepoint input2 of
                      None \<Rightarrow> None
                    | Some (codepoint2, input3) \<Rightarrow>
                        if 0xDC00 \<le> codepoint2 \<and> codepoint2 \<le> 0xDFFF
                        then Some (codepoint_bytes (push_bit 10 codepoint1 + codepoint2 - 0x35FDC00), input3)
                        else None)
                 else None
             | _ \<Rightarrow> None)
          else if 0xDC00 \<le> codepoint1 \<and> codepoint1 \<le> 0xDFFF then None
          else Some (codepoint_bytes codepoint1, input1))"

text \<open>After a backslash.\<close>

fun scan_escape :: "string \<Rightarrow> (string \<times> string) option" where
  "scan_escape [] = None"
| "scan_escape (c # input) =
     (if c = CHR 0x22 then Some ([CHR 0x22], input)
      else if c = CHR 0x5C then Some ([CHR 0x5C], input)
      else if c = CHR ''/'' then Some ([CHR ''/''], input)
      else if c = CHR ''b'' then Some ([CHR 0x08], input)
      else if c = CHR ''f'' then Some ([CHR 0x0C], input)
      else if c = CHR ''n'' then Some ([CHR 0x0A], input)
      else if c = CHR ''r'' then Some ([CHR 0x0D], input)
      else if c = CHR ''t'' then Some ([CHR 0x09], input)
      else if c = CHR ''u'' then scan_unicode_escape input
      else None)"

text \<open>The continuation bytes each lead byte of a multi-byte sequence requires.\<close>

definition utf8_ranges :: "nat \<Rightarrow> (nat \<times> nat) list option" where
  "utf8_ranges b =
     (if 0xC2 \<le> b \<and> b \<le> 0xDF then Some [(0x80, 0xBF)]
      else if b = 0xE0 then Some [(0xA0, 0xBF), (0x80, 0xBF)]
      else if (0xE1 \<le> b \<and> b \<le> 0xEC) \<or> (0xEE \<le> b \<and> b \<le> 0xEF) then Some [(0x80, 0xBF), (0x80, 0xBF)]
      else if b = 0xED then Some [(0x80, 0x9F), (0x80, 0xBF)]
      else if b = 0xF0 then Some [(0x90, 0xBF), (0x80, 0xBF), (0x80, 0xBF)]
      else if 0xF1 \<le> b \<and> b \<le> 0xF3 then Some [(0x80, 0xBF), (0x80, 0xBF), (0x80, 0xBF)]
      else if b = 0xF4 then Some [(0x80, 0x8F), (0x80, 0xBF), (0x80, 0xBF)]
      else None)"

fun next_byte_in_range :: "(nat \<times> nat) list \<Rightarrow> string \<Rightarrow> (string \<times> string) option" where
  "next_byte_in_range [] input = Some ([], input)"
| "next_byte_in_range (r # rs) [] = None"
| "next_byte_in_range (r # rs) (c # input) =
     (if in_range r c
      then (case next_byte_in_range rs input of None \<Rightarrow> None | Some (cs, input') \<Rightarrow> Some (c # cs, input'))
      else None)"

text \<open>One iteration of the loop on a byte that is not the closing quote: the bytes added.\<close>

definition scan_char :: "char \<Rightarrow> string \<Rightarrow> (string \<times> string) option" where
  "scan_char c input =
     (if c = CHR 0x5C then scan_escape input
      else if byte c < 0x20 then None
      else if byte c < 0x80 then Some ([c], input)
      else case utf8_ranges (byte c) of
          None \<Rightarrow> None
        | Some rs \<Rightarrow> (case next_byte_in_range rs input of
             None \<Rightarrow> None | Some (cs, input') \<Rightarrow> Some (c # cs, input')))"

lemma get_codepoint_from_length:
  "get_codepoint_from fs cp input = Some (n, rest) \<Longrightarrow> length rest \<le> length input"
proof (induction fs cp input rule: get_codepoint_from.induct)
  case (3 factor factors codepoint c input)
  then show ?case by (fastforce split: option.splits)
qed auto

lemma scan_unicode_escape_length:
  "scan_unicode_escape input = Some (bs, rest) \<Longrightarrow> length rest \<le> length input"
  by (auto simp: scan_unicode_escape_def get_codepoint_def split: option.splits if_splits list.splits
      dest!: get_codepoint_from_length)

lemma scan_escape_length: "scan_escape input = Some (bs, rest) \<Longrightarrow> length rest \<le> length input"
  by (cases input) (auto split: if_splits dest: scan_unicode_escape_length)

lemma next_byte_in_range_length:
  "next_byte_in_range rs input = Some (bs, rest) \<Longrightarrow> length rest \<le> length input"
proof (induction rs input arbitrary: bs rule: next_byte_in_range.induct)
  case (3 r rs c input)
  then show ?case by (fastforce split: option.splits if_splits)
qed auto

lemma scan_char_length: "scan_char c input = Some (bs, rest) \<Longrightarrow> length rest \<le> length input"
  by (auto simp: scan_char_def split: option.splits if_splits
      dest: scan_escape_length next_byte_in_range_length)

text \<open>The loop, entered after the opening quote.\<close>

function scan_string :: "string \<Rightarrow> (string \<times> string) option" where
  "scan_string [] = None"
| "scan_string (c # input) =
     (if c = CHR 0x22 then Some ([], input)
      else case scan_char c input of
          None \<Rightarrow> None
        | Some (bs, input') \<Rightarrow> (case scan_string input' of
             None \<Rightarrow> None | Some (s, rest) \<Rightarrow> Some (bs @ s, rest)))"
  by pat_completeness auto
termination
  by (relation "measure length") (auto dest: scan_char_length)

lemma scan_string_length: "scan_string input = Some (s, rest) \<Longrightarrow> length rest < length input"
proof (induction input arbitrary: s rule: scan_string.induct)
  case (2 c input)
  show ?case
  proof (cases "c = CHR 0x22")
    case False
    then obtain bs input' s' where sc: "scan_char c input = Some (bs, input')"
      and ss: "scan_string input' = Some (s', rest)"
      using "2.prems" by (auto split: option.splits)
    then have "length rest < length input'" using "2.IH" False by blast
    then show ?thesis using scan_char_length [OF sc] by simp
  qed (use 2 in auto)
qed auto

section \<open>Numbers\<close>

text \<open>
  The state machine of \<open>scan_number\<close>, one constructor per label. \<open>number_step\<close> reads one
  byte: the next state, or acceptance, or an error.
\<close>

datatype number_state = minus | zero | any1 | decimal1 | decimal2 | exponent | sign | any2

datatype number_next = Goto number_state | Done | Failed

definition nonzero_digit :: "char \<Rightarrow> bool" where
  "nonzero_digit c \<longleftrightarrow> in_range (0x31, 0x39) c"

definition is_exp :: "char \<Rightarrow> bool" where
  "is_exp c \<longleftrightarrow> c = CHR ''e'' \<or> c = CHR ''E''"

fun number_step :: "number_state \<Rightarrow> char \<Rightarrow> number_next" where
  "number_step minus c =
     (if c = CHR ''0'' then Goto zero else if nonzero_digit c then Goto any1 else Failed)"
| "number_step zero c =
     (if c = CHR ''.'' then Goto decimal1 else if is_exp c then Goto exponent else Done)"
| "number_step any1 c =
     (if is_digit c then Goto any1 else if c = CHR ''.'' then Goto decimal1
      else if is_exp c then Goto exponent else Done)"
| "number_step decimal1 c = (if is_digit c then Goto decimal2 else Failed)"
| "number_step decimal2 c =
     (if is_digit c then Goto decimal2 else if is_exp c then Goto exponent else Done)"
| "number_step exponent c =
     (if c = CHR ''+'' \<or> c = CHR ''-'' then Goto sign else if is_digit c then Goto any2 else Failed)"
| "number_step sign c = (if is_digit c then Goto any2 else Failed)"
| "number_step any2 c = (if is_digit c then Goto any2 else Done)"

text \<open>The states in which the end of the input completes the number.\<close>

fun number_final :: "number_state \<Rightarrow> bool" where
  "number_final zero = True"
| "number_final any1 = True"
| "number_final decimal2 = True"
| "number_final any2 = True"
| "number_final _ = False"

datatype number_type = type_unsigned | type_integer | type_float

text \<open>Entering a label sets the type of the number.\<close>

fun number_enter :: "number_state \<Rightarrow> number_type \<Rightarrow> number_type" where
  "number_enter minus t = type_integer"
| "number_enter decimal1 t = type_float"
| "number_enter exponent t = type_float"
| "number_enter _ t = t"

fun scan_digits :: "number_state \<Rightarrow> number_type \<Rightarrow> string \<Rightarrow> (number_type \<times> string \<times> string) option" where
  "scan_digits st t [] = (if number_final st then Some (t, [], []) else None)"
| "scan_digits st t (c # input) =
     (case number_step st c of
        Goto st' \<Rightarrow>
          (case scan_digits st' (number_enter st' t) input of
             None \<Rightarrow> None | Some (t', buf, rest) \<Rightarrow> Some (t', c # buf, rest))
      | Done \<Rightarrow> Some (t, [], c # input)
      | Failed \<Rightarrow> None)"

text \<open>
  \<open>strtoull\<close> and \<open>strtoll\<close> on a buffer of the checked form; \<open>None\<close> is \<open>ERANGE\<close>.
\<close>

definition strtoull :: "string \<Rightarrow> uint64 option" where
  "strtoull buf = (let n = digits_val buf in if n < 2 ^ 64 then Some (of_nat n) else None)"

definition strtoll :: "string \<Rightarrow> int option" where
  "strtoll buf = (let i = - int (digits_val (tl buf)) in if INT64_MIN \<le> i then Some i else None)"

text \<open>\<open>strtod\<close> on a buffer of the checked form, exact and correctly rounded.\<close>

definition split_exp :: "string \<Rightarrow> string \<times> string" where
  "split_exp s = (takeWhile (\<lambda>c. \<not> is_exp c) s, drop 1 (dropWhile (\<lambda>c. \<not> is_exp c) s))"

fun signed_val :: "string \<Rightarrow> int" where
  "signed_val (c # s) =
     (if c = CHR ''-'' then - int (digits_val s)
      else if c = CHR ''+'' then int (digits_val s) else int (digits_val (c # s)))"
| "signed_val [] = 0"

definition strtod :: "string \<Rightarrow> double option" where
  "strtod buf =
     (let neg = (hd buf = CHR ''-'');
          (mant, ex) = split_exp (if neg then tl buf else buf);
          ip = takeWhile (\<lambda>c. c \<noteq> CHR ''.'') mant;
          fp = drop 1 (dropWhile (\<lambda>c. c \<noteq> CHR ''.'') mant);
          n = digits_val (ip @ fp);
          e = signed_val ex - int (length fp)
      in case (if 0 \<le> e then round_to_double (n * 10 ^ nat e) 1 else round_to_double n (10 ^ nat (- e))) of
           None \<Rightarrow> None
         | Some (m, e2) \<Rightarrow> Some (if neg then - int m else int m, e2))"

fun number_token :: "number_type \<Rightarrow> string \<Rightarrow> token" where
  "number_token type_unsigned buf =
     (case strtoull buf of Some u \<Rightarrow> value_unsigned u | None \<Rightarrow> value_float (strtod buf))"
| "number_token type_integer buf =
     (case strtoll buf of Some i \<Rightarrow> value_integer i | None \<Rightarrow> value_float (strtod buf))"
| "number_token type_float buf = value_float (strtod buf)"

definition number_start :: "char \<Rightarrow> number_state" where
  "number_start c = (if c = CHR ''-'' then minus else if c = CHR ''0'' then zero else any1)"

definition scan_number :: "char \<Rightarrow> string \<Rightarrow> (token \<times> string) option" where
  "scan_number c input =
     (case scan_digits (number_start c) (number_enter (number_start c) type_unsigned) input of
        None \<Rightarrow> None
      | Some (t, buf, rest) \<Rightarrow> Some (number_token t (c # buf), rest))"

lemma scan_digits_length: "scan_digits st t input = Some (t', buf, rest) \<Longrightarrow> length rest \<le> length input"
proof (induction st t input arbitrary: buf rule: scan_digits.induct)
  case (2 st t c input)
  then show ?case by (fastforce split: number_next.splits option.splits)
qed (auto split: if_splits)

lemma scan_number_length: "scan_number c input = Some (t, rest) \<Longrightarrow> length rest \<le> length input"
  by (auto simp: scan_number_def split: option.splits dest: scan_digits_length)

section \<open>Tokens\<close>

fun scan_literal :: "string \<Rightarrow> token \<Rightarrow> string \<Rightarrow> (token \<times> string) option" where
  "scan_literal [] t input = Some (t, input)"
| "scan_literal (l # ls) t [] = None"
| "scan_literal (l # ls) t (c # input) = (if c \<noteq> l then None else scan_literal ls t input)"

definition is_ws :: "char \<Rightarrow> bool" where
  "is_ws c \<longleftrightarrow> c = CHR '' '' \<or> c = CHR 0x09 \<or> c = CHR 0x0A \<or> c = CHR 0x0D"

definition skip_whitespace :: "string \<Rightarrow> string" where
  "skip_whitespace input = dropWhile is_ws input"

definition skip_bom :: "string \<Rightarrow> string option" where
  "skip_bom input =
     (case input of
        [] \<Rightarrow> Some []
      | c # input1 \<Rightarrow>
          if c = CHR 0xEF then
            (case input1 of
               c1 # c2 # input3 \<Rightarrow> if c1 = CHR 0xBB \<and> c2 = CHR 0xBF then Some input3 else None
             | _ \<Rightarrow> None)
          else Some input)"

text \<open>\<open>scan\<close> without the byte order mark, which only the first call looks for.\<close>

definition scan :: "string \<Rightarrow> (token \<times> string) option" where
  "scan input =
     (case skip_whitespace input of
        [] \<Rightarrow> Some (end_of_input, [])
      | c # rest \<Rightarrow>
          if c = CHR ''['' then Some (begin_array, rest)
          else if c = CHR '']'' then Some (end_array, rest)
          else if c = CHR ''{'' then Some (begin_object, rest)
          else if c = CHR ''}'' then Some (end_object, rest)
          else if c = CHR '':'' then Some (name_separator, rest)
          else if c = CHR '','' then Some (value_separator, rest)
          else if c = CHR ''t'' then scan_literal ''rue'' literal_true rest
          else if c = CHR ''f'' then scan_literal ''alse'' literal_false rest
          else if c = CHR ''n'' then scan_literal ''ull'' literal_null rest
          else if c = CHR 0x22 then
            (case scan_string rest of None \<Rightarrow> None | Some (s, rest') \<Rightarrow> Some (value_string_token s, rest'))
          else if c = CHR ''-'' \<or> is_digit c then scan_number c rest
          else if c = CHR 0x00 then Some (end_of_input, rest)
          else None)"

lemma scan_literal_length: "scan_literal ls t input = Some (t', rest) \<Longrightarrow> length rest \<le> length input"
  by (induction ls t input rule: scan_literal.induct) (auto split: if_splits)

text \<open>A scanning result leaves at most \<open>n\<close> bytes.\<close>

definition leaves :: "nat \<Rightarrow> (token \<times> string) option \<Rightarrow> bool" where
  "leaves n r \<longleftrightarrow> (case r of None \<Rightarrow> True | Some (t, rest) \<Rightarrow> length rest \<le> n)"

lemma leaves_if: "leaves n a \<Longrightarrow> leaves n b \<Longrightarrow> leaves n (if c then a else b)"
  by simp

lemma leaves_scanners:
  "leaves n None" "length rest \<le> n \<Longrightarrow> leaves n (Some (t, rest))"
  "leaves (length s) (scan_literal ls t s)" "leaves (length s) (scan_number c s)"
  "leaves (length s) (case scan_string s of None \<Rightarrow> None | Some (str, rest) \<Rightarrow> Some (value_string_token str, rest))"
  by (auto simp: leaves_def split: option.split
      dest: scan_literal_length scan_string_length scan_number_length)

text \<open>Every token but the end of the input consumes at least one byte.\<close>

lemma scan_length:
  assumes "scan input = Some (t, rest)" and "t \<noteq> end_of_input"
  shows "length rest < length input"
proof -
  obtain c s where s: "skip_whitespace input = c # s"
    using assms by (cases "skip_whitespace input") (auto simp: scan_def)
  have "length (c # s) \<le> length input"
    using length_dropWhile_le [of is_ws input] s by (simp add: skip_whitespace_def)
  moreover have "leaves (length s) (scan input)"
    unfolding scan_def s list.case by (intro leaves_if leaves_scanners le_refl)
  ultimately show ?thesis using assms(1) by (simp add: leaves_def)
qed

end
