(* ===== verification/JsonParser.thy ===== *)
theory JsonParser
  imports JsonLexer
begin

text \<open>
  The parser of \<open>third_party/nlohmann/json.hpp\<close>: \<open>parser::sax_parse_internal\<close> driving
  \<open>json_sax_dom_parser\<close>. The parser's bit stack and the handler's reference stack grow and
  shrink together, so one stack of open containers models both: a frame holds what the
  container has received so far and, for an object, the key whose value comes next.
\<close>

datatype frame = ArrayFrame "json list" | ObjectFrame "(string \<times> json) list" string

text \<open>\<open>handle_value\<close> on the innermost open container.\<close>

fun handle_value :: "frame \<Rightarrow> json \<Rightarrow> json" where
  "handle_value (ArrayFrame xs) v = JArray (xs @ [v])"
| "handle_value (ObjectFrame m k) v = JObject (om_insert_or_assign str_less k v m)"

abbreviation unexpected_token :: exn where
  "unexpected_token \<equiv> JsonParseError 101"

text \<open>A key and its separator; what is returned is the input at the value.\<close>

definition parse_separator :: "string \<Rightarrow> string result" where
  "parse_separator input =
     (case scan input of
        Some (name_separator, rest) \<Rightarrow> Inr rest
      | _ \<Rightarrow> Inl unexpected_token)"

definition parse_key :: "string \<Rightarrow> (string \<times> string) result" where
  "parse_key input =
     (case scan input of
        Some (value_string_token k, rest) \<Rightarrow> bind_exn (parse_separator rest) (\<lambda>rest'. Inr (k, rest'))
      | _ \<Rightarrow> Inl unexpected_token)"

text \<open>The scalar a token denotes.\<close>

fun scalar :: "token \<Rightarrow> json result" where
  "scalar (value_float None) = Inl (JsonOutOfRange 406)"
| "scalar (value_float (Some d)) = Inr (JFloat d)"
| "scalar literal_false = Inr (JBool False)"
| "scalar literal_null = Inr JNull"
| "scalar literal_true = Inr (JBool True)"
| "scalar (value_integer i) = Inr (JInt i)"
| "scalar (value_string_token s) = Inr (JString s)"
| "scalar (value_unsigned u) = Inr (JUInt u)"
| "scalar _ = Inl unexpected_token"

lemma parse_separator_length: "parse_separator input = Inr rest \<Longrightarrow> length rest < length input"
  by (auto simp: parse_separator_def split: option.splits prod.splits token.splits dest: scan_length)

lemma parse_key_length: "parse_key input = Inr (k, rest) \<Longrightarrow> length rest < length input"
  by (fastforce simp: parse_key_def bind_exn_eq_Inr split: option.splits prod.splits token.splits
      dest: scan_length parse_separator_length)

text \<open>
  The loop. \<open>parse_value\<close> is the part that reads a value from the current position,
  \<open>end_value\<close> the part reached after a value was parsed. The result is the root value with
  the unread input.
\<close>

function parse_value :: "frame list \<Rightarrow> string \<Rightarrow> (json \<times> string) result"
and end_value :: "frame list \<Rightarrow> json \<Rightarrow> string \<Rightarrow> (json \<times> string) result" where
  "parse_value stack input =
     (case scan input of
        None \<Rightarrow> Inl unexpected_token
      | Some (begin_object, rest) \<Rightarrow>
          (case scan rest of
             Some (end_object, rest') \<Rightarrow> end_value stack (JObject []) rest'
           | _ \<Rightarrow> bind_exn (parse_key rest) (\<lambda>(k, rest'). parse_value (ObjectFrame [] k # stack) rest'))
      | Some (begin_array, rest) \<Rightarrow>
          (case scan rest of
             Some (end_array, rest') \<Rightarrow> end_value stack (JArray []) rest'
           | _ \<Rightarrow> parse_value (ArrayFrame [] # stack) rest)
      | Some (t, rest) \<Rightarrow> bind_exn (scalar t) (\<lambda>v. end_value stack v rest))"
| "end_value [] v input = Inr (v, input)"
| "end_value (ArrayFrame xs # stack) v input =
     (case scan input of
        Some (value_separator, rest) \<Rightarrow> parse_value (ArrayFrame (xs @ [v]) # stack) rest
      | Some (end_array, rest) \<Rightarrow> end_value stack (handle_value (ArrayFrame xs) v) rest
      | _ \<Rightarrow> Inl unexpected_token)"
| "end_value (ObjectFrame m k # stack) v input =
     (case scan input of
        Some (value_separator, rest) \<Rightarrow>
          bind_exn (parse_key rest)
            (\<lambda>(k', rest'). parse_value (ObjectFrame (om_insert_or_assign str_less k v m) k' # stack) rest')
      | Some (end_object, rest) \<Rightarrow> end_value stack (handle_value (ObjectFrame m k) v) rest
      | _ \<Rightarrow> Inl unexpected_token)"
  by pat_completeness auto

termination
proof (relation "measure (\<lambda>x. case x of Inl (st, input) \<Rightarrow> 2 * length input + 1 | Inr (st, v, input) \<Rightarrow> 2 * length input)",
    goal_cases)
  case 1
  then show ?case by simp
qed (auto dest!: scan_length parse_key_length; fail)+

declare parse_value.simps [simp del] end_value.simps [simp del]

text \<open>\<open>json::parse\<close>: strict, so only the end of the input may follow the value.\<close>

definition json_parse :: "string \<Rightarrow> json result" where
  "json_parse text =
     (case skip_bom text of
        None \<Rightarrow> Inl unexpected_token
      | Some input \<Rightarrow>
          bind_exn (parse_value [] input) (\<lambda>(v, rest).
            case scan rest of
              Some (end_of_input, _) \<Rightarrow> Inr v
            | _ \<Rightarrow> Inl unexpected_token))"

text \<open>The only exceptions of the parser are \<open>parse_error.101\<close> and \<open>out_of_range.406\<close>.\<close>

lemma scalar_exn: "scalar t = Inl e \<Longrightarrow> is_json_exception e"
  by (cases t rule: scalar.cases) auto

lemma parse_key_exn: "parse_key input = Inl e \<Longrightarrow> is_json_exception e"
  by (auto simp: parse_key_def parse_separator_def bind_exn_eq_Inl
      split: option.splits prod.splits token.splits)

lemma parse_value_cases:
  "parse_value stack input =
     (case scan input of
        None \<Rightarrow> Inl unexpected_token
      | Some (t, rest) \<Rightarrow>
          if t = begin_object then
            (if map_option fst (scan rest) = Some end_object
             then end_value stack (JObject []) (snd (the (scan rest)))
             else bind_exn (parse_key rest) (\<lambda>(k, rest'). parse_value (ObjectFrame [] k # stack) rest'))
          else if t = begin_array then
            (if map_option fst (scan rest) = Some end_array
             then end_value stack (JArray []) (snd (the (scan rest)))
             else parse_value (ArrayFrame [] # stack) rest)
          else bind_exn (scalar t) (\<lambda>v. end_value stack v rest))"
proof (cases "scan input")
  case (Some tr)
  obtain t rest where tr: "tr = (t, rest)" by (cases tr)
  show ?thesis
  proof (cases "t = begin_object \<or> t = begin_array")
    case True
    show ?thesis
    proof (cases "scan rest")
      case None
      then show ?thesis using True by (auto simp: parse_value.simps [of stack input] Some tr)
    next
      case (Some ur)
      obtain u rest' where "ur = (u, rest')" by (cases ur)
      then show ?thesis using True Some \<open>scan input = Some tr\<close>
        by (cases u) (auto simp: parse_value.simps [of stack input] tr)
    qed
  next
    case False
    then show ?thesis by (cases t) (simp_all add: parse_value.simps [of stack input] Some tr)
  qed
qed (simp add: parse_value.simps [of stack input])

lemma end_value_cases:
  "end_value (ArrayFrame xs # stack) v input =
     (case scan input of
        None \<Rightarrow> Inl unexpected_token
      | Some (t, rest) \<Rightarrow>
          if t = value_separator then parse_value (ArrayFrame (xs @ [v]) # stack) rest
          else if t = end_array then end_value stack (JArray (xs @ [v])) rest
          else Inl unexpected_token)"
  "end_value (ObjectFrame m k # stack) v input =
     (case scan input of
        None \<Rightarrow> Inl unexpected_token
      | Some (t, rest) \<Rightarrow>
          if t = value_separator then
            bind_exn (parse_key rest)
              (\<lambda>(k', rest'). parse_value (ObjectFrame (om_insert_or_assign str_less k v m) k' # stack) rest')
          else if t = end_object then end_value stack (JObject (om_insert_or_assign str_less k v m)) rest
          else Inl unexpected_token)"
  by (auto simp: end_value.simps split: option.split token.split)

definition throws_json :: "'a result \<Rightarrow> bool" where
  "throws_json r \<longleftrightarrow> (\<forall>e. r = Inl e \<longrightarrow> is_json_exception e)"

lemma throws_json_intros:
  "throws_json (Inr x)" "throws_json (Inl unexpected_token)"
  "throws_json m \<Longrightarrow> (\<And>x. m = Inr x \<Longrightarrow> throws_json (f x)) \<Longrightarrow> throws_json (bind_exn m f)"
  by (auto simp: throws_json_def bind_exn_eq_Inl)

lemma throws_json_scan:
  "throws_json (scalar t)" "throws_json (parse_key input)"
  using scalar_exn parse_key_exn by (auto simp: throws_json_def)

lemma parse_throws_json:
  "(2 * length input + 1 < n \<longrightarrow> throws_json (parse_value stack input)) \<and>
   (2 * length input < n \<longrightarrow> throws_json (end_value stack v input))"
proof (induction n arbitrary: stack v input)
  case (Suc n)
  have P: "throws_json (parse_value stk inp)" if "2 * length inp + 1 < n" for stk inp using Suc that by blast
  have E: "throws_json (end_value stk v inp)" if "2 * length inp < n" for stk v inp using Suc that by blast
  have "throws_json (parse_value stack input)" if len: "2 * length input + 1 < Suc n"
  proof (cases "scan input")
    case (Some tr)
    obtain t rest where tr: "tr = (t, rest)" by (cases tr)
    have rest: "t \<noteq> end_of_input \<Longrightarrow> length rest < length input" using scan_length Some tr by blast
    have clo: "throws_json (end_value stack c (snd (the (scan rest))))"
      if "t = begin_object \<or> t = begin_array" "map_option fst (scan rest) = Some u" "u \<noteq> end_of_input" for u c
      using that rest len scan_length [of rest] by (auto intro!: E)
    have sc: "throws_json (end_value stack w rest)" if "scalar t = Inr w" for w
      using that rest len by (cases "t = end_of_input") (auto intro!: E)
    show ?thesis unfolding parse_value_cases [of stack input] Some tr option.case prod.case
      using rest len by (auto intro!: throws_json_intros throws_json_scan clo sc P dest!: parse_key_length)
  qed (simp add: parse_value_cases [of stack input] throws_json_intros)
  moreover have "throws_json (end_value stack v input)" if len: "2 * length input < Suc n"
  proof (cases stack)
    case (Cons f stk)
    show ?thesis
    proof (cases "scan input")
      case (Some tr)
      obtain t rest where tr: "tr = (t, rest)" by (cases tr)
      have rest: "t \<noteq> end_of_input \<Longrightarrow> length rest < length input" using scan_length Some tr by blast
      have "t = value_separator \<Longrightarrow> 2 * length rest + 1 < n" "t = end_array \<or> t = end_object \<Longrightarrow> 2 * length rest < n"
        using rest len by auto
      then show ?thesis unfolding Cons
        by (cases f) (auto simp: end_value_cases Some tr intro!: throws_json_intros throws_json_scan P E dest!: parse_key_length)
    qed (cases f; simp add: Cons end_value_cases throws_json_intros)
  qed (simp add: end_value.simps throws_json_intros)
  ultimately show ?case by blast
qed simp

lemma parse_value_exn: "parse_value stack input = Inl e \<Longrightarrow> is_json_exception e"
  using parse_throws_json [of input "2 * length input + 2" stack] by (simp add: throws_json_def)

lemma json_parse_exn: "json_parse text = Inl e \<Longrightarrow> is_json_exception e"
proof -
  have "throws_json (json_parse text)"
  proof (cases "skip_bom text")
    case (Some input)
    have "throws_json (case scan rest of Some (end_of_input, _) \<Rightarrow> Inr v | _ \<Rightarrow> Inl unexpected_token)"
      for rest and v :: json
      by (simp add: throws_json_def split: option.split prod.split token.split)
    moreover have "throws_json (parse_value [] input)" using parse_value_exn by (auto simp: throws_json_def)
    ultimately show ?thesis
      by (auto simp: json_parse_def Some intro!: throws_json_intros(3))
  qed (simp add: json_parse_def throws_json_intros)
  then show "json_parse text = Inl e \<Longrightarrow> is_json_exception e" by (simp add: throws_json_def)
qed

end
