(* ===== verification/JsonDump.thy ===== *)
theory JsonDump
  imports JsonParser
begin

unbundle bit_operations_syntax

text \<open>
  The serializer of \<open>third_party/nlohmann/json.hpp\<close> with the strict error handler and
  without \<open>ensure_ascii\<close>, the only configuration the program uses. Its output buffer is
  invisible: an operation returns the bytes it writes. The printing of floating point
  numbers (Grisu2) is a parameter of \<open>json_dump\<close>.
\<close>

section \<open>Integers\<close>

definition digits_to_99 :: "nat \<Rightarrow> string" where
  "digits_to_99 i = [digit_char (i div 10), digit_char (i mod 10)]"

text \<open>The loop that writes two digits at a time from the end of the buffer.\<close>

fun dump_digits :: "nat \<Rightarrow> string \<Rightarrow> string" where
  "dump_digits abs_value buffer =
     (if 100 \<le> abs_value then dump_digits (abs_value div 100) (digits_to_99 (abs_value mod 100) @ buffer)
      else if 10 \<le> abs_value then digits_to_99 abs_value @ buffer
      else digit_char abs_value # buffer)"

declare dump_digits.simps [simp del]

text \<open>The absolute value of a negative integer as an unsigned 64 bit number.\<close>

definition remove_sign :: "int \<Rightarrow> uint64" where
  "remove_sign x = word_of_int (- (x + 1)) + 1"

definition dump_unsigned :: "uint64 \<Rightarrow> string" where
  "dump_unsigned x = (if x = 0 then ''0'' else dump_digits (unat x) [])"

definition dump_integer :: "int \<Rightarrow> string" where
  "dump_integer x =
     (if x = 0 then ''0''
      else if x < 0 then CHR ''-'' # dump_digits (unat (remove_sign x)) []
      else dump_digits (nat x) [])"

section \<open>Strings\<close>

definition UTF8_ACCEPT :: nat where "UTF8_ACCEPT = 0"
definition UTF8_REJECT :: nat where "UTF8_REJECT = 1"

text \<open>The byte classes, the first 256 entries of \<open>utf8d\<close>.\<close>

definition utf8_type :: "nat \<Rightarrow> nat" where
  "utf8_type b =
     (if b < 0x80 then 0 else if b < 0x90 then 1 else if b < 0xA0 then 9 else if b < 0xC0 then 7
      else if b < 0xC2 then 8 else if b < 0xE0 then 2
      else if b = 0xE0 then 0xA else if b = 0xED then 4 else if b < 0xF0 then 3
      else if b = 0xF0 then 0xB else if b < 0xF4 then 6 else if b = 0xF4 then 5 else 8)"

text \<open>The transitions, the last 144 entries: one row of 16 per state.\<close>

definition utf8_next :: "nat list list" where
  "utf8_next =
     [[0, 1, 2, 3, 5, 8, 7, 1, 1, 1, 4, 6, 1, 1, 1, 1],
      [1, 1, 1, 1, 1, 1, 1, 1, 1, 1, 1, 1, 1, 1, 1, 1],
      [1, 0, 1, 1, 1, 1, 1, 0, 1, 0, 1, 1, 1, 1, 1, 1],
      [1, 2, 1, 1, 1, 1, 1, 2, 1, 2, 1, 1, 1, 1, 1, 1],
      [1, 1, 1, 1, 1, 1, 1, 2, 1, 1, 1, 1, 1, 1, 1, 1],
      [1, 2, 1, 1, 1, 1, 1, 1, 1, 2, 1, 1, 1, 1, 1, 1],
      [1, 1, 1, 1, 1, 1, 1, 3, 1, 3, 1, 1, 1, 1, 1, 1],
      [1, 3, 1, 1, 1, 1, 1, 3, 1, 3, 1, 1, 1, 1, 1, 1],
      [1, 3, 1, 1, 1, 1, 1, 1, 1, 1, 1, 1, 1, 1, 1, 1]]"

definition decode :: "nat \<Rightarrow> nat \<Rightarrow> nat \<Rightarrow> nat \<times> nat" where
  "decode state codep b =
     (let type = utf8_type b;
          codep' = (if state \<noteq> UTF8_ACCEPT then (b AND 0x3F) OR push_bit 6 codep
                    else drop_bit type 0xFF AND b)
      in (utf8_next ! state ! type, codep'))"

definition hex_char :: "nat \<Rightarrow> char" where
  "hex_char d = (if d < 10 then digit_char d else char_of (0x57 + d))"

text \<open>What is written for a completed code point whose last byte is \<open>c\<close>.\<close>

definition dump_codepoint :: "nat \<Rightarrow> char \<Rightarrow> string" where
  "dump_codepoint codepoint c =
     (if codepoint = 0x08 then [CHR 0x5C, CHR ''b'']
      else if codepoint = 0x09 then [CHR 0x5C, CHR ''t'']
      else if codepoint = 0x0A then [CHR 0x5C, CHR ''n'']
      else if codepoint = 0x0C then [CHR 0x5C, CHR ''f'']
      else if codepoint = 0x0D then [CHR 0x5C, CHR ''r'']
      else if codepoint = 0x22 then [CHR 0x5C, CHR 0x22]
      else if codepoint = 0x5C then [CHR 0x5C, CHR 0x5C]
      else if codepoint \<le> 0x1F
      then [CHR 0x5C, CHR ''u'', CHR ''0'', CHR ''0'', hex_char (codepoint div 16), hex_char (codepoint mod 16)]
      else [c])"

fun dump_escaped_from :: "nat \<Rightarrow> nat \<Rightarrow> string \<Rightarrow> string result" where
  "dump_escaped_from state codepoint [] =
     (if state = UTF8_ACCEPT then Inr [] else Inl (JsonTypeError 316))"
| "dump_escaped_from state codepoint (c # s) =
     (let (state', codepoint') = decode state codepoint (byte c) in
      if state' = UTF8_ACCEPT
      then bind_exn (dump_escaped_from state' codepoint' s) (\<lambda>out. Inr (dump_codepoint codepoint' c @ out))
      else if state' = UTF8_REJECT then Inl (JsonTypeError 316)
      else bind_exn (dump_escaped_from state' codepoint' s) (\<lambda>out. Inr (c # out)))"

definition dump_escaped :: "string \<Rightarrow> string result" where
  "dump_escaped s = dump_escaped_from UTF8_ACCEPT 0 s"

section \<open>Values\<close>

text \<open>
  \<open>dump\<close>, compact (\<open>indent = None\<close>) or pretty printed with a step and the current
  indentation.
\<close>

definition line_start :: "(nat \<times> nat) option \<Rightarrow> string" where
  "line_start indent = (case indent of None \<Rightarrow> [] | Some (st, cur) \<Rightarrow> CHR 0x0A # replicate cur (CHR '' ''))"

definition deeper :: "(nat \<times> nat) option \<Rightarrow> (nat \<times> nat) option" where
  "deeper indent = map_option (\<lambda>(st, cur). (st, cur + st)) indent"

definition colon :: "(nat \<times> nat) option \<Rightarrow> string" where
  "colon indent = (case indent of None \<Rightarrow> [CHR 0x22, CHR '':''] | Some _ \<Rightarrow> [CHR 0x22, CHR '':'', CHR '' ''])"

fun json_dump :: "(double \<Rightarrow> string) \<Rightarrow> (nat \<times> nat) option \<Rightarrow> json \<Rightarrow> string result"
and dump_elements :: "(double \<Rightarrow> string) \<Rightarrow> (nat \<times> nat) option \<Rightarrow> json list \<Rightarrow> string result"
and dump_members :: "(double \<Rightarrow> string) \<Rightarrow> (nat \<times> nat) option \<Rightarrow> (string \<times> json) list \<Rightarrow> string result" where
  "json_dump fl indent (JObject m) =
     (if m = [] then Inr ''{}''
      else bind_exn (dump_members fl (deeper indent) m)
        (\<lambda>out. Inr (CHR ''{'' # out @ line_start indent @ ''}'')))"
| "json_dump fl indent (JArray xs) =
     (if xs = [] then Inr ''[]''
      else bind_exn (dump_elements fl (deeper indent) xs)
        (\<lambda>out. Inr (CHR ''['' # out @ line_start indent @ '']'')))"
| "json_dump fl indent (JString s) = bind_exn (dump_escaped s) (\<lambda>out. Inr (CHR 0x22 # out @ [CHR 0x22]))"
| "json_dump fl indent (JBool b) = Inr (if b then ''true'' else ''false'')"
| "json_dump fl indent (JInt i) = Inr (dump_integer i)"
| "json_dump fl indent (JUInt u) = Inr (dump_unsigned u)"
| "json_dump fl indent (JFloat d) = Inr (fl d)"
| "json_dump fl indent JNull = Inr ''null''"
| "dump_elements fl indent [] = Inr []"
| "dump_elements fl indent (x # xs) =
     bind_exn (json_dump fl indent x) (\<lambda>out.
     bind_exn (dump_elements fl indent xs) (\<lambda>outs.
       Inr (line_start indent @ out @ (if xs = [] then [] else CHR '','' # outs))))"
| "dump_members fl indent [] = Inr []"
| "dump_members fl indent ((k, v) # m) =
     bind_exn (dump_escaped k) (\<lambda>key.
     bind_exn (json_dump fl indent v) (\<lambda>out.
     bind_exn (dump_members fl indent m) (\<lambda>outs.
       Inr (line_start indent @ CHR 0x22 # key @ colon indent @ out @
            (if m = [] then [] else CHR '','' # outs)))))"

end
