(* ===== verification/JsonRoundTrip.thy ===== *)
theory JsonRoundTrip
  imports JsonDump
begin

unbundle bit_operations_syntax

text \<open>
  Parsing what the serializer wrote. Strings come back byte for byte whenever the
  serializer accepts them, integers with their value, containers with their structure.
\<close>

section \<open>Integers\<close>

lemma dump_digits_eq: "dump_digits n buf = nat_digits n @ buf"
proof (induction n buf rule: dump_digits.induct)
  case (1 n buf)
  have two: "nat_digits n = nat_digits (n div 100) @ digits_to_99 (n mod 100)" if "100 \<le> n"
  proof -
    have "n mod 100 = 10 * (n div 10 mod 10) + n mod 10" using mod_mult2_eq [of n 10 10] by simp
    then have "n mod 100 div 10 = n div 10 mod 10" and "n mod 100 mod 10 = n mod 10" by simp_all
    moreover have "n div 10 div 10 = n div 100" using div_mult2_eq [of n 10 10] by simp
    moreover have "\<not> n div 10 < 10" using that by linarith
    ultimately show ?thesis using that
      by (simp add: nat_digits.simps [of n] nat_digits.simps [of "n div 10"] digits_to_99_def)
  qed
  have small: "nat_digits n = (if 10 \<le> n then digits_to_99 n else [digit_char n])" if "n < 100"
  proof -
    have "nat_digits (n div 10) = [digit_char (n div 10)]"
      using that by (simp add: nat_digits.simps [of "n div 10"])
    then show ?thesis by (simp add: nat_digits.simps [of n] digits_to_99_def)
  qed
  show ?case
  proof (cases "100 \<le> n")
    case True
    then show ?thesis using 1 two by (simp add: dump_digits.simps [of n])
  next
    case False
    then show ?thesis using small by (simp add: dump_digits.simps [of n])
  qed
qed

lemma digit_char_0 [simp]: "digit_char 0 = CHR ''0''"
  by code_simp

lemma nat_digits_zero: "nat_digits 0 = ''0''"
  by (simp add: nat_digits.simps [of 0])

lemma remove_sign_nat: "x < 0 \<Longrightarrow> fits_int64 x \<Longrightarrow> unat (remove_sign x) = nat (- x)"
proof -
  assume "x < 0" and "fits_int64 x"
  then have "uint (word_of_int (- x) :: uint64) = - x"
    by (subst uint_word_of_int) (simp add: int_limits)
  moreover have "remove_sign x = word_of_int (- x)"
    by (simp add: remove_sign_def wi_hom_syms)
  ultimately show ?thesis by (simp add: unat_eq_nat_uint)
qed

lemma dump_unsigned_eq: "dump_unsigned u = nat_digits (unat u)"
  by (simp add: dump_unsigned_def dump_digits_eq nat_digits_zero)

lemma dump_integer_eq:
  "fits_int64 i \<Longrightarrow> dump_integer i = (if i < 0 then CHR ''-'' # nat_digits (nat (- i)) else nat_digits (nat i))"
  by (simp add: dump_integer_def dump_digits_eq nat_digits_zero remove_sign_nat)

text \<open>A byte that cannot continue a number.\<close>

definition stops :: "string \<Rightarrow> bool" where
  "stops rest \<longleftrightarrow> (case rest of [] \<Rightarrow> True | c # _ \<Rightarrow> \<not> is_digit c \<and> c \<noteq> CHR ''.'' \<and> \<not> is_exp c)"

lemma scan_digits_any1:
  assumes "list_all is_digit ds" and "stops rest"
  shows "scan_digits any1 t (ds @ rest) = Some (t, ds, rest)"
  using assms
proof (induction ds)
  case Nil
  then show ?case by (cases rest) (auto simp: stops_def)
qed simp

lemma scan_digits_zero: "stops rest \<Longrightarrow> scan_digits zero t rest = Some (t, [], rest)"
  by (cases rest) (auto simp: stops_def)

lemma digit_char_zero: "is_digit c \<Longrightarrow> digit_val c = 0 \<longleftrightarrow> c = CHR ''0''"
proof
  assume "is_digit c" "digit_val c = 0"
  then show "c = CHR ''0''" using digit_char_digit_val [of c] by simp
qed (simp add: digit_val_def)

text \<open>Printed numbers have no superfluous leading zero.\<close>

lemma nat_digits_head: "0 < n \<Longrightarrow> \<exists>d ds. nat_digits n = d # ds \<and> is_digit d \<and> d \<noteq> CHR ''0'' \<and> list_all is_digit ds"
proof (induction n rule: nat_digits.induct)
  case (1 n)
  show ?case
  proof (cases "n < 10")
    case True
    then show ?thesis using 1 digit_char_zero [of "digit_char n"] by (simp add: nat_digits.simps [of n])
  next
    case False
    then obtain d ds where "nat_digits (n div 10) = d # ds" "is_digit d" "d \<noteq> CHR ''0''" "list_all is_digit ds"
      using 1 by (auto simp: div_greater_zero_iff)
    then show ?thesis using False by (simp add: nat_digits.simps [of n])
  qed
qed

lemma nonzero_digit_iff: "nonzero_digit c \<longleftrightarrow> is_digit c \<and> c \<noteq> CHR ''0''"
proof -
  have "byte c \<noteq> 48" if "c \<noteq> CHR ''0''"
    using that of_char_eq_iff [of c "CHR ''0''"] by auto
  then show ?thesis by (auto simp: nonzero_digit_def in_range_def is_digit_def)
qed

lemma digit_not_structural:
  assumes "is_digit c"
  shows "c \<notin> set '' []{}:,tfn-''" and "c \<noteq> CHR 0x22" and "c \<noteq> CHR 0x09" and "c \<noteq> CHR 0x0A" and "c \<noteq> CHR 0x0D"
  using assms by (auto simp: is_digit_def)

lemma scan_digit:
  assumes "is_digit c \<or> c = CHR ''-''"
  shows "scan (c # input) = scan_number c input"
proof (cases "c = CHR ''-''")
  case False
  then have d: "is_digit c" using assms by simp
  then show ?thesis using digit_not_structural [OF d] by (simp add: scan_def skip_whitespace_def is_ws_def)
qed (simp add: scan_def skip_whitespace_def is_ws_def)

lemma scan_nat_digits:
  assumes "stops rest"
  shows "\<exists>c cs. nat_digits n = c # cs \<and> is_digit c \<and>
    scan_digits (number_start c) t (cs @ rest) = Some (t, cs, rest) \<and>
    scan_digits minus t (nat_digits n @ rest) = Some (t, nat_digits n, rest)"
proof (cases "n = 0")
  case True
  then show ?thesis using scan_digits_zero [OF assms]
    by (auto simp: nat_digits_zero number_start_def is_digit_def)
next
  case False
  then obtain d ds where d: "nat_digits n = d # ds" "is_digit d" "d \<noteq> CHR ''0''" "list_all is_digit ds"
    using nat_digits_head [of n] by auto
  moreover have "d \<noteq> CHR ''-''" using d(2) by (auto simp: is_digit_def)
  ultimately show ?thesis using scan_digits_any1 [OF d(4) assms]
    by (auto simp: number_start_def nonzero_digit_iff)
qed

lemma scan_unsigned:
  assumes "stops rest"
  shows "scan (dump_unsigned u @ rest) = Some (value_unsigned u, rest)"
proof -
  obtain c cs where c: "nat_digits (unat u) = c # cs" "is_digit c"
    "scan_digits (number_start c) type_unsigned (cs @ rest) = Some (type_unsigned, cs, rest)"
    using scan_nat_digits [OF assms, of "unat u" type_unsigned] by auto
  have "number_enter (number_start c) type_unsigned = type_unsigned"
    using c(2) by (auto simp: number_start_def is_digit_def)
  moreover have "unat u < 2 ^ 64" using unsigned_less [of u, where 'a = nat] by simp
  then have "strtoull (c # cs) = Some u"
    using digits_val_nat_digits [of "unat u"] by (simp add: strtoull_def Let_def c(1))
  ultimately show ?thesis using c
    by (simp add: dump_unsigned_eq scan_digit scan_number_def)
qed

lemma scan_negative:
  assumes "stops rest" and "i < 0" and "fits_int64 i"
  shows "scan (dump_integer i @ rest) = Some (value_integer i, rest)"
proof -
  have "scan_digits minus type_integer (nat_digits (nat (- i)) @ rest) =
      Some (type_integer, nat_digits (nat (- i)), rest)"
    using scan_nat_digits [OF assms(1), of "nat (- i)" type_integer] by auto
  moreover have "strtoll (CHR ''-'' # nat_digits (nat (- i))) = Some i"
    using assms by (simp add: strtoll_def Let_def int_limits)
  ultimately show ?thesis using assms
    by (simp add: dump_integer_eq scan_digit scan_number_def number_start_def)
qed

section \<open>Strings\<close>

lemma or_shift: "(b AND 63) OR push_bit 6 c = b mod 64 + 64 * (c::nat)"
proof -
  have "b AND 63 = take_bit 6 b" by (simp add: take_bit_eq_mask mask_eq_exp_minus_1)
  moreover have "take_bit 6 b OR push_bit 6 c = take_bit 6 b + push_bit 6 c"
    by (rule disjunctive_add [symmetric]) (auto simp: bit_simps)
  ultimately show ?thesis by (simp add: take_bit_eq_mod push_bit_eq_mult)
qed

lemma and_255: "b < 256 \<Longrightarrow> 255 AND b = (b::nat)"
proof -
  assume "b < 256"
  have "255 AND b = take_bit 8 b" by (simp add: take_bit_eq_mask mask_eq_exp_minus_1 and.commute)
  then show ?thesis using \<open>b < 256\<close> by (simp add: take_bit_eq_mod)
qed

lemma decode_ascii: "b < 0x80 \<Longrightarrow> decode 0 cp b = (0, b)"
  by (simp add: decode_def utf8_type_def UTF8_ACCEPT_def utf8_next_def and_255)

text \<open>The continuation byte each decoder state waits for, and the state it leads to.\<close>

definition cont_range :: "nat \<Rightarrow> nat \<times> nat" where
  "cont_range st = (if st = 4 then (0xA0, 0xBF) else if st = 5 then (0x80, 0x9F)
     else if st = 6 then (0x90, 0xBF) else if st = 8 then (0x80, 0x8F) else (0x80, 0xBF))"

definition cont_next :: "nat \<Rightarrow> nat" where
  "cont_next st = (if st = 2 then 0 else if st \<le> 5 then 2 else 3)"

text \<open>The table rows, by byte class: 1 is 80..8F, 9 is 90..9F and 7 is A0..BF.\<close>

definition cont_types :: "nat \<Rightarrow> nat list" where
  "cont_types st = (if st = 4 then [7] else if st = 5 then [1, 9] else if st = 6 then [7, 9]
     else if st = 8 then [1] else [1, 7, 9])"

definition cont_row :: "nat \<Rightarrow> nat \<Rightarrow> bool" where
  "cont_row st t \<longleftrightarrow> utf8_next ! st ! t = (if t \<in> set (cont_types st) then cont_next st else UTF8_REJECT)"

lemma cont_rows: "list_all (\<lambda>st. list_all (cont_row st) [0..<12]) [2, 3, 4, 5, 6, 7, 8]"
  by code_simp

lemma utf8_type_less: "utf8_type b < 12"
  by (simp add: utf8_type_def)

lemma utf8_type_cont:
  "utf8_type b = Suc 0 \<longleftrightarrow> 0x80 \<le> b \<and> b \<le> 0x8F" "utf8_type b = 9 \<longleftrightarrow> 0x90 \<le> b \<and> b \<le> 0x9F"
  "utf8_type b = 7 \<longleftrightarrow> 0xA0 \<le> b \<and> b \<le> 0xBF"
  by (auto simp: utf8_type_def)

lemma cont_types_range:
  assumes "st \<in> {2, 3, 4, 5, 6, 7, 8}"
  shows "utf8_type b \<in> set (cont_types st) \<longleftrightarrow> fst (cont_range st) \<le> b \<and> b \<le> snd (cont_range st)"
  using assms by (auto simp: cont_types_def cont_range_def utf8_type_cont)

lemma decode_cont:
  assumes "st \<in> {2, 3, 4, 5, 6, 7, 8}"
  shows "decode st cp (byte c) =
    (if in_range (cont_range st) c then cont_next st else UTF8_REJECT, byte c mod 64 + 64 * cp)"
proof -
  have "st \<noteq> 0" using assms by auto
  moreover have "list_all (cont_row st) [0..<12]" using cont_rows assms by (auto simp del: upt_Suc)
  then have "cont_row st (utf8_type (byte c))" by (rule list_all_upt) (simp_all add: utf8_type_less)
  ultimately show ?thesis
    by (simp add: decode_def Let_def or_shift UTF8_ACCEPT_def in_range_def cont_row_def cont_types_range [OF assms])
qed

lemma dump_from_accept: "dump_escaped_from 0 cp s = dump_escaped_from 0 0 s"
  by (cases s) (simp_all add: decode_def UTF8_ACCEPT_def)

lemma dump_codepoint_wide: "128 \<le> cp \<Longrightarrow> dump_codepoint cp c = [c]"
  by (simp add: dump_codepoint_def)

lemma dump_from_2:
  assumes "dump_escaped_from 2 cp s = Inr out" and "2 \<le> cp"
  shows "\<exists>c s' out'. s = c # s' \<and> out = c # out' \<and> in_range (0x80, 0xBF) c \<and>
    dump_escaped_from 0 0 s' = Inr out'"
proof -
  obtain c s' where s: "s = c # s'" using assms(1) by (cases s) (auto simp: UTF8_ACCEPT_def)
  have r: "in_range (0x80, 0xBF) c"
    using assms(1) by (auto simp: s decode_cont cont_range_def cont_next_def UTF8_ACCEPT_def UTF8_REJECT_def split: if_splits)
  have "dump_codepoint (byte c mod 64 + 64 * cp) c = [c]"
    using assms(2) by (intro dump_codepoint_wide) simp
  then show ?thesis using assms(1) r
    dump_from_accept [of "byte c mod 64 + 64 * cp" s']
    by (auto simp: s decode_cont cont_range_def cont_next_def UTF8_ACCEPT_def bind_exn_eq_Inr)
qed

lemma dump_from_more:
  assumes "dump_escaped_from st cp s = Inr out" and "st \<in> {3, 4, 5, 6, 7, 8}"
  shows "\<exists>c s' out'. s = c # s' \<and> out = c # out' \<and> in_range (cont_range st) c \<and>
    dump_escaped_from (cont_next st) (byte c mod 64 + 64 * cp) s' = Inr out'"
proof -
  obtain c s' where s: "s = c # s'" using assms by (cases s) (auto simp: UTF8_ACCEPT_def)
  have st: "st \<in> {2, 3, 4, 5, 6, 7, 8}" and nx: "cont_next st \<noteq> 0" "cont_next st \<noteq> 1"
    using assms(2) by (auto simp: cont_next_def)
  have r: "in_range (cont_range st) c"
    using assms(1) by (auto simp: s decode_cont [OF st] UTF8_ACCEPT_def UTF8_REJECT_def split: if_splits)
  then show ?thesis using assms(1) nx
    by (auto simp: s decode_cont [OF st] UTF8_ACCEPT_def UTF8_REJECT_def bind_exn_eq_Inr)
qed

lemma cont_low_bits:
  "in_range (0xA0, 0xBF) c \<Longrightarrow> 2 \<le> byte c mod 64" "in_range (0x90, 0xBF) c \<Longrightarrow> 1 \<le> byte c mod 64"
proof -
  have "byte c mod 64 = byte c - 128" if "128 \<le> byte c" "byte c \<le> 191"
    using that mod_mult_self1 [of "byte c - 128" 2 64] by simp
  then show "in_range (0xA0, 0xBF) c \<Longrightarrow> 2 \<le> byte c mod 64" "in_range (0x90, 0xBF) c \<Longrightarrow> 1 \<le> byte c mod 64"
    by (auto simp: in_range_def)
qed

lemma dump_from_3:
  assumes "dump_escaped_from st cp s = Inr out" and "st \<in> {3, 4, 5}" and "st = 4 \<or> 1 \<le> cp"
  shows "\<exists>c d s' out'. s = c # d # s' \<and> out = c # d # out' \<and> in_range (cont_range st) c \<and>
    in_range (0x80, 0xBF) d \<and> dump_escaped_from 0 0 s' = Inr out'"
proof -
  obtain c s1 out1 where 1: "s = c # s1" "out = c # out1" "in_range (cont_range st) c"
    "dump_escaped_from 2 (byte c mod 64 + 64 * cp) s1 = Inr out1"
    using dump_from_more [OF assms(1)] assms(2) by (auto simp: cont_next_def)
  moreover have "2 \<le> byte c mod 64 + 64 * cp"
    using assms(2,3) 1(3) cont_low_bits(1) [of c] by (auto simp: cont_range_def)
  ultimately show ?thesis using dump_from_2 by fastforce
qed

lemma dump_from_6:
  assumes "dump_escaped_from st cp s = Inr out" and "st \<in> {6, 7, 8}" and "st = 6 \<or> 1 \<le> cp"
  shows "\<exists>c d e s' out'. s = c # d # e # s' \<and> out = c # d # e # out' \<and> in_range (cont_range st) c \<and>
    in_range (0x80, 0xBF) d \<and> in_range (0x80, 0xBF) e \<and> dump_escaped_from 0 0 s' = Inr out'"
proof -
  obtain c s1 out1 where 1: "s = c # s1" "out = c # out1" "in_range (cont_range st) c"
    "dump_escaped_from 3 (byte c mod 64 + 64 * cp) s1 = Inr out1"
    using dump_from_more [OF assms(1)] assms(2) by (auto simp: cont_next_def)
  moreover have "1 \<le> byte c mod 64 + 64 * cp"
    using assms(2,3) 1(3) cont_low_bits(2) [of c] by (auto simp: cont_range_def)
  ultimately obtain d e s' out' where "s1 = d # e # s'" "out1 = d # e # out'"
    "in_range (cont_range 3) d" "in_range (0x80, 0xBF) e" "dump_escaped_from 0 0 s' = Inr out'"
    using dump_from_3 [of 3] by blast
  then show ?thesis using 1 by (auto simp: cont_range_def)
qed

text \<open>What a lead byte does: the decoder's new state, and that its bits do not vanish.\<close>

definition lead_ok :: "nat \<Rightarrow> bool" where
  "lead_ok b = (case decode 0 0 b of (st, cp) \<Rightarrow>
     (case utf8_ranges b of
       None \<Rightarrow> st = 1
     | Some rs \<Rightarrow> (case rs of
           [r] \<Rightarrow> st = 2 \<and> r = (0x80, 0xBF) \<and> 2 \<le> cp
         | [r, r'] \<Rightarrow> st \<in> {3, 4, 5} \<and> r = cont_range st \<and> r' = (0x80, 0xBF) \<and> (st = 4 \<or> 1 \<le> cp)
         | [r, r', r''] \<Rightarrow> st \<in> {6, 7, 8} \<and> r = cont_range st \<and> r' = (0x80, 0xBF) \<and>
             r'' = (0x80, 0xBF) \<and> (st = 6 \<or> 1 \<le> cp)
         | _ \<Rightarrow> False)))"

lemma lead_ok_all: "list_all lead_ok [0xC2..<0xF5]"
  by code_simp

lemma lead_ok_ill_formed:
  assumes "128 \<le> b" and "b < 0xC2 \<or> 0xF5 \<le> b"
  shows "lead_ok b"
proof -
  have "utf8_type b \<in> {1, 7, 8, 9}" and "utf8_ranges b = None"
    using assms by (auto simp: utf8_type_def utf8_ranges_def)
  then show ?thesis by (auto simp: lead_ok_def decode_def utf8_next_def)
qed

lemma decode_lead: "128 \<le> byte c \<Longrightarrow> lead_ok (byte c)"
  using list_all_upt [OF lead_ok_all, of "byte c"] lead_ok_ill_formed [of "byte c"] by fastforce

text \<open>One ASCII character: what is written for it is read back as it.\<close>

lemma hex_digit_val_hex_char: "d < 16 \<Longrightarrow> hex_digit_val (hex_char d) = Some d"
  by (auto simp: hex_digit_val_def hex_char_def digit_char_def in_range_def)

lemma hex_digit_val_0: "hex_digit_val (CHR ''0'') = Some 0"
  by (simp add: hex_digit_val_def in_range_def)

lemma scan_unicode_control:
  assumes "n < 32"
  shows "scan_unicode_escape (CHR ''0'' # CHR ''0'' # hex_char (n div 16) # hex_char (n mod 16) # input) =
    Some ([char_of n], input)"
proof -
  have "n div 16 < 16" "n mod 16 < 16" using assms by simp_all
  moreover have "push_bit 4 (n div 16) + n mod 16 = n" by (simp add: push_bit_eq_mult)
  ultimately have "get_codepoint (CHR ''0'' # CHR ''0'' # hex_char (n div 16) # hex_char (n mod 16) # input) = Some (n, input)"
    by (simp add: get_codepoint_def hex_digit_val_0 hex_digit_val_hex_char)
  then show ?thesis using assms by (simp add: scan_unicode_escape_def codepoint_bytes_def)
qed

lemma byte_inj: "byte c = byte d \<Longrightarrow> c = d"
  by simp

text \<open>The characters that have a two-character escape.\<close>

definition short_escapes :: string where
  "short_escapes = [CHR 0x08, CHR 0x09, CHR 0x0A, CHR 0x0C, CHR 0x0D, CHR 0x22, CHR 0x5C]"

lemma scan_dumped_short:
  assumes "c \<in> set short_escapes"
  shows "\<exists>e. dump_codepoint (byte c) c = CHR 0x5C # e \<and> (\<forall>input. scan_char (CHR 0x5C) (e @ input) = Some ([c], input))"
proof -
  consider "c = CHR 0x08" | "c = CHR 0x09" | "c = CHR 0x0A" | "c = CHR 0x0C" | "c = CHR 0x0D" | "c = CHR 0x22" | "c = CHR 0x5C"
    using assms by (auto simp: short_escapes_def)
  then show ?thesis by cases (simp_all add: dump_codepoint_def scan_char_def)
qed

lemma not_short_escape:
  assumes "c \<notin> set short_escapes"
  shows "byte c \<notin> {0x08, 0x09, 0x0A, 0x0C, 0x0D, 0x22, 0x5C}"
proof
  assume "byte c \<in> {0x08, 0x09, 0x0A, 0x0C, 0x0D, 0x22, 0x5C}"
  then have "byte c \<in> byte ` set short_escapes" by (simp add: short_escapes_def)
  then show False using assms byte_inj by blast
qed

lemma scan_dumped_ascii:
  assumes "byte c < 128"
  shows "\<exists>d e. dump_codepoint (byte c) c = d # e \<and> d \<noteq> CHR 0x22 \<and>
    (\<forall>input. scan_char d (e @ input) = Some ([c], input))"
proof (cases "c \<in> set short_escapes")
  case True
  then show ?thesis using scan_dumped_short [OF True] by fastforce
next
  case False
  note other = not_short_escape [OF False]
  show ?thesis
  proof (cases "byte c < 32")
    case True
    then have "dump_codepoint (byte c) c = CHR 0x5C # CHR ''u'' # CHR ''0'' # CHR ''0'' #
        [hex_char (byte c div 16), hex_char (byte c mod 16)]"
      using other by (simp add: dump_codepoint_def)
    moreover have "scan_char (CHR 0x5C) (CHR ''u'' # CHR ''0'' # CHR ''0'' #
        hex_char (byte c div 16) # hex_char (byte c mod 16) # input) = Some ([c], input)" for input
      using scan_unicode_control [OF True, of input] by (simp add: scan_char_def)
    ultimately show ?thesis by simp
  next
    case ge: False
    have "c \<noteq> CHR 0x22" "c \<noteq> CHR 0x5C" using False by (auto simp: short_escapes_def)
    moreover have "dump_codepoint (byte c) c = [c]" using other ge by (simp add: dump_codepoint_def)
    moreover have "scan_char c input = Some ([c], input)" for input
      using calculation(2) ge assms by (simp add: scan_char_def)
    ultimately show ?thesis by simp
  qed
qed

lemma scan_string_step:
  assumes "d \<noteq> CHR 0x22" and "scan_char d (e @ input) = Some (bs, input)"
    and "scan_string input = Some (s, rest)"
  shows "scan_string (d # e @ input) = Some (bs @ s, rest)"
  using assms by simp

lemma scan_string_multi:
  assumes "128 \<le> byte c" and "utf8_ranges (byte c) = Some rs" and "list_all2 in_range rs cs"
    and "scan_string input = Some (s, rest)"
  shows "scan_string (c # cs @ input) = Some (c # cs @ s, rest)"
proof -
  have "next_byte_in_range rs (cs @ input) = Some (cs, input)"
    using assms(3) by (induction rs cs rule: list_all2_induct) simp_all
  moreover have "c \<noteq> CHR 0x22" "c \<noteq> CHR 0x5C" using assms(1) by auto
  ultimately have "scan_char c (cs @ input) = Some (c # cs, input)"
    using assms(1,2) by (simp add: scan_char_def)
  then show ?thesis using scan_string_step [of c cs input "c # cs"] \<open>c \<noteq> CHR 0x22\<close> assms(4) by simp
qed

lemma dump_lead_tail:
  assumes "lead_ok b" and "decode 0 0 b = (st, cp)" and "utf8_ranges b = Some rs"
    and "dump_escaped_from st cp s = Inr out"
  shows "\<exists>cs s' out'. s = cs @ s' \<and> out = cs @ out' \<and> list_all2 in_range rs cs \<and>
    dump_escaped_from 0 0 s' = Inr out'"
proof -
  consider (1) "rs = [(0x80, 0xBF)]" "st = 2" "2 \<le> cp"
    | (2) "rs = [cont_range st, (0x80, 0xBF)]" "st \<in> {3, 4, 5}" "st = 4 \<or> 1 \<le> cp"
    | (3) "rs = [cont_range st, (0x80, 0xBF), (0x80, 0xBF)]" "st \<in> {6, 7, 8}" "st = 6 \<or> 1 \<le> cp"
    using assms(1-3) unfolding lead_ok_def by (auto split: list.splits)
  then show ?thesis
  proof cases
    case 1
    obtain c s' out' where "s = [c] @ s'" "out = [c] @ out'" "list_all2 in_range rs [c]"
      "dump_escaped_from 0 0 s' = Inr out'"
      using dump_from_2 [of cp s out] assms(4) 1 by auto
    then show ?thesis by blast
  next
    case 2
    obtain c d s' out' where "s = [c, d] @ s'" "out = [c, d] @ out'" "list_all2 in_range rs [c, d]"
      "dump_escaped_from 0 0 s' = Inr out'"
      using dump_from_3 [OF assms(4) 2(2,3)] 2(1) by auto
    then show ?thesis by blast
  next
    case 3
    obtain c d e s' out' where "s = [c, d, e] @ s'" "out = [c, d, e] @ out'"
      "list_all2 in_range rs [c, d, e]" "dump_escaped_from 0 0 s' = Inr out'"
      using dump_from_6 [OF assms(4) 3(2,3)] 3(1) by auto
    then show ?thesis by blast
  qed
qed

text \<open>
  Induction over the characters of a string that the serializer accepts: each is one ASCII
  byte, or a lead byte with the continuation bytes the lexer asks for.
\<close>

lemma dump_escaped_induct [consumes 1, case_names nil ascii multi]:
  assumes "dump_escaped_from 0 0 s = Inr out" and nil: "P [] []"
    and ascii: "\<And>c s out. byte c < 128 \<Longrightarrow> P s out \<Longrightarrow> P (c # s) (dump_codepoint (byte c) c @ out)"
    and multi: "\<And>c cs rs s out. 128 \<le> byte c \<Longrightarrow> utf8_ranges (byte c) = Some rs \<Longrightarrow>
      list_all2 in_range rs cs \<Longrightarrow> P s out \<Longrightarrow> P (c # cs @ s) (c # cs @ out)"
  shows "P s out"
  using assms(1)
proof (induction s arbitrary: out rule: length_induct)
  case (1 s)
  have IH: "P s' out'" if "length s' < length s" "dump_escaped_from 0 0 s' = Inr out'" for s' out'
    using 1 that by blast
  show ?case
  proof (cases s)
    case Nil
    then show ?thesis using 1 nil by (simp add: UTF8_ACCEPT_def)
  next
    case (Cons c s1)
    show ?thesis
    proof (cases "byte c < 128")
      case True
      then obtain out1 where "dump_escaped_from 0 0 s1 = Inr out1" "out = dump_codepoint (byte c) c @ out1"
        using 1(2) dump_from_accept [of "byte c" s1]
        by (auto simp: Cons decode_ascii UTF8_ACCEPT_def bind_exn_eq_Inr)
      then show ?thesis using ascii [OF True IH] by (simp add: Cons)
    next
      case False
      obtain st cp' where dec: "decode 0 0 (byte c) = (st, cp')" by (cases "decode 0 0 (byte c)")
      have L: "lead_ok (byte c)" using False by (intro decode_lead) simp
      then have "st \<noteq> 0" by (auto simp: lead_ok_def dec split: option.splits list.splits)
      then obtain out1 where out: "out = c # out1" "dump_escaped_from st cp' s1 = Inr out1" "st \<noteq> 1"
        using 1(2) by (auto simp: Cons dec UTF8_ACCEPT_def UTF8_REJECT_def bind_exn_eq_Inr split: if_splits)
      then obtain rs where rs: "utf8_ranges (byte c) = Some rs"
        using L by (auto simp: lead_ok_def dec split: option.splits)
      obtain cs s' out' where cs: "s1 = cs @ s'" "out1 = cs @ out'" "list_all2 in_range rs cs"
        "dump_escaped_from 0 0 s' = Inr out'" using dump_lead_tail [OF L dec rs out(2)] by blast
      have "P s' out'" using cs by (intro IH) (simp_all add: Cons)
      from multi [OF _ rs cs(3) this] show ?thesis using False by (simp add: Cons out cs)
    qed
  qed
qed

lemma scan_dumped_string:
  assumes "dump_escaped_from 0 0 s = Inr out"
  shows "scan_string (out @ CHR 0x22 # rest) = Some (s, rest)"
  using assms
proof (induction rule: dump_escaped_induct)
  case (ascii c s out)
  then show ?case using scan_dumped_ascii [OF ascii(1)] scan_string_step [OF _ _ ascii(2)] by fastforce
next
  case (multi c cs rs s out)
  then show ?case using scan_string_multi [of c rs cs] by simp
qed simp

text \<open>Well-formed UTF-8, in terms of the byte ranges the lexer accepts.\<close>

inductive utf8 :: "string \<Rightarrow> bool" where
  nil: "utf8 []"
| ascii: "byte c < 128 \<Longrightarrow> utf8 s \<Longrightarrow> utf8 (c # s)"
| multi: "128 \<le> byte c \<Longrightarrow> utf8_ranges (byte c) = Some rs \<Longrightarrow> list_all2 in_range rs cs \<Longrightarrow>
    utf8 s \<Longrightarrow> utf8 (c # cs @ s)"

lemma dump_cont_ok:
  assumes "st \<in> {2, 3, 4, 5, 6, 7, 8}" and "in_range (cont_range st) c"
    and "\<And>cp. \<exists>out. dump_escaped_from (cont_next st) cp s = Inr out"
  shows "\<exists>out. dump_escaped_from st cp (c # s) = Inr out"
proof -
  obtain out where "dump_escaped_from (cont_next st) (byte c mod 64 + 64 * cp) s = Inr out"
    using assms(3) by blast
  moreover have "cont_next st \<noteq> 1" using assms(1) by (auto simp: cont_next_def)
  ultimately show ?thesis using assms(2)
    by (auto simp: decode_cont [OF assms(1)] UTF8_ACCEPT_def UTF8_REJECT_def)
qed

lemma dump_lead_tail_ok:
  assumes "lead_ok b" and "decode 0 0 b = (st, cp)" and "utf8_ranges b = Some rs"
    and "list_all2 in_range rs cs" and s: "\<exists>out. dump_escaped_from 0 0 s = Inr out"
  shows "st \<noteq> 0 \<and> st \<noteq> 1 \<and> (\<exists>out. dump_escaped_from st cp (cs @ s) = Inr out)"
proof -
  have zero_st: "\<exists>out. dump_escaped_from 0 cp s = Inr out" for cp using s dump_from_accept [of cp s] by simp
  have two: "\<exists>out. dump_escaped_from 2 cp (d # s) = Inr out" if "in_range (0x80, 0xBF) d" for d cp
    using dump_cont_ok [of 2 d s cp] zero_st that by (simp add: cont_range_def cont_next_def)
  have three: "\<exists>out. dump_escaped_from st cp (c # d # s) = Inr out"
    if "st \<in> {3, 4, 5}" "in_range (cont_range st) c" "in_range (0x80, 0xBF) d" for st c d cp
    using dump_cont_ok [of st c "d # s" cp] two [OF that(3)] that(1,2) by (auto simp: cont_next_def)
  have four: "\<exists>out. dump_escaped_from st cp (c # d # e # s) = Inr out"
    if "st \<in> {6, 7, 8}" "in_range (cont_range st) c" "in_range (0x80, 0xBF) d" "in_range (0x80, 0xBF) e" for st c d e cp
    using dump_cont_ok [of st c "d # e # s" cp] three [of 3 d e] that
    by (auto simp: cont_next_def cont_range_def)
  consider (1) "rs = [(0x80, 0xBF)]" "st = 2"
    | (2) "rs = [cont_range st, (0x80, 0xBF)]" "st \<in> {3, 4, 5}"
    | (3) "rs = [cont_range st, (0x80, 0xBF), (0x80, 0xBF)]" "st \<in> {6, 7, 8}"
    using assms(1-3) unfolding lead_ok_def by (auto split: list.splits)
  then show ?thesis
  proof cases
    case 1
    then show ?thesis using assms(4) two by (auto simp: list_all2_Cons1 simp del: dump_escaped_from.simps)
  next
    case 2
    then show ?thesis using assms(4) three by (auto simp: list_all2_Cons1 simp del: dump_escaped_from.simps)
  next
    case 3
    then show ?thesis using assms(4) four by (auto simp: list_all2_Cons1 simp del: dump_escaped_from.simps)
  qed
qed

text \<open>The serializer accepts a string exactly when it is well-formed.\<close>

lemma dump_escaped_utf8: "(\<exists>out. dump_escaped s = Inr out) \<longleftrightarrow> utf8 s"
proof
  assume "\<exists>out. dump_escaped s = Inr out"
  then obtain out where "dump_escaped_from 0 0 s = Inr out" by (auto simp: dump_escaped_def UTF8_ACCEPT_def)
  then show "utf8 s" by (induction rule: dump_escaped_induct) (auto intro: utf8.intros)
next
  assume "utf8 s"
  then have "\<exists>out. dump_escaped_from 0 0 s = Inr out"
  proof (induction rule: utf8.induct)
    case nil
    then show ?case by (simp add: UTF8_ACCEPT_def)
  next
    case (ascii c s)
    then show ?case using dump_from_accept [of "byte c" s] by (auto simp: decode_ascii UTF8_ACCEPT_def)
  next
    case (multi c rs cs s)
    obtain st cp where dec: "decode 0 0 (byte c) = (st, cp)" by (cases "decode 0 0 (byte c)")
    from dump_lead_tail_ok [OF decode_lead [OF multi(1)] dec multi(2,3,5)]
    show ?case by (auto simp: dec UTF8_ACCEPT_def UTF8_REJECT_def)
  qed
  then show "\<exists>out. dump_escaped s = Inr out" by (simp add: dump_escaped_def UTF8_ACCEPT_def)
qed

lemma dump_escaped_exn: "dump_escaped s = Inl e \<Longrightarrow> e = JsonTypeError 316"
proof -
  have "dump_escaped_from st cp s = Inl e \<Longrightarrow> e = JsonTypeError 316" for st cp
    by (induction s arbitrary: st cp) (auto simp: Let_def bind_exn_eq_Inl split: prod.splits if_splits)
  then show "dump_escaped s = Inl e \<Longrightarrow> e = JsonTypeError 316" by (auto simp: dump_escaped_def)
qed

section \<open>Values\<close>

text \<open>
  What a written value is read back as: a nonnegative number becomes unsigned whatever
  integer type it was written from. Floating point numbers are left out.
\<close>

fun reread :: "json \<Rightarrow> json" where
  "reread (JInt i) = (if i < 0 then JInt i else JUInt (word_of_int i))"
| "reread (JArray xs) = JArray (map reread xs)"
| "reread (JObject m) = JObject (map (\<lambda>(k, v). (k, reread v)) m)"
| "reread j = j"

fun float_free :: "json \<Rightarrow> bool" where
  "float_free (JFloat _) = False"
| "float_free (JArray xs) = list_all float_free xs"
| "float_free (JObject m) = list_all (\<lambda>kv. float_free (snd kv)) m"
| "float_free _ = True"

lemma scan_ws: "is_ws c \<Longrightarrow> scan (c # input) = scan input"
  by (simp add: scan_def skip_whitespace_def)

lemma scan_spaces: "scan (replicate n (CHR '' '') @ input) = scan input"
  by (induction n) (simp_all add: scan_ws is_ws_def)

lemma scan_line_start: "scan (line_start indent @ input) = scan input"
  by (cases indent) (auto simp: line_start_def scan_ws is_ws_def scan_spaces)

lemma parse_value_line_start: "parse_value stack (line_start indent @ input) = parse_value stack input"
  by (simp add: parse_value.simps scan_line_start)

lemma parse_key_line_start: "parse_key (line_start indent @ input) = parse_key input"
  by (simp add: parse_key_def scan_line_start)

lemma scan_structural:
  "scan (CHR ''['' # r) = Some (begin_array, r)" "scan (CHR '']'' # r) = Some (end_array, r)"
  "scan (CHR ''{'' # r) = Some (begin_object, r)" "scan (CHR ''}'' # r) = Some (end_object, r)"
  "scan (CHR '':'' # r) = Some (name_separator, r)" "scan (CHR '','' # r) = Some (value_separator, r)"
  by (simp_all add: scan_def skip_whitespace_def is_ws_def)

lemma scan_literals:
  "scan (''true'' @ r) = Some (literal_true, r)" "scan (''false'' @ r) = Some (literal_false, r)"
  "scan (''null'' @ r) = Some (literal_null, r)"
  by (simp_all add: scan_def skip_whitespace_def is_ws_def)

lemma scan_quoted:
  "dump_escaped s = Inr out \<Longrightarrow> scan (CHR 0x22 # out @ CHR 0x22 # r) = Some (value_string_token s, r)"
  by (simp add: scan_def skip_whitespace_def is_ws_def scan_dumped_string dump_escaped_def UTF8_ACCEPT_def)

lemma parse_scalar:
  "scan input = Some (t, rest) \<Longrightarrow> scalar t = Inr v \<Longrightarrow> parse_value stack input = end_value stack v rest"
  by (cases t) (auto simp: parse_value.simps)

lemma parse_key_dumped:
  assumes "dump_escaped k = Inr key"
  shows "parse_key (CHR 0x22 # key @ colon indent @ r) =
    Inr (k, (case indent of None \<Rightarrow> r | Some _ \<Rightarrow> CHR '' '' # r))"
  using scan_quoted [OF assms]
  by (cases indent) (simp_all add: parse_key_def parse_separator_def colon_def scan_structural)

lemma parse_value_space: "parse_value stack (CHR '' '' # input) = parse_value stack input"
  by (simp add: parse_value.simps scan_ws is_ws_def)

lemma stops_structural [simp]:
  "stops []" "stops (CHR '','' # r)" "stops (CHR '']'' # r)" "stops (CHR ''}'' # r)"
  by (simp_all add: stops_def is_digit_def is_exp_def)

lemma stops_line_start: "stops r \<Longrightarrow> stops (line_start indent @ r)"
  by (cases indent) (auto simp: stops_def line_start_def is_digit_def is_exp_def)

text \<open>A value that can be read is not a closing bracket.\<close>

lemma parse_array:
  assumes "parse_value stk r = Inr x"
  shows "parse_value stack (CHR ''['' # r) = parse_value (ArrayFrame [] # stack) r"
proof -
  have "scan r \<noteq> Some (end_array, rest)" for rest using assms by (auto simp: parse_value.simps)
  then show ?thesis
    by (auto simp: parse_value.simps [of stack] scan_structural split: option.split prod.split token.split)
qed

lemma parse_object:
  assumes "parse_key r = Inr (k, r')"
  shows "parse_value stack (CHR ''{'' # r) = parse_value (ObjectFrame [] k # stack) r'"
  using assms
  by (auto simp: parse_value.simps [of stack] scan_structural parse_key_def
      split: option.splits prod.splits token.splits)

lemma parse_empty:
  "parse_value stack (CHR ''['' # CHR '']'' # r) = end_value stack (JArray []) r"
  "parse_value stack (CHR ''{'' # CHR ''}'' # r) = end_value stack (JObject []) r"
  by (simp_all add: parse_value.simps [of stack] scan_structural)

text \<open>Members arrive in key order, so each goes to the end of the object.\<close>

lemma insert_last:
  assumes "\<forall>k' \<in> fst ` set m. str_less k' k"
  shows "om_insert_or_assign str_less k v m = m @ [(k, v)]"
  using assms
proof (induction m)
  case (Cons kv m)
  obtain k' v' where kv: "kv = (k', v')" by (cases kv)
  have "str_less k' k" using Cons.prems by (simp add: kv)
  then have "\<not> str_less k k'" using str_less_trans str_less_irrefl by blast
  then show ?case using Cons \<open>str_less k' k\<close> by (simp add: kv)
qed simp

lemma parse_dumped:
  "json_dump fl indent j = Inr out \<Longrightarrow> json_wf j \<Longrightarrow> float_free j \<Longrightarrow> stops rest \<Longrightarrow>
     parse_value stack (out @ rest) = end_value stack (reread j) rest"
  "dump_elements fl indent xs = Inr out \<Longrightarrow> list_all json_wf xs \<Longrightarrow> list_all float_free xs \<Longrightarrow> xs \<noteq> [] \<Longrightarrow>
     scan tail = Some (end_array, rest) \<Longrightarrow> stops tail \<Longrightarrow>
     parse_value (ArrayFrame ys # stack) (out @ tail) = end_value stack (JArray (ys @ map reread xs)) rest"
  "dump_members fl indent m = Inr out \<Longrightarrow> list_all (\<lambda>kv. json_wf (snd kv)) m \<Longrightarrow>
     list_all (\<lambda>kv. float_free (snd kv)) m \<Longrightarrow> m \<noteq> [] \<Longrightarrow> om_sorted str_less m \<Longrightarrow>
     \<forall>k \<in> fst ` set ms. \<forall>k' \<in> fst ` set m. str_less k k' \<Longrightarrow>
     scan tail = Some (end_object, rest) \<Longrightarrow> stops tail \<Longrightarrow>
     bind_exn (parse_key (out @ tail)) (\<lambda>(k, r). parse_value (ObjectFrame ms k # stack) r) =
       end_value stack (JObject (ms @ map (\<lambda>(k, v). (k, reread v)) m)) rest"
proof (induction fl indent j and fl indent xs and fl indent m
    arbitrary: out rest stack and out tail rest ys stack and out tail rest ms stack
    rule: json_dump_dump_elements_dump_members.induct)
  case (1 fl indent m)
  show ?case
  proof (cases "m = []")
    case True
    then show ?thesis using 1 by (auto simp: parse_empty)
  next
    case False
    then obtain mo where mo: "dump_members fl (deeper indent) m = Inr mo"
      "out = CHR ''{'' # mo @ line_start indent @ ''}''" using 1(2) by (auto simp: bind_exn_eq_Inr)
    have IH: "bind_exn (parse_key (mo @ line_start indent @ ''}'' @ rest))
        (\<lambda>(k, r). parse_value (ObjectFrame [] k # stk) r) =
      end_value stk (JObject ([] @ map (\<lambda>(k, v). (k, reread v)) m)) rest" for stk
      by (rule 1(1) [OF False mo(1)])
        (use 1 False in \<open>simp_all add: scan_line_start scan_structural stops_line_start\<close>)
    have "\<exists>k r. parse_key (mo @ line_start indent @ ''}'' @ rest) = Inr (k, r)"
      using IH [of "[]"] by (cases "parse_key (mo @ line_start indent @ ''}'' @ rest)") (auto simp: end_value.simps)
    then show ?thesis using IH [of stack] mo(2) False by (auto simp: parse_object)
  qed
next
  case (2 fl indent xs)
  show ?case
  proof (cases "xs = []")
    case True
    then show ?thesis using 2 by (auto simp: parse_empty)
  next
    case False
    then obtain eo where eo: "dump_elements fl (deeper indent) xs = Inr eo"
      "out = CHR ''['' # eo @ line_start indent @ '']''" using 2(2) by (auto simp: bind_exn_eq_Inr)
    have IH: "parse_value (ArrayFrame [] # stk) (eo @ line_start indent @ '']'' @ rest) =
      end_value stk (JArray ([] @ map reread xs)) rest" for stk
      by (rule 2(1) [OF False eo(1)])
        (use 2 False in \<open>simp_all add: scan_line_start scan_structural stops_line_start\<close>)
    have "parse_value [ArrayFrame []] (eo @ line_start indent @ '']'' @ rest) = Inr (JArray (map reread xs), rest)"
      using IH [of "[]"] by (simp add: end_value.simps)
    from parse_array [OF this] show ?thesis using IH [of stack] eo(2) False by simp
  qed
next
  case (3 fl indent s)
  then obtain o' where o': "dump_escaped s = Inr o'" "out = CHR 0x22 # o' @ [CHR 0x22]"
    by (auto simp: bind_exn_eq_Inr)
  then show ?case using scan_quoted [OF o'(1), of rest] by (simp add: parse_scalar)
next
  case (4 fl indent b)
  then show ?case
    using scan_literals [of rest] by (cases b) (auto intro: parse_scalar)
next
  case (5 fl indent i)
  show ?case
  proof (cases "i < 0")
    case True
    then show ?thesis using 5 by (auto intro!: parse_scalar scan_negative)
  next
    case False
    then have "dump_integer i = dump_unsigned (word_of_int i)"
      using 5 by (simp add: dump_integer_eq dump_unsigned_eq unat_eq_nat_uint uint_word_of_int int_limits)
    then have "scan (dump_integer i @ rest) = Some (value_unsigned (word_of_int i), rest)"
      using scan_unsigned [of rest "word_of_int i"] 5 by simp
    from parse_scalar [OF this] show ?thesis using 5 False by simp
  qed
next
  case (6 fl indent u)
  then show ?case by (auto intro!: parse_scalar scan_unsigned)
next
  case (8 fl indent)
  then show ?case using scan_literals(3) [of rest] by (auto intro: parse_scalar)
next
  case (10 fl indent x xs)
  obtain o1 os where o1: "json_dump fl indent x = Inr o1" and os: "dump_elements fl indent xs = Inr os"
    and out: "out = line_start indent @ o1 @ (if xs = [] then [] else CHR '','' # os)"
    using 10(3) by (auto simp: bind_exn_eq_Inr)
  let ?t = "(if xs = [] then [] else CHR '','' # os) @ tail"
  have "stops ?t" using 10(8) by simp
  then have start: "parse_value (ArrayFrame ys # stack) (o1 @ ?t) = end_value (ArrayFrame ys # stack) (reread x) ?t"
    using 10 o1 by simp
  show ?case
  proof (cases "xs = []")
    case True
    then show ?thesis using start 10(7) by (simp add: out parse_value_line_start end_value.simps)
  next
    case False
    have "parse_value (ArrayFrame (ys @ [reread x]) # stack) (os @ tail) =
        end_value stack (JArray ((ys @ [reread x]) @ map reread xs)) rest"
      by (rule 10(2) [OF o1 os]) (use 10 False in auto)
    then show ?thesis using start False
      by (simp add: out parse_value_line_start end_value.simps scan_structural)
  qed
next
  case (12 fl indent k v m)
  obtain key o1 os where key: "dump_escaped k = Inr key" and o1: "json_dump fl indent v = Inr o1"
    and os: "dump_members fl indent m = Inr os"
    and out: "out = line_start indent @ CHR 0x22 # key @ colon indent @ o1 @ (if m = [] then [] else CHR '','' # os)"
    using 12(3) by (auto simp: bind_exn_eq_Inr)
  let ?t = "(if m = [] then [] else CHR '','' # os) @ tail"
  have ins: "om_insert_or_assign str_less k (reread v) ms = ms @ [(k, reread v)]"
    using 12(8) by (intro insert_last) simp
  have t: "stops ?t" using 12(10) by simp
  have val: "parse_value (ObjectFrame ms k # stack) (o1 @ ?t) = end_value (ObjectFrame ms k # stack) (reread v) ?t"
    by (rule 12(1) [OF key o1 _ _ t]) (use 12 in auto)
  have start: "bind_exn (parse_key (out @ tail)) (\<lambda>(k, r). parse_value (ObjectFrame ms k # stack) r) =
      end_value (ObjectFrame ms k # stack) (reread v) ?t"
    using parse_key_dumped [OF key, of indent "o1 @ ?t"] val
    by (cases indent) (simp_all add: out parse_key_line_start parse_value_space)
  show ?case
  proof (cases "m = []")
    case True
    then show ?thesis using start 12(9) by (simp add: end_value.simps ins)
  next
    case False
    have "bind_exn (parse_key (os @ tail)) (\<lambda>(k', r). parse_value (ObjectFrame (ms @ [(k, reread v)]) k' # stack) r) =
        end_value stack (JObject ((ms @ [(k, reread v)]) @ map (\<lambda>(k, v). (k, reread v)) m)) rest"
      by (rule 12(2) [OF key o1 os]) (use 12 False in auto)
    then show ?thesis using start False by (simp add: end_value.simps scan_structural ins)
  qed
qed simp_all

text \<open>Compact output stays on one line: every newline is escaped.\<close>

lemma dump_codepoint_no_newline: "CHR 0x0A \<notin> set (dump_codepoint (byte c) c)"
  by (auto simp: dump_codepoint_def hex_char_def digit_char_def dest!: arg_cong [of _ _ byte])

lemma dump_escaped_no_newline:
  assumes "dump_escaped_from 0 0 s = Inr out"
  shows "CHR 0x0A \<notin> set out"
  using assms
proof (induction rule: dump_escaped_induct)
  case (multi c cs rs s out)
  have "list_all (\<lambda>r. 0x80 \<le> fst r) rs" using multi(2) by (auto simp: utf8_ranges_def split: if_splits)
  with multi(3) have "CHR 0x0A \<notin> set cs"
    by (induction rs cs rule: list_all2_induct) (auto simp: in_range_def)
  then show ?case using multi by auto
qed (use dump_codepoint_no_newline in auto)

lemma dump_integer_no_newline: "CHR 0x0A \<notin> set (nat_digits n)"
  using nat_digits_digits [of n] by (auto simp: list_all_iff is_digit_def)

lemma json_dump_no_newline:
  "json_dump fl indent j = Inr out \<Longrightarrow> indent = None \<Longrightarrow> json_wf j \<Longrightarrow> float_free j \<Longrightarrow> CHR 0x0A \<notin> set out"
  "dump_elements fl indent xs = Inr out \<Longrightarrow> indent = None \<Longrightarrow> list_all json_wf xs \<Longrightarrow>
     list_all float_free xs \<Longrightarrow> CHR 0x0A \<notin> set out"
  "dump_members fl indent m = Inr out \<Longrightarrow> indent = None \<Longrightarrow> list_all (\<lambda>kv. json_wf (snd kv)) m \<Longrightarrow>
     list_all (\<lambda>kv. float_free (snd kv)) m \<Longrightarrow> CHR 0x0A \<notin> set out"
proof (induction fl indent j and fl indent xs and fl indent m arbitrary: out and out and out
    rule: json_dump_dump_elements_dump_members.induct)
qed (auto simp: bind_exn_eq_Inr line_start_def deeper_def colon_def dump_escaped_def UTF8_ACCEPT_def
    dump_integer_eq dump_unsigned_eq dump_integer_no_newline dest: dump_escaped_no_newline split: if_splits)

section \<open>Properties\<close>

lemma scan_bom: "scan (CHR 0xEF # r) = None"
  by (simp add: scan_def skip_whitespace_def is_ws_def is_digit_def)

lemma json_parse_dumped:
  assumes "json_dump fl indent j = Inr out" and "json_wf j" and "float_free j"
  shows "json_parse out = Inr (reread j)"
proof -
  have pv: "parse_value [] out = Inr (reread j, [])"
    using parse_dumped(1) [OF assms, of "[]" "[]"] by (simp add: end_value.simps)
  have "skip_bom out = Some out"
  proof (cases out)
    case (Cons c r)
    have "c \<noteq> CHR 0xEF" using pv by (auto simp: Cons parse_value.simps scan_bom)
    then show ?thesis by (simp add: Cons skip_bom_def)
  qed (simp add: skip_bom_def)
  then show ?thesis by (simp add: json_parse_def pv scan_def skip_whitespace_def)
qed

text \<open>A value whose strings and keys are ASCII is always printed; \<open>json_text\<close> is its text.\<close>

fun json_ascii :: "json \<Rightarrow> bool" where
  "json_ascii (JString s) = list_all (\<lambda>c. byte c < 128) s"
| "json_ascii (JArray xs) = list_all json_ascii xs"
| "json_ascii (JObject m) = list_all (\<lambda>kv. list_all (\<lambda>c. byte c < 128) (fst kv) \<and> json_ascii (snd kv)) m"
| "json_ascii _ = True"

lemma utf8_ascii: "list_all (\<lambda>c. byte c < 128) s \<Longrightarrow> utf8 s"
  by (induction s) (auto intro: utf8.intros)

lemma json_dump_ascii:
  "json_ascii j \<Longrightarrow> \<exists>out. json_dump fl indent j = Inr out"
  "list_all json_ascii xs \<Longrightarrow> \<exists>out. dump_elements fl indent xs = Inr out"
  "list_all (\<lambda>kv. list_all (\<lambda>c. byte c < 128) (fst kv) \<and> json_ascii (snd kv)) m \<Longrightarrow>
     \<exists>out. dump_members fl indent m = Inr out"
proof (induction fl indent j and fl indent xs and fl indent m rule: json_dump_dump_elements_dump_members.induct)
  case (3 fl indent s)
  then obtain out where "dump_escaped s = Inr out" using dump_escaped_utf8 [of s] utf8_ascii by auto
  then show ?case by simp
next
  case (12 fl indent k v m)
  then obtain key where k: "dump_escaped k = Inr key" using dump_escaped_utf8 [of k] utf8_ascii by auto
  with 12 obtain out where v: "json_dump fl indent v = Inr out" by auto
  with 12(2) [OF k v] 12(3) obtain outs where "dump_members fl indent m = Inr outs" by auto
  then show ?case using k v by simp
next
  case (10 fl indent x xs)
  then obtain out outs where "json_dump fl indent x = Inr out" "dump_elements fl indent xs = Inr outs" by auto
  then show ?case by simp
qed auto

definition json_text :: "json \<Rightarrow> string" where
  "json_text j = (case json_dump (\<lambda>_. []) None j of Inr text \<Rightarrow> text | Inl _ \<Rightarrow> [])"

lemma json_parse_text:
  assumes "json_ascii j" and "json_wf j" and "float_free j"
  shows "json_parse (json_text j) = Inr (reread j)"
proof -
  obtain out where out: "json_dump (\<lambda>_. []) None j = Inr out" using json_dump_ascii(1) [OF assms(1)] by blast
  then show ?thesis using json_parse_dumped [OF out assms(2,3)] by (simp add: json_text_def)
qed

text \<open>C22. Whatever JSON value without floating point numbers the serializer prints, compact
  or indented, parsing the text gives the value back: strings byte for byte, integers with
  their value (a nonnegative one as an unsigned number), arrays and objects entry for entry.\<close>

theorem json_dump_parse:
  assumes "json_dump fl indent j = Inr out" and "json_wf j" and "float_free j"
  shows "json_parse out = Inr (reread j)"
  using assms by (rule json_parse_dumped)

theorem json_dump_parse_witness:
  "json_parse ''{\<newline>  \"a\": [\<newline>    -5,\<newline>    7\<newline>  ]\<newline>}'' = Inr (JObject [(''a'', JArray [JInt (- 5), JUInt 7])])"
proof -
  have "json_dump (\<lambda>_. []) (Some (2, 0)) (JObject [(''a'', JArray [JInt (- 5), JInt 7])]) =
      Inr ''{\<newline>  \"a\": [\<newline>    -5,\<newline>    7\<newline>  ]\<newline>}''"
    by code_simp
  from json_dump_parse [OF this] show ?thesis by (simp add: int_limits)
qed

end
