(* ===== verification/RawEvents.thy ===== *)
theory RawEvents
  imports JsonRoundTrip MarketData
begin

text \<open>
  Recording and reading raw messages: \<open>include/recording/raw_message.hpp\<close>,
  \<open>src/recording/raw_event_recorder.cpp\<close> and \<open>src/recording/raw_event_reader.cpp\<close>. A file
  is a byte string. What a device may do to a stream operation is an explicit argument: a
  \<open>fault\<close> lets only the first bytes of a write through and makes the stream bad.
\<close>

record raw_message =
  rm_record_index :: uint64
  rm_venue :: venue
  rm_connection_id :: uint64
  rm_receive_wall_time :: receive_wall_timestamp
  rm_receive_monotonic_time :: receive_monotonic_timestamp
  rm_payload :: string

section \<open>Output streams\<close>

datatype fault = NoFault | FaultAfter nat

record ofstream =
  os_open :: bool
  os_good :: bool
  os_bytes :: string

definition os_write :: "fault \<Rightarrow> string \<Rightarrow> ofstream \<Rightarrow> ofstream" where
  "os_write f text s =
     (if \<not> os_good s then s
      else case f of
          NoFault \<Rightarrow> s\<lparr>os_bytes := os_bytes s @ text\<rparr>
        | FaultAfter n \<Rightarrow> s\<lparr>os_bytes := os_bytes s @ take n text, os_good := False\<rparr>)"

definition os_flush :: "fault \<Rightarrow> ofstream \<Rightarrow> ofstream" where
  "os_flush f s = (if f = NoFault then s else s\<lparr>os_good := False\<rparr>)"

section \<open>The recorder\<close>

record recorder =
  rc_output :: ofstream
  rc_next_record_index :: uint64

text \<open>
  The constructor refuses an existing file; \<open>opens\<close> says whether the file system lets the
  new file be created.
\<close>

definition RawEventRecorder :: "bool \<Rightarrow> bool \<Rightarrow> recorder" where
  "RawEventRecorder file_exists opens =
     \<lparr>rc_output = \<lparr>os_open = \<not> file_exists \<and> opens, os_good = file_exists \<or> opens, os_bytes = []\<rparr>,
      rc_next_record_index = 0\<rparr>"

fun venue_text :: "venue \<Rightarrow> string" where
  "venue_text Coinbase = ''coinbase''"
| "venue_text Kraken = ''kraken''"

text \<open>The JSON object of one record; the assignments build it key by key.\<close>

definition record_json :: "raw_message \<Rightarrow> json" where
  "record_json m = JObject
     (om_insert_or_assign str_less ''payload'' (JString (rm_payload m))
     (om_insert_or_assign str_less ''receive_monotonic_ns'' (JInt (rm_receive_monotonic_time m))
     (om_insert_or_assign str_less ''receive_wall_ns'' (JInt (rm_receive_wall_time m))
     (om_insert_or_assign str_less ''connection_id'' (JUInt (rm_connection_id m))
     (om_insert_or_assign str_less ''venue'' (JString (venue_text (rm_venue m)))
     (om_insert_or_assign str_less ''record_index'' (JUInt (rm_record_index m))
     (om_insert_or_assign str_less ''format_version'' (JInt 1) [])))))))"

definition recorder_append ::
  "(double \<Rightarrow> string) \<Rightarrow> fault \<Rightarrow> fault \<Rightarrow> fault \<Rightarrow> raw_message \<Rightarrow> recorder \<Rightarrow> bool result \<times> recorder" where
  "recorder_append fl f_line f_newline f_flush m r =
     (if \<not> os_open (rc_output r) \<or> \<not> os_good (rc_output r) then (Inr False, r)
      else case json_dump fl None (record_json (m\<lparr>rm_record_index := rc_next_record_index r\<rparr>)) of
          Inl e \<Rightarrow> (Inl e, r)
        | Inr line \<Rightarrow>
            let out = os_write f_newline [CHR 0x0A] (os_write f_line line (rc_output r)) in
            if \<not> os_good out then (Inr False, r\<lparr>rc_output := out\<rparr>)
            else let out = os_flush f_flush out in
              if \<not> os_good out then (Inr False, r\<lparr>rc_output := out\<rparr>)
              else (Inr True, \<lparr>rc_output = out, rc_next_record_index = rc_next_record_index r + 1\<rparr>))"

definition recorder_flush :: "fault \<Rightarrow> recorder \<Rightarrow> bool \<times> recorder" where
  "recorder_flush f r =
     (if \<not> os_open (rc_output r) then (False, r)
      else let out = os_flush f (rc_output r) in (os_good out, r\<lparr>rc_output := out\<rparr>))"

definition recorder_close :: "fault \<Rightarrow> fault \<Rightarrow> recorder \<Rightarrow> bool \<times> recorder" where
  "recorder_close f f_close r =
     (if \<not> os_open (rc_output r) then (False, r)
      else let out = os_flush f_close (os_flush f (rc_output r)) in
        (os_good out, r\<lparr>rc_output := out\<lparr>os_open := False\<rparr>\<rparr>))"

section \<open>The reader\<close>

record ifstream =
  is_open :: bool
  is_rest :: string
  is_eof :: bool
  is_fail :: bool

definition is_good :: "ifstream \<Rightarrow> bool" where
  "is_good s \<longleftrightarrow> \<not> is_eof s \<and> \<not> is_fail s"

text \<open>
  \<open>std::getline\<close>: the bytes up to the newline, which is consumed. Reaching the end of the
  file sets eof; extracting nothing then sets fail too. \<open>bad\<close> is a device read error.
\<close>

definition getline :: "bool \<Rightarrow> ifstream \<Rightarrow> string option \<times> ifstream" where
  "getline bad s =
     (let line = takeWhile (\<lambda>c. c \<noteq> CHR 0x0A) (is_rest s);
          after = dropWhile (\<lambda>c. c \<noteq> CHR 0x0A) (is_rest s)
      in if bad then (None, s\<lparr>is_fail := True\<rparr>)
         else if after \<noteq> [] then (Some line, s\<lparr>is_rest := tl after\<rparr>)
         else if line = [] then (None, s\<lparr>is_rest := [], is_eof := True, is_fail := True\<rparr>)
         else (Some line, s\<lparr>is_rest := [], is_eof := True\<rparr>))"

record reader =
  rd_input :: ifstream
  rd_last_error :: string
  rd_expected_index :: uint64

definition RawEventReader :: "string option \<Rightarrow> reader" where
  "RawEventReader file =
     (case file of
        None \<Rightarrow> \<lparr>rd_input = \<lparr>is_open = False, is_rest = [], is_eof = False, is_fail = True\<rparr>,
                 rd_last_error = ''failed to open input file'', rd_expected_index = 0\<rparr>
      | Some bytes \<Rightarrow> \<lparr>rd_input = \<lparr>is_open = True, is_rest = bytes, is_eof = False, is_fail = False\<rparr>,
                       rd_last_error = [], rd_expected_index = 0\<rparr>)"

definition required_fields :: "string list" where
  "required_fields = [''record_index'', ''venue'', ''connection_id'', ''receive_wall_ns'',
     ''receive_monotonic_ns'', ''payload'']"

text \<open>\<open>j[key]\<close> where the caller has checked that the key is present.\<close>

definition json_field :: "json \<Rightarrow> string \<Rightarrow> json" where
  "json_field j key = (case json_find key j of Some v \<Rightarrow> v | None \<Rightarrow> JNull)"

definition timestamp_overflows :: "json \<Rightarrow> bool" where
  "timestamp_overflows v = (case v of JUInt u \<Rightarrow> uint u > INT64_MAX | _ \<Rightarrow> False)"

definition field_types_ok :: "json \<Rightarrow> bool" where
  "field_types_ok j \<longleftrightarrow>
     is_number_unsigned (json_field j ''record_index'') \<and>
     is_number_unsigned (json_field j ''connection_id'') \<and>
     is_number_integer (json_field j ''receive_wall_ns'') \<and>
     is_number_integer (json_field j ''receive_monotonic_ns'') \<and>
     is_string (json_field j ''venue'') \<and> is_string (json_field j ''payload'')"

definition venue_of_text :: "string \<Rightarrow> venue option" where
  "venue_of_text s =
     (if s = ''coinbase'' then Some Coinbase else if s = ''kraken'' then Some Kraken else None)"

text \<open>The checks on one parsed line, in order; \<open>Inl\<close> is the text of the error.\<close>

definition decode_record :: "uint64 \<Rightarrow> json \<Rightarrow> string + raw_message" where
  "decode_record expected_index j =
     (if \<not> json_contains j ''format_version'' \<or> \<not> is_number_unsigned (json_field j ''format_version'') \<or>
         \<not> json_eq (json_field j ''format_version'') (JInt 1)
      then Inl ''unsupported or missing format_version''
      else case find (\<lambda>f. \<not> json_contains j f) required_fields of
          Some f \<Rightarrow> Inl (''missing field: '' @ f)
        | None \<Rightarrow>
            if \<not> field_types_ok j then Inl ''invalid raw record field type''
            else if timestamp_overflows (json_field j ''receive_wall_ns'') \<or>
                    timestamp_overflows (json_field j ''receive_monotonic_ns'')
            then Inl ''raw timestamp out of range''
            else
              (case (get_uint64 (json_field j ''record_index''), get_string (json_field j ''venue''),
                     get_uint64 (json_field j ''connection_id''),
                     get_int64 (json_field j ''receive_wall_ns''),
                     get_int64 (json_field j ''receive_monotonic_ns''),
                     get_string (json_field j ''payload'')) of
                 (Inr record_index, Inr venue_s, Inr cid, Inr wall_ns, Inr mono_ns, Inr payload) \<Rightarrow>
                   if record_index \<noteq> expected_index
                   then Inl (''noncontiguous record index: expected '' @ nat_digits (unat expected_index) @
                             '' got '' @ nat_digits (unat record_index))
                   else (case venue_of_text venue_s of
                           None \<Rightarrow> Inl ''unknown venue''
                         | Some v \<Rightarrow> Inr \<lparr>rm_record_index = record_index, rm_venue = v, rm_connection_id = cid,
                                          rm_receive_wall_time = wall_ns, rm_receive_monotonic_time = mono_ns,
                                          rm_payload = payload\<rparr>)
               | _ \<Rightarrow> Inl ''invalid raw record field type''))"

definition reader_next :: "bool \<Rightarrow> reader \<Rightarrow> raw_message option \<times> reader" where
  "reader_next bad rd =
     (if \<not> is_open (rd_input rd) \<or> \<not> is_good (rd_input rd)
      then (None, if rd_last_error rd = [] then rd\<lparr>rd_last_error := ''input stream not open''\<rparr> else rd)
      else case getline bad (rd_input rd) of
          (None, input) \<Rightarrow>
            if is_eof input then (None, rd\<lparr>rd_input := input\<rparr>)
            else (None, rd\<lparr>rd_input := input, rd_last_error := ''failed to read line''\<rparr>)
        | (Some line, input) \<Rightarrow>
            let rd = rd\<lparr>rd_input := input\<rparr> in
            if is_eof input
            then (None, rd\<lparr>rd_last_error := ''truncated JSONL: missing final newline''\<rparr>)
            else (case json_parse line of
                Inl e \<Rightarrow> (None, rd\<lparr>rd_last_error := ''json parse error: '' @ what e\<rparr>)
              | Inr j \<Rightarrow>
                  (case decode_record (rd_expected_index rd) j of
                     Inl err \<Rightarrow> (None, rd\<lparr>rd_last_error := err\<rparr>)
                   | Inr m \<Rightarrow> (Some m, rd\<lparr>rd_expected_index := rd_expected_index rd + 1\<rparr>))))"

definition has_error :: "reader \<Rightarrow> bool" where
  "has_error rd \<longleftrightarrow> rd_last_error rd \<noteq> []"

section \<open>One record\<close>

text \<open>The timestamps are 64 bit integers.\<close>

definition message_ok :: "raw_message \<Rightarrow> bool" where
  "message_ok m \<longleftrightarrow> fits_int64 (rm_receive_wall_time m) \<and> fits_int64 (rm_receive_monotonic_time m)"

text \<open>The bytes of one record with its newline; empty when the serializer refuses the payload.\<close>

definition record_line :: "(double \<Rightarrow> string) \<Rightarrow> raw_message \<Rightarrow> string" where
  "record_line fl m =
     (case json_dump fl None (record_json m) of Inl _ \<Rightarrow> [] | Inr line \<Rightarrow> line @ [CHR 0x0A])"

definition recordable :: "(double \<Rightarrow> string) \<Rightarrow> raw_message \<Rightarrow> bool" where
  "recordable fl m \<longleftrightarrow> message_ok m \<and> (\<exists>line. json_dump fl None (record_json m) = Inr line)"

lemma record_json_eq:
  "record_json m = JObject
     [(''connection_id'', JUInt (rm_connection_id m)), (''format_version'', JInt 1),
      (''payload'', JString (rm_payload m)), (''receive_monotonic_ns'', JInt (rm_receive_monotonic_time m)),
      (''receive_wall_ns'', JInt (rm_receive_wall_time m)), (''record_index'', JUInt (rm_record_index m)),
      (''venue'', JString (venue_text (rm_venue m)))]"
  by (simp add: record_json_def)

lemma record_json_wf: "message_ok m \<Longrightarrow> json_wf (record_json m) \<and> float_free (record_json m)"
  by (simp add: record_json_eq message_ok_def int_limits)

lemma venue_of_venue_text [simp]: "venue_of_text (venue_text v) = Some v"
  by (cases v) (simp_all add: venue_of_text_def)

lemma int64_word:
  assumes "fits_int64 i"
  shows "sint (word_of_int i :: uint64) = i" and "0 \<le> i \<Longrightarrow> uint (word_of_int i :: uint64) = i"
proof -
  show "sint (word_of_int i :: uint64) = i"
    using assms by (subst sint_sbintrunc') (simp add: int_limits signed_take_bit_int_eq_self)
  show "0 \<le> i \<Longrightarrow> uint (word_of_int i :: uint64) = i"
    using assms by (subst uint_word_of_int) (simp add: int_limits)
qed

lemma json_field_reread:
  "json_field (reread (record_json m)) ''record_index'' = JUInt (rm_record_index m)"
  "json_field (reread (record_json m)) ''connection_id'' = JUInt (rm_connection_id m)"
  "json_field (reread (record_json m)) ''format_version'' = JUInt 1"
  "json_field (reread (record_json m)) ''venue'' = JString (venue_text (rm_venue m))"
  "json_field (reread (record_json m)) ''payload'' = JString (rm_payload m)"
  "json_field (reread (record_json m)) ''receive_wall_ns'' = reread (JInt (rm_receive_wall_time m))"
  "json_field (reread (record_json m)) ''receive_monotonic_ns'' = reread (JInt (rm_receive_monotonic_time m))"
  by (simp_all add: json_field_def record_json_eq om_find_def)

lemma record_contains:
  "f \<in> set (''format_version'' # required_fields) \<Longrightarrow> json_contains (reread (record_json m)) f"
  by (auto simp: json_contains_def record_json_eq om_find_def required_fields_def)

lemma reread_int:
  assumes "fits_int64 i"
  shows "get_int64 (reread (JInt i)) = Inr i" and "\<not> timestamp_overflows (reread (JInt i))"
    and "is_number_integer (reread (JInt i))"
  using assms int64_word [OF assms]
  by (auto simp: timestamp_overflows_def INT64_MAX_def fits_int64_def)

text \<open>Decoding the record that was written gives the message, provided the index is the next one.\<close>

lemma decode_record_json:
  assumes "message_ok m" and "rm_record_index m = idx"
  shows "decode_record idx (reread (record_json m)) = Inr m"
proof -
  have "find (\<lambda>f. \<not> json_contains (reread (record_json m)) f) required_fields = None"
    using record_contains by (auto simp: find_None_iff)
  moreover have "json_contains (reread (record_json m)) ''format_version''" using record_contains by simp
  moreover have wall: "fits_int64 (rm_receive_wall_time m)" and mono: "fits_int64 (rm_receive_monotonic_time m)"
    using assms(1) by (simp_all add: message_ok_def)
  ultimately show ?thesis
    using assms(2) reread_int [OF wall] reread_int [OF mono]
    by (simp add: decode_record_def json_field_reread field_types_ok_def del: reread.simps)
qed

section \<open>Whole files\<close>

text \<open>The loop of a client that reads until nothing is returned.\<close>

lemma getline_shorter:
  "getline bad s = (Some line, s') \<Longrightarrow> \<not> is_eof s' \<Longrightarrow> length (is_rest s') < length (is_rest s)"
proof -
  assume g: "getline bad s = (Some line, s')" and e: "\<not> is_eof s'"
  let ?a = "dropWhile (\<lambda>c. c \<noteq> CHR 0x0A) (is_rest s)"
  have "?a \<noteq> []" and "is_rest s' = tl ?a" using g e by (auto simp: getline_def Let_def split: if_splits)
  moreover have "length ?a \<le> length (is_rest s)" by (rule length_dropWhile_le)
  ultimately show ?thesis by (cases ?a) simp_all
qed

lemma reader_next_shorter:
  assumes "reader_next False rd = (Some m, rd')"
  shows "length (is_rest (rd_input rd')) < length (is_rest (rd_input rd))"
  using assms
  by (auto simp: reader_next_def Let_def split: if_splits prod.splits option.splits sum.splits
      dest!: getline_shorter)

function read_all :: "reader \<Rightarrow> raw_message list \<times> reader" where
  "read_all rd =
     (case reader_next False rd of
        (None, rd') \<Rightarrow> ([], rd')
      | (Some m, rd') \<Rightarrow> (case read_all rd' of (ms, rd'') \<Rightarrow> (m # ms, rd'')))"
  by pat_completeness auto
termination
  by (relation "measure (\<lambda>rd. length (is_rest (rd_input rd)))") (simp, metis in_measure reader_next_shorter)

declare read_all.simps [simp del]

lemma reader_next_line:
  assumes "recordable fl m" and "is_open (rd_input rd)" and "is_good (rd_input rd)"
    and "is_rest (rd_input rd) = record_line fl m @ rest" and "rd_expected_index rd = rm_record_index m"
  shows "reader_next False rd =
    (Some m, rd\<lparr>rd_input := (rd_input rd)\<lparr>is_rest := rest\<rparr>, rd_expected_index := rm_record_index m + 1\<rparr>)"
proof -
  obtain line where line: "json_dump fl None (record_json m) = Inr line" and ok: "message_ok m"
    using assms(1) by (auto simp: recordable_def)
  note wf = record_json_wf [OF ok, THEN conjunct1] record_json_wf [OF ok, THEN conjunct2]
  have "CHR 0x0A \<notin> set line" using json_dump_no_newline(1) [OF line _ wf] by simp
  then have "getline False (rd_input rd) = (Some line, (rd_input rd)\<lparr>is_rest := rest\<rparr>)"
    using assms(4) by (simp add: getline_def record_line_def line takeWhile_until dropWhile_until)
  moreover have "json_parse line = Inr (reread (record_json m))" by (rule json_parse_dumped [OF line wf])
  moreover have "decode_record (rd_expected_index rd) (reread (record_json m)) = Inr m"
    using decode_record_json [OF ok] assms(5) by simp
  ultimately show ?thesis using assms(2,3,5) by (simp add: reader_next_def is_good_def)
qed

text \<open>A reader at the start of an open file, expecting index \<open>i\<close>.\<close>

definition reader_at :: "string \<Rightarrow> uint64 \<Rightarrow> reader" where
  "reader_at bytes i = \<lparr>rd_input = \<lparr>is_open = True, is_rest = bytes, is_eof = False, is_fail = False\<rparr>,
     rd_last_error = [], rd_expected_index = i\<rparr>"

lemma RawEventReader_at: "RawEventReader (Some bytes) = reader_at bytes 0"
  by (simp add: RawEventReader_def reader_at_def)

text \<open>Messages numbered consecutively from \<open>i\<close>.\<close>

fun indexed_from :: "uint64 \<Rightarrow> raw_message list \<Rightarrow> bool" where
  "indexed_from i [] = True"
| "indexed_from i (m # ms) = (rm_record_index m = i \<and> indexed_from (i + 1) ms)"

definition file_of :: "(double \<Rightarrow> string) \<Rightarrow> raw_message list \<Rightarrow> string" where
  "file_of fl ms = concat (map (record_line fl) ms)"

lemma file_of_simps [simp]:
  "file_of fl [] = []" "file_of fl (m # ms) = record_line fl m @ file_of fl ms"
  "file_of fl (ms @ ms') = file_of fl ms @ file_of fl ms'"
  by (simp_all add: file_of_def)

lemma indexed_from_append:
  "indexed_from i (ms @ ms') \<longleftrightarrow> indexed_from i ms \<and> indexed_from (i + of_nat (length ms)) ms'"
  by (induction ms arbitrary: i) (auto simp: algebra_simps)

lemma read_all_file:
  assumes "list_all (recordable fl) ms" and "indexed_from i ms"
  shows "read_all (reader_at (file_of fl ms @ rest) i) =
    (case read_all (reader_at rest (i + of_nat (length ms))) of (ms', rd) \<Rightarrow> (ms @ ms', rd))"
  using assms
proof (induction ms arbitrary: i)
  case Nil
  then show ?case by (simp split: prod.split)
next
  case (Cons m ms)
  have "reader_next False (reader_at (file_of fl (m # ms) @ rest) i) =
      (Some m, reader_at (file_of fl ms @ rest) (i + 1))"
    using reader_next_line [of fl m "reader_at (file_of fl (m # ms) @ rest) i"] Cons.prems
    by (simp add: reader_at_def is_good_def)
  then show ?case using Cons
    by (simp add: read_all.simps [of "reader_at (record_line fl m @ file_of fl ms @ rest) i"]
        algebra_simps split: prod.split)
qed

lemma read_all_stop:
  "fst (reader_next False rd) = None \<Longrightarrow> read_all rd = ([], snd (reader_next False rd))"
  by (cases "reader_next False rd") (simp add: read_all.simps [of rd])

text \<open>Without a newline nothing is returned: the end of the file, or a truncated line.\<close>

lemma read_all_no_newline:
  assumes "CHR 0x0A \<notin> set bytes"
  shows "read_all (reader_at bytes i) =
    ([], (reader_at [] i)\<lparr>rd_input := \<lparr>is_open = True, is_rest = [], is_eof = True, is_fail = bytes = []\<rparr>,
       rd_last_error := if bytes = [] then [] else ''truncated JSONL: missing final newline''\<rparr>)"
proof -
  have cut: "dropWhile (\<lambda>c. c \<noteq> CHR 0x0A) bytes = []" "takeWhile (\<lambda>c. c \<noteq> CHR 0x0A) bytes = bytes"
    using assms by (auto simp: dropWhile_eq_Nil_conv takeWhile_eq_all_conv)
  have "reader_next False (reader_at bytes i) =
      (None, (reader_at [] i)\<lparr>rd_input := \<lparr>is_open = True, is_rest = [], is_eof = True, is_fail = bytes = []\<rparr>,
       rd_last_error := if bytes = [] then [] else ''truncated JSONL: missing final newline''\<rparr>)"
    by (simp add: reader_next_def reader_at_def is_good_def getline_def Let_def cut)
  then show ?thesis using read_all_stop [of "reader_at bytes i"] by simp
qed

text \<open>What remains of a record that was cut short by a device fault.\<close>

lemma read_all_tail:
  assumes "recordable fl m" and "rm_record_index m = i"
  shows "fst (read_all (reader_at (take n (record_line fl m)) i)) \<in> {[], [m]}"
proof -
  obtain line where line: "json_dump fl None (record_json m) = Inr line" and ok: "message_ok m"
    using assms(1) by (auto simp: recordable_def)
  have nl: "CHR 0x0A \<notin> set line"
    using json_dump_no_newline(1) [OF line] record_json_wf [OF ok] by simp
  show ?thesis
  proof (cases "n \<le> length line")
    case True
    then have t: "take n (record_line fl m) = take n line" by (simp add: record_line_def line)
    have "CHR 0x0A \<notin> set (take n line)" using nl in_set_takeD by fast
    then show ?thesis using read_all_no_newline by (simp add: t)
  next
    case False
    then have t: "take n (record_line fl m) = file_of fl [m] @ []" by (simp add: record_line_def line)
    show ?thesis using read_all_file [of fl "[m]" i "[]"] assms read_all_no_newline [of "[]" "i + 1"]
      by (simp add: t)
  qed
qed

section \<open>Recording sessions\<close>

text \<open>
  A run of \<open>append\<close> calls, each with the faults its three stream operations meet; the
  messages for which \<open>append\<close> answered true, with the index they were written under.
\<close>

type_synonym append_call = "(fault \<times> fault \<times> fault) \<times> raw_message"

fun append_all :: "(double \<Rightarrow> string) \<Rightarrow> append_call list \<Rightarrow> recorder \<Rightarrow> raw_message list \<times> recorder" where
  "append_all fl [] r = ([], r)"
| "append_all fl (((f1, f2, f3), m) # calls) r =
     (case recorder_append fl f1 f2 f3 m r of
        (res, r') \<Rightarrow>
          (case append_all fl calls r' of
             (ms, r'') \<Rightarrow>
               ((if res = Inr True then m\<lparr>rm_record_index := rc_next_record_index r\<rparr> # ms else ms), r'')))"

text \<open>The recorder's file holds the accepted records, and after a fault part of one more.\<close>

definition recorder_inv :: "(double \<Rightarrow> string) \<Rightarrow> raw_message list \<Rightarrow> recorder \<Rightarrow> bool" where
  "recorder_inv fl ms r \<longleftrightarrow>
     list_all (recordable fl) ms \<and> indexed_from 0 ms \<and>
     (if os_good (rc_output r) then os_bytes (rc_output r) = file_of fl ms \<and> rc_next_record_index r = of_nat (length ms)
      else \<exists>m n. recordable fl m \<and> rm_record_index m = of_nat (length ms) \<and>
        os_bytes (rc_output r) = file_of fl ms @ take n (record_line fl m))"

lemma os_write_two:
  assumes "os_good s"
  shows "\<exists>n. os_bytes (os_write f2 [c] (os_write f1 line s)) = os_bytes s @ take n (line @ [c])"
    and "os_good (os_write f2 [c] (os_write f1 line s)) \<Longrightarrow>
      os_bytes (os_write f2 [c] (os_write f1 line s)) = os_bytes s @ line @ [c]"
proof -
  show "\<exists>n. os_bytes (os_write f2 [c] (os_write f1 line s)) = os_bytes s @ take n (line @ [c])"
  proof (cases f1)
    case NoFault
    show ?thesis
    proof (cases f2)
      case NoFault
      then show ?thesis using assms \<open>f1 = NoFault\<close>
        by (intro exI [of _ "Suc (length line)"]) (simp add: os_write_def)
    next
      case (FaultAfter k)
      then show ?thesis using assms \<open>f1 = NoFault\<close>
        by (intro exI [of _ "length line + k"]) (simp add: os_write_def)
    qed
  next
    case (FaultAfter k)
    then show ?thesis using assms
      by (intro exI [of _ "min k (length line)"]) (simp add: os_write_def min_def)
  qed
  show "os_good (os_write f2 [c] (os_write f1 line s)) \<Longrightarrow>
      os_bytes (os_write f2 [c] (os_write f1 line s)) = os_bytes s @ line @ [c]"
    using assms by (auto simp: os_write_def split: fault.splits if_splits)
qed

lemma recorder_append_inv:
  assumes "recorder_inv fl ms r" and "message_ok m" and "recorder_append fl f1 f2 f3 m r = (res, r')"
  shows "recorder_inv fl (if res = Inr True then ms @ [m\<lparr>rm_record_index := rc_next_record_index r\<rparr>] else ms) r'"
proof (cases "os_open (rc_output r) \<and> os_good (rc_output r)")
  case False
  then show ?thesis using assms by (auto simp: recorder_append_def)
next
  case True
  let ?m = "m\<lparr>rm_record_index := rc_next_record_index r\<rparr>"
  show ?thesis
  proof (cases "json_dump fl None (record_json ?m)")
    case (Inl e)
    then show ?thesis using assms True by (auto simp: recorder_append_def)
  next
    case (Inr line)
    have rec: "recordable fl ?m" using Inr assms(2) by (simp add: recordable_def message_ok_def)
    have line: "record_line fl ?m = line @ [CHR 0x0A]" by (simp add: record_line_def Inr)
    have idx: "rc_next_record_index r = of_nat (length ms)" and bytes: "os_bytes (rc_output r) = file_of fl ms"
      using assms(1) True by (simp_all add: recorder_inv_def)
    define out where "out = os_write f2 [CHR 0x0A] (os_write f1 line (rc_output r))"
    obtain n where part: "os_bytes out = file_of fl ms @ take n (record_line fl ?m)"
      using os_write_two(1) [of "rc_output r" f2 "CHR 0x0A" f1 line] True by (auto simp: out_def bytes line)
    have full: "os_bytes out = file_of fl ms @ record_line fl ?m" if "os_good out"
      using os_write_two(2) [of "rc_output r" f2 "CHR 0x0A" f1 line] True that by (simp add: out_def bytes line)
    have res: "(res, r') =
        (if \<not> os_good out then (Inr False, r\<lparr>rc_output := out\<rparr>)
         else if \<not> os_good (os_flush f3 out) then (Inr False, r\<lparr>rc_output := os_flush f3 out\<rparr>)
         else (Inr True, \<lparr>rc_output = os_flush f3 out, rc_next_record_index = rc_next_record_index r + 1\<rparr>))"
      using assms(3) True by (simp add: recorder_append_def Inr Let_def out_def [symmetric] eq_commute)
    consider "\<not> os_good out" "res = Inr False" "r' = r\<lparr>rc_output := out\<rparr>"
      | "os_good out" "f3 \<noteq> NoFault" "res = Inr False" "r' = r\<lparr>rc_output := out\<lparr>os_good := False\<rparr>\<rparr>"
      | "os_good out" "res = Inr True" "r' = \<lparr>rc_output = out, rc_next_record_index = rc_next_record_index r + 1\<rparr>"
      using res by (auto simp: os_flush_def split: if_splits)
    then show ?thesis
    proof cases
      case 1
      then show ?thesis using assms(1) rec part idx
        by (auto simp: recorder_inv_def intro!: exI [of _ ?m] exI [of _ n])
    next
      case 2
      then show ?thesis using assms(1) rec full idx
        by (auto simp: recorder_inv_def intro!: exI [of _ ?m] exI [of _ "length (record_line fl ?m)"])
    next
      case 3
      then show ?thesis using assms(1) rec full idx
        by (simp add: recorder_inv_def indexed_from_append)
    qed
  qed
qed

lemma append_all_inv:
  assumes "recorder_inv fl ms r" and "list_all (\<lambda>c. message_ok (snd c)) calls"
    and "append_all fl calls r = (acc, r')"
  shows "recorder_inv fl (ms @ acc) r'"
  using assms
proof (induction calls arbitrary: ms r acc)
  case Nil
  then show ?case by simp
next
  case (Cons call calls)
  obtain f1 f2 f3 m where call: "call = ((f1, f2, f3), m)" by (cases call) auto
  obtain res r1 where r1: "recorder_append fl f1 f2 f3 m r = (res, r1)"
    by (cases "recorder_append fl f1 f2 f3 m r")
  obtain acc1 where rest: "append_all fl calls r1 = (acc1, r')"
    and acc: "acc = (if res = Inr True then m\<lparr>rm_record_index := rc_next_record_index r\<rparr> # acc1 else acc1)"
    using Cons.prems(3) by (auto simp: call r1 split: prod.splits)
  have "recorder_inv fl (if res = Inr True then ms @ [m\<lparr>rm_record_index := rc_next_record_index r\<rparr>] else ms) r1"
    using Cons.prems(2) by (intro recorder_append_inv [OF Cons.prems(1) _ r1]) (simp add: call)
  from Cons.IH [OF this _ rest] show ?case using Cons.prems(2) by (auto simp: acc)
qed

lemma recorder_inv_new: "recorder_inv fl [] (RawEventRecorder False True)"
  by (simp add: recorder_inv_def RawEventRecorder_def)

lemma recorder_inv_read:
  assumes "recorder_inv fl ms r"
  shows "\<exists>extra rd. read_all (RawEventReader (Some (os_bytes (rc_output r)))) = (ms @ extra, rd) \<and>
    length extra \<le> 1 \<and> (os_good (rc_output r) \<longrightarrow> extra = [] \<and> \<not> has_error rd)"
proof (cases "os_good (rc_output r)")
  case True
  then show ?thesis
    using assms read_all_file [of fl ms 0 "[]"] read_all_no_newline [of "[]"]
    by (simp add: recorder_inv_def RawEventReader_at has_error_def reader_at_def)
next
  case False
  then obtain m n where m: "recordable fl m" "rm_record_index m = of_nat (length ms)"
    "os_bytes (rc_output r) = file_of fl ms @ take n (record_line fl m)"
    using assms by (auto simp: recorder_inv_def)
  obtain extra rd where tail: "read_all (reader_at (take n (record_line fl m)) (of_nat (length ms))) = (extra, rd)"
    by (cases "read_all (reader_at (take n (record_line fl m)) (of_nat (length ms)))")
  have "extra \<in> {[], [m]}" using read_all_tail [OF m(1,2), of n] tail by simp
  then show ?thesis
    using False assms read_all_file [of fl ms 0 "take n (record_line fl m)"] tail
    by (auto simp: recorder_inv_def RawEventReader_at m(3))
qed

section \<open>What append answers\<close>

lemma dump_ascii: "list_all (\<lambda>c. byte c < 128) s \<Longrightarrow> \<exists>out. dump_escaped s = Inr out"
  unfolding dump_escaped_utf8 by (induction s) (auto intro: utf8.intros)

lemma dump_record:
  assumes "dump_escaped (rm_payload m) = r"
  shows "(case r of Inl e \<Rightarrow> json_dump fl None (record_json m) = Inl e
    | Inr out \<Rightarrow> \<exists>line. json_dump fl None (record_json m) = Inr line)"
proof -
  obtain k1 where k1: "dump_escaped ''connection_id'' = Inr k1" using dump_ascii [of "''connection_id''"] by auto
  obtain k2 where k2: "dump_escaped ''format_version'' = Inr k2" using dump_ascii [of "''format_version''"] by auto
  obtain k3 where k3: "dump_escaped ''payload'' = Inr k3" using dump_ascii [of "''payload''"] by auto
  obtain k4 where k4: "dump_escaped ''receive_monotonic_ns'' = Inr k4" using dump_ascii [of "''receive_monotonic_ns''"] by auto
  obtain k5 where k5: "dump_escaped ''receive_wall_ns'' = Inr k5" using dump_ascii [of "''receive_wall_ns''"] by auto
  obtain k6 where k6: "dump_escaped ''record_index'' = Inr k6" using dump_ascii [of "''record_index''"] by auto
  obtain k7 where k7: "dump_escaped ''venue'' = Inr k7" using dump_ascii [of "''venue''"] by auto
  obtain k8 where k8: "dump_escaped ''coinbase'' = Inr k8" using dump_ascii [of "''coinbase''"] by auto
  obtain k9 where k9: "dump_escaped ''kraken'' = Inr k9" using dump_ascii [of "''kraken''"] by auto
  show ?thesis using assms
    by (cases "rm_venue m"; cases r) (simp_all add: record_json_eq k1 k2 k3 k4 k5 k6 k7 k8 k9)
qed

lemma recorder_append_utf8:
  assumes "os_open (rc_output r)" and "os_good (rc_output r)" and "utf8 (rm_payload m)"
  shows "\<exists>line. recorder_append fl f1 NoFault NoFault m r =
    (if f1 = NoFault
     then (Inr True, \<lparr>rc_output = (rc_output r)\<lparr>os_bytes := os_bytes (rc_output r) @ line @ [CHR 0x0A]\<rparr>,
             rc_next_record_index = rc_next_record_index r + 1\<rparr>)
     else (Inr False, r\<lparr>rc_output := os_write f1 line (rc_output r)\<rparr>))"
proof -
  let ?m = "m\<lparr>rm_record_index := rc_next_record_index r\<rparr>"
  obtain out where "dump_escaped (rm_payload ?m) = Inr out"
    using assms(3) dump_escaped_utf8 [of "rm_payload m"] by auto
  then obtain line where "json_dump fl None (record_json ?m) = Inr line"
    using dump_record [of ?m "Inr out" fl] by auto
  then show ?thesis using assms(1,2)
    by (cases f1) (auto simp: recorder_append_def os_write_def os_flush_def)
qed

lemma recorder_append_not_utf8:
  assumes "os_open (rc_output r)" and "os_good (rc_output r)" and "\<not> utf8 (rm_payload m)"
  shows "recorder_append fl f1 f2 f3 m r = (Inl (JsonTypeError 316), r)"
proof -
  let ?m = "m\<lparr>rm_record_index := rc_next_record_index r\<rparr>"
  obtain e where e: "dump_escaped (rm_payload m) = Inl e"
    using assms(3) dump_escaped_utf8 [of "rm_payload m"] by (cases "dump_escaped (rm_payload m)") auto
  then show ?thesis using assms(1,2) dump_record [of ?m "Inl e" fl] dump_escaped_exn [OF e]
    by (simp add: recorder_append_def)
qed

section \<open>Properties\<close>

text \<open>A message and the run of calls used by the witnesses: the last write is cut short.\<close>

definition sample_message :: "string \<Rightarrow> raw_message" where
  "sample_message payload = \<lparr>rm_record_index = 0, rm_venue = Coinbase, rm_connection_id = 1,
     rm_receive_wall_time = 5, rm_receive_monotonic_time = - 7, rm_payload = payload\<rparr>"

definition sample_calls :: "append_call list" where
  "sample_calls = [((NoFault, NoFault, NoFault), sample_message ''a''),
     ((NoFault, NoFault, NoFault), sample_message [CHR 0xFF]),
     ((FaultAfter 3, NoFault, NoFault), sample_message ''z'')]"

lemma sample_payloads: "utf8 ''a''" "utf8 ''z''" "\<not> utf8 [CHR 0xFF]"
proof -
  show "\<not> utf8 [CHR 0xFF]" by (auto elim: utf8.cases simp: utf8_ranges_def)
qed (auto intro!: utf8.intros)

lemma sample_calls_run:
  "fst (append_all (\<lambda>_. []) sample_calls (RawEventRecorder False True)) = [sample_message ''a'']"
proof -
  define r1 where "r1 = snd (recorder_append (\<lambda>_. []) NoFault NoFault NoFault (sample_message ''a'') (RawEventRecorder False True))"
  have 1: "recorder_append (\<lambda>_. []) NoFault NoFault NoFault (sample_message ''a'') (RawEventRecorder False True) = (Inr True, r1)"
    and r1: "os_open (rc_output r1)" "os_good (rc_output r1)"
    using recorder_append_utf8 [of "RawEventRecorder False True" "sample_message ''a''" "\<lambda>_. []" NoFault] sample_payloads
    by (auto simp: r1_def RawEventRecorder_def sample_message_def)
  have 2: "recorder_append (\<lambda>_. []) NoFault NoFault NoFault (sample_message [CHR 0xFF]) r1 = (Inl (JsonTypeError 316), r1)"
    using recorder_append_not_utf8 [OF r1] sample_payloads by (simp add: sample_message_def)
  obtain r2 where 3: "recorder_append (\<lambda>_. []) (FaultAfter 3) NoFault NoFault (sample_message ''z'') r1 = (Inr False, r2)"
    using recorder_append_utf8 [OF r1, of "sample_message ''z''" "\<lambda>_. []" "FaultAfter 3"] sample_payloads
    by (auto simp: sample_message_def)
  show ?thesis using 1 2 3
    by (simp add: sample_calls_def) (simp add: sample_message_def RawEventRecorder_def)
qed

lemma sample_calls_ok: "list_all (\<lambda>c. message_ok (snd c)) sample_calls"
  by (simp add: sample_calls_def sample_message_def message_ok_def int_limits)

text \<open>C1. Durability of the recording: whatever messages are appended to a new file and
  whatever device faults occur, reading the file back returns every message for which
  append answered true, in order and byte for byte, and at most one more (a record whose
  bytes arrived although its flush failed). Without a fault it returns exactly the accepted
  messages and reports no error.\<close>

theorem recorded_messages_read_back:
  assumes "append_all fl calls (RawEventRecorder False True) = (accepted, r)"
    and "list_all (\<lambda>c. message_ok (snd c)) calls"
  shows "\<exists>extra rd. read_all (RawEventReader (Some (os_bytes (rc_output r)))) = (accepted @ extra, rd) \<and>
    length extra \<le> 1 \<and> (os_good (rc_output r) \<longrightarrow> extra = [] \<and> \<not> has_error rd)"
proof -
  have "recorder_inv fl ([] @ accepted) r"
    by (rule append_all_inv [OF recorder_inv_new assms(2,1)])
  then show ?thesis using recorder_inv_read by simp
qed

theorem recorded_messages_read_back_witness:
  "\<exists>extra rd. read_all (RawEventReader (Some (os_bytes (rc_output
       (snd (append_all (\<lambda>_. []) sample_calls (RawEventRecorder False True))))))) =
     ([sample_message ''a''] @ extra, rd) \<and>
     length extra \<le> 1"
proof -
  obtain r where "append_all (\<lambda>_. []) sample_calls (RawEventRecorder False True) =
      ([sample_message ''a''], r)"
    using sample_calls_run by (metis prod.collapse)
  from recorded_messages_read_back [OF this sample_calls_ok] this show ?thesis by auto
qed

text \<open>The reader hands out consecutive indices whatever the file contains.\<close>

lemma decode_record_index: "decode_record i j = Inr m \<Longrightarrow> rm_record_index m = i"
  by (auto simp: decode_record_def split: if_splits option.splits sum.splits)

lemma reader_next_index:
  assumes "reader_next bad rd = (Some m, rd')"
  shows "rm_record_index m = rd_expected_index rd \<and> rd_expected_index rd' = rd_expected_index rd + 1"
  using assms
  by (auto simp: reader_next_def Let_def split: if_splits prod.splits option.splits sum.splits
      dest: decode_record_index)

lemma read_all_indexed: "indexed_from (rd_expected_index rd) (fst (read_all rd))"
proof (induction rd rule: read_all.induct)
  case (1 rd)
  show ?case
  proof (cases "reader_next False rd")
    case (Pair mo rd')
    show ?thesis
    proof (cases mo)
      case None
      then show ?thesis by (simp add: read_all.simps [of rd] Pair)
    next
      case (Some m)
      have "rm_record_index m = rd_expected_index rd" "rd_expected_index rd' = rd_expected_index rd + 1"
        using reader_next_index [of False rd m rd'] Pair Some by simp_all
      then show ?thesis using 1 [OF Pair [symmetric] Some]
        by (simp add: read_all.simps [of rd] Pair Some split: prod.split) (metis fst_conv)
    qed
  qed
qed

text \<open>C33. Whatever bytes a file holds, the records the reader hands out carry the indices
  0, 1, 2, and so on without a gap or a repetition.\<close>

theorem read_indices_contiguous: "indexed_from 0 (fst (read_all (RawEventReader file)))"
  using read_all_indexed [of "RawEventReader file"] by (simp add: RawEventReader_def split: option.splits)

text \<open>C34. On an open and good stream, append accepts a message exactly when its payload is
  well-formed UTF-8 (no device fault assumed); for any other payload it throws type_error.316
  and leaves the recorder and its file as they were.\<close>

theorem append_accepts_utf8:
  assumes "os_open (rc_output r)" and "os_good (rc_output r)"
  shows "if utf8 (rm_payload m)
    then fst (recorder_append fl NoFault NoFault NoFault m r) = Inr True
    else recorder_append fl NoFault NoFault NoFault m r = (Inl (JsonTypeError 316), r)"
  using recorder_append_utf8 [OF assms, of m fl NoFault] recorder_append_not_utf8 [OF assms, of m fl] by auto

theorem append_accepts_utf8_witness:
  "recorder_append (\<lambda>_. []) NoFault NoFault NoFault (sample_message [CHR 0xFF]) (RawEventRecorder False True) =
     (Inl (JsonTypeError 316), RawEventRecorder False True)"
  using append_accepts_utf8 [of "RawEventRecorder False True" "sample_message [CHR 0xFF]" "\<lambda>_. []"]
    sample_payloads(3) by (simp add: RawEventRecorder_def sample_message_def)

end
