(* ===== verification/Timestamps.thy ===== *)
theory Timestamps
  imports MarketData
begin

text \<open>
  The exchange timestamps: \<open>parse_timestamp\<close> of \<open>coinbase_l2_parser.cpp\<close> and of
  \<open>kraken_l2_parser.cpp\<close>. The two functions differ only in the text of their exception, which
  is an argument here. The proleptic Gregorian calendar of \<open>std::chrono\<close> is modelled by
  counting days.
\<close>

section \<open>The calendar\<close>

definition leap_year :: "int \<Rightarrow> bool" where
  "leap_year y \<longleftrightarrow> y mod 4 = 0 \<and> (y mod 100 \<noteq> 0 \<or> y mod 400 = 0)"

definition month_days :: "int \<Rightarrow> int \<Rightarrow> int" where
  "month_days y m =
     (if m = 2 then (if leap_year y then 29 else 28)
      else if m \<in> {4, 6, 9, 11} then 30 else 31)"

text \<open>\<open>year_month_day::ok\<close> for the year, month and day numbers the parser passes.\<close>

definition date_ok :: "int \<Rightarrow> int \<Rightarrow> int \<Rightarrow> bool" where
  "date_ok y m d \<longleftrightarrow> 1 \<le> m \<and> m \<le> 12 \<and> 1 \<le> d \<and> d \<le> month_days y m"

text \<open>\<open>sys_days\<close>: days since 1970-01-01, as whole years, whole months and days.\<close>

definition days_before_year :: "int \<Rightarrow> int" where
  "days_before_year y = 365 * (y - 1) + (y - 1) div 4 - (y - 1) div 100 + (y - 1) div 400"

definition days_before_month :: "int \<Rightarrow> int \<Rightarrow> int" where
  "days_before_month y m = sum_list (map (\<lambda>k. month_days y (int k)) [1..<nat m])"

definition sys_days :: "int \<Rightarrow> int \<Rightarrow> int \<Rightarrow> int" where
  "sys_days y m d = days_before_year y - days_before_year 1970 + days_before_month y m + (d - 1)"

section \<open>The parser\<close>

text \<open>The lambda \<open>number\<close>: the digits of a field, or the exception.\<close>

fun number_from :: "exn \<Rightarrow> int \<Rightarrow> string \<Rightarrow> int result" where
  "number_from invalid result [] = Inr result"
| "number_from invalid result (c # cs) =
     (if \<not> is_digit c then Inl invalid
      else number_from invalid (result * 10 + int (digit_val c)) cs)"

definition number_at :: "exn \<Rightarrow> string \<Rightarrow> nat \<Rightarrow> nat \<Rightarrow> int result" where
  "number_at invalid value offset len = number_from invalid 0 (take len (drop offset value))"

text \<open>The fraction in nanoseconds, padded to nine digits by the multiplication loop.\<close>

definition fraction_at :: "exn \<Rightarrow> string \<Rightarrow> int result" where
  "fraction_at invalid value =
     (if length value \<noteq> 20 then
        (if value ! 19 \<noteq> CHR ''.'' \<or> length value < 22 \<or> length value > 30 then Inl invalid
         else let digits = length value - 21 in
           bind_exn (number_at invalid value 20 digits) (\<lambda>f. Inr (((\<lambda>x. x * 10) ^^ (9 - digits)) f)))
      else Inr 0)"

definition billion :: int where "billion = 1000000000"

text \<open>
  Combining seconds and fraction. Integer division and remainder truncate towards zero, so
  the constants \<open>minimum / billion\<close> and \<open>minimum % billion\<close> are -9223372036 and -854775808.
\<close>

definition combine_nanoseconds :: "exn \<Rightarrow> int \<Rightarrow> int \<Rightarrow> int result" where
  "combine_nanoseconds invalid seconds fraction =
     (if seconds \<ge> 0 then
        (if seconds > (INT64_MAX - fraction) div billion then Inl invalid
         else Inr (seconds * billion + fraction))
      else if seconds < - 9223372036 - 1 \<or>
              (seconds = - 9223372036 - 1 \<and> fraction < billion + - 854775808)
      then Inl invalid
      else Inr ((seconds + 1) * billion + (fraction - billion)))"

definition parse_timestamp :: "exn \<Rightarrow> string \<Rightarrow> exchange_timestamp result" where
  "parse_timestamp invalid value =
     (if length value < 20 \<or> value ! 4 \<noteq> CHR ''-'' \<or> value ! 7 \<noteq> CHR ''-'' \<or> value ! 10 \<noteq> CHR ''T'' \<or>
         value ! 13 \<noteq> CHR '':'' \<or> value ! 16 \<noteq> CHR '':'' \<or> last value \<noteq> CHR ''Z''
      then Inl invalid
      else
        bind_exn (number_at invalid value 0 4) (\<lambda>year.
        bind_exn (number_at invalid value 5 2) (\<lambda>month.
        bind_exn (number_at invalid value 8 2) (\<lambda>day.
        bind_exn (number_at invalid value 11 2) (\<lambda>hour.
        bind_exn (number_at invalid value 14 2) (\<lambda>minute.
        bind_exn (number_at invalid value 17 2) (\<lambda>second.
          if year = 0 \<or> \<not> date_ok year month day \<or> hour > 23 \<or> minute > 59 \<or> second > 59
          then Inl invalid
          else bind_exn (fraction_at invalid value) (\<lambda>fraction.
            combine_nanoseconds invalid
              (sys_days year month day * 86400 + hour * 3600 + minute * 60 + second) fraction))))))))"

section \<open>The calendar counts days\<close>

text \<open>The day after a valid date, by the calendar's own rules.\<close>

definition next_date :: "int \<times> int \<times> int \<Rightarrow> int \<times> int \<times> int" where
  "next_date t = (case t of (y, m, d) \<Rightarrow>
     if d < month_days y m then (y, m, d + 1) else if m < 12 then (y, m + 1, 1) else (y + 1, 1, 1))"

lemma days_before_month_Suc:
  "1 \<le> m \<Longrightarrow> days_before_month y (m + 1) = days_before_month y m + month_days y m"
proof -
  assume "1 \<le> m"
  then have "[1..<nat (m + 1)] = [1..<nat m] @ [nat m]" by (simp add: nat_add_distrib)
  then show ?thesis using \<open>1 \<le> m\<close> by (simp add: days_before_month_def)
qed

lemma div_step: "0 < k \<Longrightarrow> (y::int) div k - (y - 1) div k = (if y mod k = 0 then 1 else 0)"
proof -
  assume k: "0 < k"
  have "(y - 1) div k = y div k + (y mod k - 1) div k"
    using div_mult_self3 [of k "y div k" "y mod k - 1"] k by (simp add: algebra_simps)
  moreover have "(y mod k - 1) div k = (if y mod k = 0 then - 1 else 0)"
  proof (cases "y mod k = 0")
    case True
    then show ?thesis using k by (simp add: div_eq_minus1)
  next
    case False
    then have "0 \<le> y mod k - 1" "y mod k - 1 < k"
      using k pos_mod_sign [of k y] pos_mod_bound [of k y] by linarith+
    then show ?thesis using False by simp
  qed
  ultimately show ?thesis by simp
qed

lemma mod_zero_dvd: "(y::int) mod (k * j) = 0 \<Longrightarrow> y mod j = 0"
  by (metis dvd_eq_mod_eq_0 dvd_mult_right)

lemma leap_mod: "(y::int) mod 400 = 0 \<Longrightarrow> y mod 100 = 0" "(y::int) mod 100 = 0 \<Longrightarrow> y mod 4 = 0"
  using mod_zero_dvd [of y 4 100] mod_zero_dvd [of y 25 4] by (simp_all only: arith_simps)

lemma leap_days:
  assumes "P400 \<longrightarrow> P100" "P100 \<longrightarrow> P4"
  shows "(if P4 then 1 else 0) - (if P100 then 1 else 0) + (if P400 then 1 else 0) =
     (if P4 \<and> (\<not> P100 \<or> P400) then 1 else (0::int))"
  using assms by (cases P4; cases P100; cases P400) simp_all

lemma days_before_year_Suc: "days_before_year (y + 1) = days_before_year y + (if leap_year y then 366 else 365)"
proof -
  have leap: "(if y mod 4 = 0 then 1 else 0) - (if y mod 100 = 0 then 1 else 0) + (if y mod 400 = 0 then 1 else 0) =
      (if leap_year y then 1 else (0::int))"
    unfolding leap_year_def by (rule leap_days) (rule impI, erule leap_mod)+
  have "days_before_year (y + 1) - days_before_year y =
      365 + ((y div 4 - (y - 1) div 4) - (y div 100 - (y - 1) div 100) + (y div 400 - (y - 1) div 400))"
    unfolding days_before_year_def by (simp add: algebra_simps)
  also have "\<dots> = 365 + (if leap_year y then 1 else 0)"
    by (simp only: div_step zero_less_numeral leap)
  finally show ?thesis by (cases "leap_year y") simp_all
qed

lemma days_before_month_13: "days_before_month y 13 = (if leap_year y then 366 else 365)"
proof -
  have "[1..<13] = [1, 2, 3, 4, 5, 6, 7, 8, 9, 10, 11, 12::nat]" by (simp add: upt_rec)
  then show ?thesis by (simp add: days_before_month_def month_days_def)
qed

lemma days_before_month_1 [simp]: "days_before_month y 1 = 0"
  by (simp add: days_before_month_def)

lemma sys_days_next:
  assumes "date_ok y m d"
  shows "(case next_date (y, m, d) of (y', m', d') \<Rightarrow> sys_days y' m' d') = sys_days y m d + 1"
proof -
  have m: "1 \<le> m" "m \<le> 12" and d: "d \<le> month_days y m" using assms by (auto simp: date_ok_def)
  show ?thesis
  proof (cases "d < month_days y m")
    case True
    then show ?thesis by (simp add: next_date_def sys_days_def)
  next
    case False
    then have dd: "d = month_days y m" using d by simp
    show ?thesis
    proof (cases "m < 12")
      case True
      then show ?thesis using dd days_before_month_Suc [OF m(1)] by (simp add: next_date_def sys_days_def)
    next
      case False
      then have "m = 12" using m by simp
      then have "days_before_month y m + month_days y m = (if leap_year y then 366 else 365)"
        using days_before_month_Suc [of 12 y] days_before_month_13 [of y] by simp
      then show ?thesis using dd \<open>m = 12\<close> days_before_year_Suc [of y]
        by (simp add: next_date_def sys_days_def)
    qed
  qed
qed

section \<open>The texts that are accepted\<close>

lemma number_from_eq:
  "number_from e r cs =
     (if list_all is_digit cs then Inr (r * 10 ^ length cs + int (digits_val cs)) else Inl e)"
proof (induction cs arbitrary: r)
  case (Cons c cs)
  then show ?case by (simp add: digits_val_Cons algebra_simps)
qed simp

text \<open>A UTC timestamp text made of its digit fields; the fraction may be absent.\<close>

definition timestamp_text :: "string \<Rightarrow> string \<Rightarrow> string \<Rightarrow> string \<Rightarrow> string \<Rightarrow> string \<Rightarrow> string \<Rightarrow> string" where
  "timestamp_text Y M D h m s F =
     Y @ ''-'' @ M @ ''-'' @ D @ ''T'' @ h @ '':'' @ m @ '':'' @ s @ (if F = [] then [] else CHR ''.'' # F) @ ''Z''"

definition timestamp_fields :: "string \<Rightarrow> string \<Rightarrow> string \<Rightarrow> string \<Rightarrow> string \<Rightarrow> string \<Rightarrow> string \<Rightarrow> bool" where
  "timestamp_fields Y M D h m s F \<longleftrightarrow>
     length Y = 4 \<and> length M = 2 \<and> length D = 2 \<and> length h = 2 \<and> length m = 2 \<and> length s = 2 \<and> length F \<le> 9 \<and>
     list_all is_digit (Y @ M @ D @ h @ m @ s @ F) \<and>
     digits_val Y \<noteq> 0 \<and> date_ok (int (digits_val Y)) (int (digits_val M)) (int (digits_val D)) \<and>
     digits_val h \<le> 23 \<and> digits_val m \<le> 59 \<and> digits_val s \<le> 59"

text \<open>Nanoseconds since the epoch, as an integer of unlimited size.\<close>

definition timestamp_value :: "string \<Rightarrow> string \<Rightarrow> string \<Rightarrow> string \<Rightarrow> string \<Rightarrow> string \<Rightarrow> string \<Rightarrow> int" where
  "timestamp_value Y M D h m s F =
     (sys_days (int (digits_val Y)) (int (digits_val M)) (int (digits_val D)) * 86400 +
      int (digits_val h) * 3600 + int (digits_val m) * 60 + int (digits_val s)) * 1000000000 +
     int (digits_val F) * 10 ^ (9 - length F)"

lemma combine_nanoseconds_eq:
  assumes "0 \<le> f" and "f < billion"
  shows "combine_nanoseconds e s f = (if fits_int64 (s * billion + f) then Inr (s * billion + f) else Inl e)"
proof (cases "0 \<le> s")
  case True
  have "s > (INT64_MAX - f) div billion \<longleftrightarrow> s * billion + f > INT64_MAX"
    using assms by (auto simp: INT64_MAX_def billion_def)
  moreover have "INT64_MIN \<le> s * billion + f" using True assms by (simp add: INT64_MIN_def billion_def)
  ultimately show ?thesis using True by (auto simp: combine_nanoseconds_def fits_int64_def)
next
  case False
  have max: "s * billion + f \<le> INT64_MAX" using False assms by (simp add: INT64_MAX_def billion_def)
  have min: "(s < - 9223372036 - 1 \<or> (s = - 9223372036 - 1 \<and> f < billion + - 854775808)) \<longleftrightarrow>
      s * billion + f < INT64_MIN"
    using assms by (auto simp: INT64_MIN_def billion_def)
  have sum: "(s + 1) * billion + (f - billion) = s * billion + f" by (simp add: algebra_simps)
  show ?thesis unfolding combine_nanoseconds_def fits_int64_def min sum using False max by simp
qed

lemma pad_fraction: "((\<lambda>x. x * 10) ^^ k) (f::int) = f * 10 ^ k"
  by (induction k) (simp_all add: mult_ac)

lemma bind_if_exn: "bind_exn (if P then Inr x else Inl e) f = (if P then f x else Inl e)"
  by simp

lemma fraction_at_text:
  assumes "length P = 19"
  shows "fraction_at e (P @ (if F = [] then [] else CHR ''.'' # F) @ ''Z'') =
    (if list_all is_digit F \<and> length F \<le> 9 then Inr (int (digits_val F) * 10 ^ (9 - length F)) else Inl e)"
  using assms
  by (auto simp: fraction_at_def number_at_def number_from_eq nth_append pad_fraction digits_val_def)

lemma timestamp_fraction_bound:
  assumes "list_all is_digit F" "length F \<le> 9"
  shows "int (digits_val F) * 10 ^ (9 - length F) < billion"
proof -
  have "int (digits_val F) < 10 ^ length F" using digits_val_less [OF assms(1)] by (simp flip: of_nat_less_iff)
  then have "int (digits_val F) * 10 ^ (9 - length F) < 10 ^ length F * 10 ^ (9 - length F)" by simp
  then show ?thesis using assms(2) by (simp add: billion_def flip: power_add)
qed

lemma parse_timestamp_text:
  assumes len: "length Y = 4" "length M = 2" "length D = 2" "length h = 2" "length m = 2" "length s = 2"
  shows "parse_timestamp e (timestamp_text Y M D h m s F) =
    (if timestamp_fields Y M D h m s F \<and> fits_int64 (timestamp_value Y M D h m s F)
     then Inr (timestamp_value Y M D h m s F) else Inl e)"
proof -
  let ?v = "timestamp_text Y M D h m s F"
  define P where "P = Y @ ''-'' @ M @ ''-'' @ D @ ''T'' @ h @ '':'' @ m @ '':'' @ s"
  define R where "R = (if F = [] then [] else CHR ''.'' # F) @ ''Z''"
  have P: "length P = 19" and v: "?v = P @ R" and R: "R \<noteq> []" "last R = CHR ''Z''"
    using len by (simp_all add: P_def R_def timestamp_text_def)
  have long: "\<not> length ?v < 20" using P R by (cases R) (simp_all add: v)
  have seps: "?v ! 4 = CHR ''-''" "?v ! 7 = CHR ''-''" "?v ! 10 = CHR ''T''" "?v ! 13 = CHR '':''" "?v ! 16 = CHR '':''"
    "last ?v = CHR ''Z''"
    using len R by (simp_all add: v nth_append P P_def)
  have nums: "number_at e ?v 0 4 = number_from e 0 Y" "number_at e ?v 5 2 = number_from e 0 M"
    "number_at e ?v 8 2 = number_from e 0 D" "number_at e ?v 11 2 = number_from e 0 h"
    "number_at e ?v 14 2 = number_from e 0 m" "number_at e ?v 17 2 = number_from e 0 s"
    using len by (simp_all add: number_at_def v P_def)
  have frac: "fraction_at e ?v =
      (if list_all is_digit F \<and> length F \<le> 9 then Inr (int (digits_val F) * 10 ^ (9 - length F)) else Inl e)"
    unfolding v R_def by (rule fraction_at_text [OF P])
  let ?S = "sys_days (int (digits_val Y)) (int (digits_val M)) (int (digits_val D)) * 86400 +
      int (digits_val h) * 3600 + int (digits_val m) * 60 + int (digits_val s)"
  let ?t = "timestamp_value Y M D h m s F"
  have comb: "combine_nanoseconds e ?S (int (digits_val F) * 10 ^ (9 - length F)) =
      (if fits_int64 ?t then Inr ?t else Inl e)" if "list_all is_digit F" "length F \<le> 9"
    using combine_nanoseconds_eq [OF _ timestamp_fraction_bound [OF that], of e ?S]
    by (simp only: timestamp_value_def billion_def) simp
  show ?thesis
    unfolding parse_timestamp_def nums frac number_from_eq using long seps
    by (auto simp: bind_if_exn timestamp_fields_def len comb not_le)
qed

lemma parse_timestamp_shape:
  assumes "parse_timestamp e v = Inr t"
  shows "\<exists>Y M D h m s F. v = timestamp_text Y M D h m s F \<and>
    length Y = 4 \<and> length M = 2 \<and> length D = 2 \<and> length h = 2 \<and> length m = 2 \<and> length s = 2"
proof -
  let ?P = "take 19 v" and ?R = "drop 19 v"
  have guard: "20 \<le> length v" "v ! 4 = CHR ''-''" "v ! 7 = CHR ''-''" "v ! 10 = CHR ''T''" "v ! 13 = CHR '':''"
    "v ! 16 = CHR '':''" "last v = CHR ''Z''"
    using assms by (auto simp: parse_timestamp_def split: if_splits)
  have frac: "\<exists>f. fraction_at e v = Inr f" 
    using assms by (cases "fraction_at e v") (auto simp: parse_timestamp_def bind_exn_def split: if_splits sum.splits)
  have "length ?P = 19" using guard by simp
  then obtain y1 y2 y3 y4 c4 m1 m2 c7 d1 d2 c10 h1 h2 c13 n1 n2 c16 s1 s2 where
    P: "?P = [y1, y2, y3, y4, c4, m1, m2, c7, d1, d2, c10, h1, h2, c13, n1, n2, c16, s1, s2]"
    by (auto simp: numeral_eq_Suc length_Suc_conv simp del: length_take)
  have v: "v = ?P @ ?R" by simp
  have at: "v ! i = ?P ! i" if "i < 19" for i using that by simp
  have seps: "c4 = CHR ''-''" "c7 = CHR ''-''" "c10 = CHR ''T''" "c13 = CHR '':''" "c16 = CHR '':''"
    using guard at [of 4] at [of 7] at [of 10] at [of 13] at [of 16] unfolding P by simp_all
  obtain F where R: "?R = (if F = [] then [] else CHR ''.'' # F) @ ''Z''"
  proof (cases "length v = 20")
    case True
    then have "length ?R = 1" by simp
    then obtain r where "?R = [r]" by (auto simp: length_Suc_conv simp del: length_drop)
    then show ?thesis using that [of "[]"] guard(7) v by (metis append_Nil last_snoc)
  next
    case False
    then have "v ! 19 = CHR ''.''" "22 \<le> length v" using frac by (auto simp: fraction_at_def split: if_splits)
    then have hd: "?R = CHR ''.'' # drop 20 v" using Cons_nth_drop_Suc [of 19 v] by simp
    have "drop 20 v = butlast (drop 20 v) @ ''Z''" "butlast (drop 20 v) \<noteq> []"
      using \<open>22 \<le> length v\<close> guard(7) append_butlast_last_id [of "drop 20 v"] by (auto simp: butlast_drop)
    then show ?thesis using that [of "butlast (drop 20 v)"] hd by simp
  qed
  have "v = timestamp_text [y1, y2, y3, y4] [m1, m2] [d1, d2] [h1, h2] [n1, n2] [s1, s2] F"
    by (subst v, subst P, subst R) (simp add: timestamp_text_def seps)
  then show ?thesis by (intro exI conjI) (assumption, simp_all)
qed

lemma next_date_ok:
  assumes "date_ok y m d"
  shows "case next_date (y, m, d) of (y', m', d') \<Rightarrow> date_ok y' m' d'"
  using assms by (simp add: next_date_def date_ok_def month_days_def)

lemma sys_days_epoch: "sys_days 1970 1 1 = 0"
  by (simp add: sys_days_def)

section \<open>Properties\<close>

text \<open>C26. The parser accepts exactly the texts \<open>YYYY-MM-DDThh:mm:ss[.f]Z\<close> with one to nine fraction
  digits, a valid calendar date, a valid time of day and an instant that fits a signed 64-bit
  count of nanoseconds, and it returns exactly that instant; in particular the arithmetic at
  the negative boundary is exact.\<close>

theorem parse_timestamp_accepts:
  "parse_timestamp e v = Inr t \<longleftrightarrow>
     (\<exists>Y M D h m s F. v = timestamp_text Y M D h m s F \<and> timestamp_fields Y M D h m s F \<and>
        fits_int64 (timestamp_value Y M D h m s F) \<and> t = timestamp_value Y M D h m s F)"
  (is "_ \<longleftrightarrow> ?R")
proof
  assume ok: "parse_timestamp e v = Inr t"
  then obtain Y M D h m s F where "v = timestamp_text Y M D h m s F"
    and len: "length Y = 4" "length M = 2" "length D = 2" "length h = 2" "length m = 2" "length s = 2"
    using parse_timestamp_shape by metis
  then show ?R using ok parse_timestamp_text [OF len, of e F] by (metis Inl_Inr_False Inr_inject)
next
  assume ?R
  then show "parse_timestamp e v = Inr t"
    using parse_timestamp_text by (metis timestamp_fields_def)
qed



end
