(* ===== verification/RecordingQueue.thy ===== *)
theory RecordingQueue
  imports RawEvents
begin

text \<open>
  The bounded queue between the market thread and the raw writer thread:
  \<open>include/recording/raw_recording_queue.hpp\<close>. Every member function runs under the queue's
  mutex, so a run of the two threads is a sequence of whole operations; \<open>wait_pop\<close> on an
  open, empty queue is the value \<open>Blocked\<close> and leaves the queue as it is.
\<close>

section \<open>The queue\<close>

datatype push_result = Accepted | Full | Closed

datatype 'm pop_result = Blocked | Drained | Popped 'm

record raw_queue_config =
  maximum_messages :: uint64
  maximum_bytes :: uint64

record raw_queue =
  rq_config :: raw_queue_config
  rq_messages :: "raw_message list"
  rq_bytes :: uint64
  rq_closed :: bool

definition default_queue_config :: raw_queue_config where
  "default_queue_config = \<lparr>maximum_messages = 4096, maximum_bytes = 64 * 1024 * 1024\<rparr>"

definition RawRecordingQueue :: "raw_queue_config \<Rightarrow> raw_queue" where
  "RawRecordingQueue config = \<lparr>rq_config = config, rq_messages = [], rq_bytes = 0, rq_closed = False\<rparr>"

definition try_push :: "raw_message \<Rightarrow> raw_queue \<Rightarrow> push_result \<times> raw_queue" where
  "try_push m q =
     (if rq_closed q then (Closed, q)
      else if length (rq_messages q) \<ge> unat (maximum_messages (rq_config q)) \<or>
              length (rm_payload m) > unat (maximum_bytes (rq_config q) - rq_bytes q)
      then (Full, q)
      else (Accepted, q\<lparr>rq_messages := rq_messages q @ [m],
                        rq_bytes := rq_bytes q + of_nat (length (rm_payload m))\<rparr>))"

definition wait_pop :: "raw_queue \<Rightarrow> raw_message pop_result \<times> raw_queue" where
  "wait_pop q =
     (if \<not> (rq_closed q \<or> rq_messages q \<noteq> []) then (Blocked, q)
      else case rq_messages q of
          [] \<Rightarrow> (Drained, q)
        | m # rest \<Rightarrow>
            (Popped m, q\<lparr>rq_messages := rest, rq_bytes := rq_bytes q - of_nat (length (rm_payload m))\<rparr>))"

definition queue_close :: "raw_queue \<Rightarrow> raw_queue" where
  "queue_close q = q\<lparr>rq_closed := True\<rparr>"

definition message_count :: "raw_queue \<Rightarrow> nat" where
  "message_count q = length (rq_messages q)"

definition payload_bytes :: "raw_queue \<Rightarrow> uint64" where
  "payload_bytes q = rq_bytes q"

section \<open>What a channel promises its two threads\<close>

datatype 'm channel_op = Push 'm | Pop | Close

text \<open>
  The messages accepted and the messages popped by a sequence of operations, with the
  channel it leaves.
\<close>

fun run_channel ::
  "('m \<Rightarrow> 'q \<Rightarrow> push_result \<times> 'q) \<Rightarrow> ('q \<Rightarrow> 'm pop_result \<times> 'q) \<Rightarrow> ('q \<Rightarrow> 'q) \<Rightarrow>
   'm channel_op list \<Rightarrow> 'q \<Rightarrow> 'm list \<times> 'm list \<times> 'q" where
  "run_channel push pop close [] q = ([], [], q)"
| "run_channel push pop close (Push m # ops) q =
     (case push m q of (r, q1) \<Rightarrow>
        case run_channel push pop close ops q1 of (acc, out, q') \<Rightarrow>
          (if r = Accepted then m # acc else acc, out, q'))"
| "run_channel push pop close (Pop # ops) q =
     (case pop q of (r, q1) \<Rightarrow>
        case run_channel push pop close ops q1 of (acc, out, q') \<Rightarrow>
          (acc, (case r of Popped m \<Rightarrow> m # out | _ \<Rightarrow> out), q'))"
| "run_channel push pop close (Close # ops) q = run_channel push pop close ops (close q)"

locale message_channel =
  fixes push :: "'m \<Rightarrow> 'q \<Rightarrow> push_result \<times> 'q"
    and pop :: "'q \<Rightarrow> 'm pop_result \<times> 'q"
    and close :: "'q \<Rightarrow> 'q"
    and contents :: "'q \<Rightarrow> 'm list"
    and closed :: "'q \<Rightarrow> bool"
    and inv :: "'q \<Rightarrow> bool"
  assumes push_accepted: "push m q = (Accepted, q') \<Longrightarrow> contents q' = contents q @ [m] \<and> \<not> closed q"
    and push_refused: "push m q = (r, q') \<Longrightarrow> r \<noteq> Accepted \<Longrightarrow> q' = q"
    and push_closed: "push m q = (r, q') \<Longrightarrow> closed q' = closed q"
    and pop_popped: "pop q = (Popped m, q') \<Longrightarrow> contents q = m # contents q'"
    and pop_nothing: "pop q = (p, q') \<Longrightarrow> (\<And>m. p \<noteq> Popped m) \<Longrightarrow> q' = q \<and> contents q = []"
    and pop_blocked: "pop q = (Blocked, q') \<Longrightarrow> \<not> closed q"
    and pop_closed: "pop q = (p, q') \<Longrightarrow> closed q' = closed q"
    and close_contents: "contents (close q) = contents q"
    and close_closed: "closed (close q)"
    and push_inv: "inv q \<Longrightarrow> inv (snd (push m q))"
    and pop_inv: "inv q \<Longrightarrow> inv (snd (pop q))"
    and close_inv: "inv q \<Longrightarrow> inv (close q)"
begin

lemma fifo:
  "run_channel push pop close ops q = (acc, out, q') \<Longrightarrow> contents q @ acc = out @ contents q'"
proof (induction ops arbitrary: q acc out)
  case (Cons op ops)
  show ?case
  proof (cases op)
    case (Push m)
    obtain r q1 acc1 where r: "push m q = (r, q1)" and run: "run_channel push pop close ops q1 = (acc1, out, q')"
      and acc: "acc = (if r = Accepted then m # acc1 else acc1)"
      using Cons.prems Push by (auto split: prod.splits)
    show ?thesis
    proof (cases "r = Accepted")
      case True
      then show ?thesis using Cons.IH [OF run] push_accepted r acc by fastforce
    next
      case False
      then show ?thesis using Cons.IH [OF run] push_refused [OF r] acc by simp
    qed
  next
    case Pop
    obtain r q1 out1 where r: "pop q = (r, q1)" and run: "run_channel push pop close ops q1 = (acc, out1, q')"
      and out: "out = (case r of Popped m \<Rightarrow> m # out1 | _ \<Rightarrow> out1)"
      using Cons.prems Pop by (auto split: prod.splits)
    show ?thesis
    proof (cases r)
      case (Popped m)
      then show ?thesis using Cons.IH [OF run] pop_popped r out by fastforce
    qed (use Cons.IH [OF run] pop_nothing [OF r] out in simp_all)
  next
    case Close
    then show ?thesis using Cons.IH [of "close q"] Cons.prems by (simp add: close_contents)
  qed
qed simp

lemma run_inv: "inv q \<Longrightarrow> run_channel push pop close ops q = (acc, out, q') \<Longrightarrow> inv q'"
proof (induction ops arbitrary: q acc out)
  case (Cons op ops)
  then show ?case
    by (cases op) (auto split: prod.splits dest: push_inv pop_inv close_inv, (metis push_inv pop_inv snd_conv)+)
qed simp

lemma closed_stays:
  "closed q \<Longrightarrow> run_channel push pop close ops q = (acc, out, q') \<Longrightarrow> acc = [] \<and> closed q'"
proof (induction ops arbitrary: q acc out)
  case (Cons op ops)
  show ?case
  proof (cases op)
    case (Push m)
    obtain r q1 acc1 where r: "push m q = (r, q1)" and run: "run_channel push pop close ops q1 = (acc1, out, q')"
      and acc: "acc = (if r = Accepted then m # acc1 else acc1)"
      using Cons.prems Push by (auto split: prod.splits)
    then show ?thesis using Cons.IH [OF _ run] push_closed [OF r] push_accepted Cons.prems(1) by auto
  next
    case Pop
    then obtain r q1 out1 where "pop q = (r, q1)" "run_channel push pop close ops q1 = (acc, out1, q')"
      using Cons.prems by (auto split: prod.splits)
    then show ?thesis using Cons.IH pop_closed Cons.prems(1) by metis
  next
    case Close
    then show ?thesis using Cons.IH [OF close_closed] Cons.prems by simp
  qed
qed simp

lemma drains: "closed q \<Longrightarrow> length (contents q) \<le> n \<Longrightarrow>
  (\<exists>q'. run_channel push pop close (replicate n Pop) q = ([], contents q, q'))"
proof (induction n arbitrary: q)
  case (Suc n)
  obtain r q1 where r: "pop q = (r, q1)" by fastforce
  have c1: "closed q1" using pop_closed [OF r] Suc.prems(1) by simp
  show ?case
  proof (cases r)
    case (Popped m)
    then have q: "contents q = m # contents q1" using pop_popped r by simp
    then obtain q' where "run_channel push pop close (replicate n Pop) q1 = ([], contents q1, q')"
      using Suc.IH [OF c1] Suc.prems(2) by auto
    then show ?thesis using q r Popped by simp
  next
    case Blocked
    then show ?thesis using pop_blocked r Suc.prems(1) by simp
  next
    case Drained
    then have q1: "q1 = q" "contents q = []" using pop_nothing r by blast+
    then obtain q' where "run_channel push pop close (replicate n Pop) q = ([], [], q')"
      using Suc.IH [OF Suc.prems(1)] by auto
    then show ?thesis using q1 r Drained by simp
  qed
qed simp

end

section \<open>The queue is such a channel\<close>

definition queue_inv :: "raw_queue \<Rightarrow> bool" where
  "queue_inv q \<longleftrightarrow>
     unat (rq_bytes q) = sum_list (map (length \<circ> rm_payload) (rq_messages q)) \<and>
     rq_bytes q \<le> maximum_bytes (rq_config q) \<and>
     length (rq_messages q) \<le> unat (maximum_messages (rq_config q))"

lemma unat_sub_of_nat: "n \<le> unat (w :: uint64) \<Longrightarrow> unat (w - of_nat n) = unat w - n"
  by (metis le_unat_uoi unat_sub word_le_nat_alt)

lemma queue_inv_push: "queue_inv q \<Longrightarrow> queue_inv (snd (try_push m q))"
proof (cases "fst (try_push m q) = Accepted")
  case True
  assume inv: "queue_inv q"
  let ?n = "length (rm_payload m)"
  have room: "?n \<le> unat (maximum_bytes (rq_config q)) - unat (rq_bytes q)"
    and count: "length (rq_messages q) < unat (maximum_messages (rq_config q))"
    and le: "unat (rq_bytes q) \<le> unat (maximum_bytes (rq_config q))"
    using True inv by (auto simp: try_push_def queue_inv_def unat_sub word_le_nat_alt split: if_splits)
  have fits: "unat (rq_bytes q) + ?n \<le> unat (maximum_bytes (rq_config q))" using room le by linarith
  moreover have "unat (maximum_bytes (rq_config q)) < 2 ^ 64" using unsigned_less [of "maximum_bytes (rq_config q)"] by simp
  ultimately have "unat (rq_bytes q + of_nat ?n) = unat (rq_bytes q) + ?n"
    by (simp add: unat_word_ariths unat_of_nat)
  then show ?thesis using inv True count fits
    by (auto simp: try_push_def queue_inv_def word_le_nat_alt split: if_splits)
qed (auto simp: try_push_def split: if_splits)

lemma queue_inv_pop: "queue_inv q \<Longrightarrow> queue_inv (snd (wait_pop q))"
  by (auto simp: wait_pop_def queue_inv_def word_le_nat_alt unat_sub_of_nat split: list.splits)

interpretation raw_channel: message_channel try_push wait_pop queue_close rq_messages rq_closed queue_inv
proof unfold_locales
  show "queue_inv (snd (try_push m q))" if "queue_inv q" for m q using that by (rule queue_inv_push)
  show "queue_inv (snd (wait_pop q))" if "queue_inv q" for q using that by (rule queue_inv_pop)
qed (auto simp: try_push_def wait_pop_def queue_close_def queue_inv_def split: if_splits list.splits)

lemma queue_inv_init: "queue_inv (RawRecordingQueue c)"
  by (simp add: queue_inv_def RawRecordingQueue_def)

section \<open>Properties\<close>

definition run_queue :: "raw_message channel_op list \<Rightarrow> raw_queue \<Rightarrow> raw_message list \<times> raw_message list \<times> raw_queue" where
  "run_queue ops q = run_channel try_push wait_pop queue_close ops q"

text \<open>C7. In every interleaving of pushes, pops and closes, the messages popped and then the
  messages still queued are exactly the accepted ones in the order of acceptance: nothing
  that was accepted is lost, duplicated or reordered.\<close>

theorem queue_is_fifo:
  "case run_queue ops (RawRecordingQueue c) of (acc, out, q) \<Rightarrow> out @ rq_messages q = acc"
  using raw_channel.fifo [of ops "RawRecordingQueue c"]
  by (auto simp: run_queue_def RawRecordingQueue_def split: prod.splits)

text \<open>C28. In every interleaving the byte counter is the exact sum of the queued payload sizes,
  neither configured limit is exceeded and the subtraction that computes the free space never
  wraps.\<close>

theorem queue_bounded:
  "case run_queue ops (RawRecordingQueue c) of (acc, out, q) \<Rightarrow>
     unat (payload_bytes q) = sum_list (map (length \<circ> rm_payload) (rq_messages q)) \<and>
     payload_bytes q \<le> maximum_bytes (rq_config q) \<and>
     message_count q \<le> unat (maximum_messages (rq_config q))"
  using raw_channel.run_inv [OF queue_inv_init, of ops c]
  by (auto simp: run_queue_def queue_inv_def payload_bytes_def message_count_def split: prod.splits)

text \<open>C30. After \<open>close\<close> no message is accepted any more, and enough calls of \<open>wait_pop\<close> return
  every queued message in order without blocking.\<close>

theorem closed_queue_drains:
  "fst (run_queue ops (queue_close q)) = [] \<and>
   fst (snd (run_queue (replicate (message_count q) Pop) (queue_close q))) = rq_messages q"
proof
  have closed: "rq_closed (queue_close q)" by (simp add: queue_close_def)
  show "fst (run_queue ops (queue_close q)) = []"
    using raw_channel.closed_stays [OF closed] by (metis run_queue_def prod.collapse)
  show "fst (snd (run_queue (replicate (message_count q) Pop) (queue_close q))) = rq_messages q"
    using raw_channel.drains [OF closed, of "message_count q"]
    by (auto simp: run_queue_def message_count_def queue_close_def)
qed

end
