(* ===== verification/CoinbaseParsers.thy ===== *)
theory CoinbaseParsers
  imports Timestamps JsonRoundTrip
begin

text \<open>
  The Coinbase message parsers: \<open>coinbase_symbol_mapper.cpp\<close>, \<open>coinbase_l2_parser.cpp\<close> and
  \<open>coinbase_heartbeat_parser.cpp\<close> under \<open>src/adapters/coinbase\<close>. The optional stage timings
  are the null pointer, as in production; they are written and never read by the parser.
\<close>

section \<open>Products\<close>

record coinbase_product_config =
  pc_instrument :: instrument
  pc_price_scale :: int
  pc_quantity_scale :: int

type_synonym coinbase_symbol_mapper = "(string, coinbase_product_config) omap"

definition CoinbaseSymbolMapper :: "(string, coinbase_product_config) omap \<Rightarrow> coinbase_symbol_mapper result" where
  "CoinbaseSymbolMapper products =
     (if list_ex (\<lambda>(symbol, config). symbol = [] \<or> pc_price_scale config > 18 \<or> pc_quantity_scale config > 18) products
      then Inl (InvalidArgument ''invalid Coinbase product configuration'')
      else Inr products)"

definition default_products :: coinbase_symbol_mapper where
  "default_products =
     [(''BTC-USD'', \<lparr>pc_instrument = BTC_USD, pc_price_scale = 2, pc_quantity_scale = 8\<rparr>)]"

definition product_lookup :: "string \<Rightarrow> coinbase_symbol_mapper \<Rightarrow> coinbase_product_config option" where
  "product_lookup product products = om_find product products"

section \<open>The level 2 parser\<close>

datatype parse_status = Parsed | Ignored | Error

record coinbase_parse_result =
  cp_status :: parse_status
  cp_events :: "market_event list"
  cp_error :: string
  cp_raw_message :: string
  cp_sequence :: "uint64 option"
  cp_heartbeat_channel :: bool

definition string_field :: "json \<Rightarrow> string \<Rightarrow> string result" where
  "string_field object key = bind_exn (json_at object key) get_ref_string"

definition coinbase_timestamp :: "string \<Rightarrow> exchange_timestamp result" where
  "coinbase_timestamp value = parse_timestamp (InvalidArgument ''invalid Coinbase UTC timestamp'') value"

text \<open>One entry of \<open>updates\<close>.\<close>

definition coinbase_level :: "coinbase_product_config \<Rightarrow> json \<Rightarrow> book_level result" where
  "coinbase_level config update =
     bind_exn (string_field update ''side'') (\<lambda>side.
       if side \<noteq> ''bid'' \<and> side \<noteq> ''offer'' then Inl (InvalidArgument ''unknown Coinbase L2 side'')
       else
         bind_exn (bind_exn (string_field update ''event_time'') coinbase_timestamp) (\<lambda>_.
         bind_exn (bind_exn (string_field update ''price_level'') (\<lambda>s. parse_price s (pc_price_scale config))) (\<lambda>price.
         bind_exn (bind_exn (string_field update ''new_quantity'') (\<lambda>s. parse_quantity s (pc_quantity_scale config))) (\<lambda>quantity.
           Inr \<lparr>lv_side = (if side = ''bid'' then Bid else Ask), lv_price = price, lv_quantity = quantity\<rparr>))))"

text \<open>One entry of \<open>events\<close>; the receive times and the envelope's time and sequence are copied into it.\<close>

definition coinbase_event ::
  "coinbase_symbol_mapper \<Rightarrow> exchange_timestamp \<Rightarrow> receive_wall_timestamp \<Rightarrow> receive_monotonic_timestamp \<Rightarrow> uint64 \<Rightarrow>
   json \<Rightarrow> market_event result" where
  "coinbase_event symbols exchange_time wall monotonic sequence_num event =
     bind_exn (string_field event ''type'') (\<lambda>type.
       if type \<noteq> ''snapshot'' \<and> type \<noteq> ''update'' then Inl (InvalidArgument ''unknown Coinbase L2 event type'')
       else
         bind_exn (string_field event ''product_id'') (\<lambda>product.
         case product_lookup product symbols of
           None \<Rightarrow> Inl (InvalidArgument ''unsupported Coinbase product'')
         | Some config \<Rightarrow>
             bind_exn (bind_exn (json_at event ''updates'') get_ref_array) (\<lambda>updates.
             bind_exn (traverse (coinbase_level config) updates) (\<lambda>levels.
               Inr (if type = ''snapshot''
                    then BookSnapshot \<lparr>sn_venue = Coinbase, sn_instrument = pc_instrument config, sn_levels = levels,
                           sn_exchange_time = exchange_time, sn_receive_wall_time = wall,
                           sn_receive_monotonic_time = monotonic, sn_sequence = Some sequence_num\<rparr>
                    else BookUpdate \<lparr>up_venue = Coinbase, up_instrument = pc_instrument config, up_changes = levels,
                           up_exchange_time = exchange_time, up_receive_wall_time = wall,
                           up_receive_monotonic_time = monotonic, up_sequence = Some sequence_num\<rparr>)))))"

text \<open>The checks on \<open>channel\<close> and \<open>type\<close>, up to the explicit error; the result is the channel.\<close>

definition optional_field :: "json \<Rightarrow> string \<Rightarrow> string result" where
  "optional_field message key = (if json_contains message key then string_field message key else Inr [])"

definition envelope_channel :: "string \<Rightarrow> json \<Rightarrow> string result" where
  "envelope_channel raw_message message =
     (if \<not> is_object message then Inl (InvalidArgument ''expected message object'')
      else if \<not> json_contains message ''channel'' \<and> \<not> json_contains message ''type''
      then Inl (InvalidArgument ''message requires channel or type'')
      else
        bind_exn (optional_field message ''channel'') (\<lambda>channel.
        bind_exn (optional_field message ''type'') (\<lambda>type.
          if type = ''error'' \<or> channel = ''error''
          then Inl (InvalidArgument (''explicit Coinbase error: '' @ raw_message))
          else Inr channel)))"

definition envelope_sequence :: "bool \<Rightarrow> json \<Rightarrow> uint64 option result" where
  "envelope_sequence l2 message =
     (if l2 \<or> json_contains message ''sequence_num'' then
        bind_exn (json_at message ''sequence_num'') (\<lambda>sequence.
          if \<not> is_number_unsigned sequence \<and>
             \<not> (is_number_integer sequence \<and> (case get_int64 sequence of Inl _ \<Rightarrow> False | Inr i \<Rightarrow> i \<ge> 0))
          then Inl (InvalidArgument ''sequence_num must be a nonnegative uint64 integer'')
          else bind_exn (get_uint64 sequence) (\<lambda>u. Inr (Some u)))
      else Inr None)"

definition l2_events ::
  "coinbase_symbol_mapper \<Rightarrow> receive_wall_timestamp \<Rightarrow> receive_monotonic_timestamp \<Rightarrow> uint64 \<Rightarrow> json \<Rightarrow>
   market_event list result" where
  "l2_events symbols wall monotonic sequence_num message =
     bind_exn (bind_exn (string_field message ''timestamp'') coinbase_timestamp) (\<lambda>exchange_time.
     bind_exn (bind_exn (json_at message ''events'') get_ref_array) (\<lambda>events.
       traverse (coinbase_event symbols exchange_time wall monotonic sequence_num) events))"

text \<open>
  The body of the \<open>try\<close> block. It updates \<open>result\<close> as it goes, so an exception comes with
  the result as it was left.
\<close>

definition coinbase_parse_body ::
  "coinbase_symbol_mapper \<Rightarrow> string \<Rightarrow> receive_wall_timestamp \<Rightarrow> receive_monotonic_timestamp \<Rightarrow>
   coinbase_parse_result \<Rightarrow> exn option \<times> coinbase_parse_result" where
  "coinbase_parse_body symbols raw_message wall monotonic result =
     (case json_parse raw_message of Inl e \<Rightarrow> (Some e, result)
      | Inr message \<Rightarrow>
        (case envelope_channel raw_message message of Inl e \<Rightarrow> (Some e, result)
         | Inr channel \<Rightarrow>
           let l2 = (channel = ''l2_data'');
               result = result\<lparr>cp_heartbeat_channel := (channel = ''heartbeats'')\<rparr>
           in (case envelope_sequence l2 message of Inl e \<Rightarrow> (Some e, result)
               | Inr sequence \<Rightarrow>
                 let result = result\<lparr>cp_sequence := sequence\<rparr>
                 in if \<not> l2 then (None, result\<lparr>cp_status := Ignored\<rparr>)
                    else (case l2_events symbols wall monotonic (the sequence) message of Inl e \<Rightarrow> (Some e, result)
                          | Inr events \<Rightarrow> (None, result\<lparr>cp_events := events, cp_status := Parsed\<rparr>)))))"

text \<open>The handlers: an exception of any other class would leave \<open>parse\<close>.\<close>

definition coinbase_parse ::
  "coinbase_symbol_mapper \<Rightarrow> string \<Rightarrow> receive_wall_timestamp \<Rightarrow> receive_monotonic_timestamp \<Rightarrow> bool \<Rightarrow>
   coinbase_parse_result result" where
  "coinbase_parse symbols raw_message wall monotonic retain_raw_message =
     (case coinbase_parse_body symbols raw_message wall monotonic
             \<lparr>cp_status = Error, cp_events = [], cp_error = [],
              cp_raw_message = (if retain_raw_message then raw_message else []),
              cp_sequence = None, cp_heartbeat_channel = False\<rparr> of
        (None, result) \<Rightarrow> Inr result
      | (Some e, result) \<Rightarrow>
          (if is_json_exception e \<or> is_logic_error e \<or> is_overflow_error e
           then Inr (result\<lparr>cp_error := what e\<rparr>) else Inl e))"

section \<open>The heartbeat parser\<close>

record heartbeat =
  hb_venue :: venue
  hb_receive_wall_time :: receive_wall_timestamp
  hb_receive_monotonic_time :: receive_monotonic_timestamp
  hb_counter :: "uint64 option"

text \<open>
  \<open>std::from_chars\<close> for an unsigned 64 bit number: the longest digit prefix and the rest;
  \<open>None\<close> is an error code, for no digits at all or for a number out of range.
\<close>

definition from_chars :: "string \<Rightarrow> (uint64 \<times> string) option" where
  "from_chars s =
     (let ds = takeWhile is_digit s in
      if ds = [] \<or> digits_val ds \<ge> 2 ^ 64 then None
      else Some (of_nat (digits_val ds), dropWhile is_digit s))"

definition heartbeat_counter :: "json \<Rightarrow> uint64 result" where
  "heartbeat_counter v =
     (if is_number_unsigned v then get_uint64 v
      else if is_string v then
        bind_exn (get_string v) (\<lambda>s.
          case from_chars s of
            Some (counter, []) \<Rightarrow> Inr counter
          | _ \<Rightarrow> Inl (InvalidArgument ''invalid heartbeat counter''))
      else Inl (InvalidArgument ''invalid heartbeat counter''))"

fun heartbeat_events :: "json list \<Rightarrow> uint64 option \<Rightarrow> uint64 option result" where
  "heartbeat_events [] counter = Inr counter"
| "heartbeat_events (e # es) counter =
     (if \<not> is_object e then Inl (InvalidArgument ''invalid heartbeat event'')
      else if \<not> json_contains e ''heartbeat_counter'' then heartbeat_events es counter
      else bind_exn (bind_exn (json_at e ''heartbeat_counter'') heartbeat_counter) (\<lambda>c. heartbeat_events es (Some c)))"

definition parse_heartbeat ::
  "string \<Rightarrow> receive_wall_timestamp \<Rightarrow> receive_monotonic_timestamp \<Rightarrow> heartbeat option result" where
  "parse_heartbeat raw wall monotonic =
     bind_exn (json_parse raw) (\<lambda>j.
     bind_exn (value_string j ''channel'' []) (\<lambda>channel.
       if channel \<noteq> ''heartbeats'' then Inr None
       else bind_exn (json_at j ''events'') (\<lambda>events.
         case events of
           JArray es \<Rightarrow>
             (if es = [] then Inl (InvalidArgument ''invalid heartbeat events'')
              else bind_exn (heartbeat_events es None) (\<lambda>counter.
                Inr (Some \<lparr>hb_venue = Coinbase, hb_receive_wall_time = wall,
                           hb_receive_monotonic_time = monotonic, hb_counter = counter\<rparr>)))
         | _ \<Rightarrow> Inl (InvalidArgument ''invalid heartbeat events''))))"

section \<open>What the parsers may throw\<close>

text \<open>The exceptions the handlers of \<open>parse\<close> name, all with a message.\<close>

definition caught :: "exn \<Rightarrow> bool" where
  "caught e \<longleftrightarrow> (is_json_exception e \<or> is_logic_error e \<or> is_overflow_error e) \<and> what e \<noteq> []"

lemma caught_InvalidArgument [simp]: "caught (InvalidArgument m) \<longleftrightarrow> m \<noteq> []"
  by (simp add: caught_def)

lemma caught_json: "is_json_exception e \<Longrightarrow> caught e"
  by (cases e) (simp_all add: caught_def)

lemma json_throws [throws_rules]:
  "throws_only caught (json_parse raw)"
  "throws_only caught (json_at j key)"
  "throws_only caught (get_ref_string j)"
  "throws_only caught (get_ref_array j)"
  "throws_only caught (get_string j)"
  "throws_only caught (get_uint64 j)"
  "throws_only caught (value_string j key d)"
  by (rule throws_onlyI, rule caught_json, erule json_parse_exn json_access_exn value_string_exn)+

lemma number_throws: "throws_only ((=) e) (number_at e v i n)"
  by (auto simp: number_at_def number_from_eq throws_only_def)

lemma fraction_throws: "throws_only ((=) e) (fraction_at e v)"
  by (auto simp: fraction_at_def Let_def intro!: throws_rules number_throws)

lemma combine_throws: "throws_only ((=) e) (combine_nanoseconds e s f)"
  by (simp add: combine_nanoseconds_def throws_only_def)

lemma parse_timestamp_throws: "throws_only ((=) e) (parse_timestamp e v)"
  unfolding parse_timestamp_def
  by (intro throws_rules number_throws fraction_throws combine_throws) simp_all

lemma timestamp_throws [throws_rules]: "throws_only caught (coinbase_timestamp v)"
  unfolding coinbase_timestamp_def by (rule throws_only_mono [OF parse_timestamp_throws]) auto

lemma scan_decimal_throws: "throws_only caught (scan_decimal n i p f cs)"
  by (induction cs arbitrary: i p f) (auto intro!: throws_rules)

lemma append_digit_throws: "throws_only caught (append_digit raw d)"
  by (simp add: append_digit_def throws_only_def caught_def)

lemma append_throws: "throws_only caught (append_chars raw cs)" "throws_only caught (append_zeros k raw)"
proof -
  show "throws_only caught (append_chars raw cs)"
    by (induction cs arbitrary: raw) (auto intro!: throws_rules append_digit_throws)
  show "throws_only caught (append_zeros k raw)"
    by (induction k arbitrary: raw) (auto intro!: throws_rules append_digit_throws)
qed

lemma parse_decimal_throws [throws_rules]: "throws_only caught (parse_decimal s scale)"
  unfolding parse_decimal_def
  by (intro throws_rules scan_decimal_throws append_throws) (simp_all add: caught_def)

lemma l2_throws:
  "throws_only caught (string_field j key)"
  "throws_only caught (coinbase_level config j)"
  "throws_only caught (coinbase_event symbols t w m n j)"
  "throws_only caught (l2_events symbols w m n j)"
  "throws_only caught (envelope_channel raw j)"
  "throws_only caught (envelope_sequence l2 j)"
proof -
  show field: "throws_only caught (string_field j key)" for j key
    unfolding string_field_def by (intro throws_rules)
  have level: "throws_only caught (coinbase_level config j)" for config j
    unfolding coinbase_level_def parse_decimal_price parse_decimal_quantity
    by (intro throws_rules field) simp_all
  then show "throws_only caught (coinbase_level config j)" .
  have event: "throws_only caught (coinbase_event symbols t w m n j)" for t j
    unfolding coinbase_event_def by (intro throws_rules field level) simp_all
  then show "throws_only caught (coinbase_event symbols t w m n j)" .
  show "throws_only caught (l2_events symbols w m n j)"
    unfolding l2_events_def by (intro throws_rules field event)
  show "throws_only caught (envelope_channel raw j)"
    unfolding envelope_channel_def optional_field_def by (intro throws_rules field) simp_all
  show "throws_only caught (envelope_sequence l2 j)"
    unfolding envelope_sequence_def by (intro throws_rules) simp_all
qed

lemma heartbeat_counter_throws [throws_rules]: "throws_only caught (heartbeat_counter v)"
  unfolding heartbeat_counter_def
  by (intro throws_rules) (auto split: prod.split list.split intro!: throws_rules)

lemma heartbeat_events_throws [throws_rules]: "throws_only caught (heartbeat_events es c)"
  by (induction es arbitrary: c) (auto intro!: throws_rules)

lemma parse_heartbeat_throws: "throws_only caught (parse_heartbeat raw w m)"
  unfolding parse_heartbeat_def
  by (intro throws_rules) (auto split: json.split intro!: throws_rules)

section \<open>The outcomes of the level 2 parser\<close>

lemma envelope_sequence_l2: "envelope_sequence True j = Inr x \<Longrightarrow> \<exists>n. x = Some n"
  by (auto simp: envelope_sequence_def bind_exn_eq_Inr split: if_splits)

definition parsed_l2 ::
  "coinbase_symbol_mapper \<Rightarrow> string \<Rightarrow> receive_wall_timestamp \<Rightarrow> receive_monotonic_timestamp \<Rightarrow> uint64 \<Rightarrow>
   market_event list \<Rightarrow> bool" where
  "parsed_l2 symbols raw w m n es \<longleftrightarrow>
     (\<exists>message. json_parse raw = Inr message \<and> envelope_channel raw message = Inr ''l2_data'' \<and>
        envelope_sequence True message = Inr (Some n) \<and> l2_events symbols w m n message = Inr es)"

lemma coinbase_parse_cases:
  "\<exists>r. coinbase_parse symbols raw w m keep = Inr r \<and>
     (cp_status r = Error \<and> cp_error r \<noteq> [] \<and> cp_events r = [] \<and> (\<nexists>n es. parsed_l2 symbols raw w m n es) \<or>
      cp_status r = Ignored \<and> cp_error r = [] \<and> cp_events r = [] \<and> (\<nexists>n es. parsed_l2 symbols raw w m n es) \<or>
      cp_status r = Parsed \<and> cp_error r = [] \<and> \<not> cp_heartbeat_channel r \<and>
        (\<exists>n. cp_sequence r = Some n \<and> parsed_l2 symbols raw w m n (cp_events r)))"
proof -
  let ?body = "coinbase_parse_body symbols raw w m"
  have caughtD: "what e \<noteq> []" "is_json_exception e \<or> is_logic_error e \<or> is_overflow_error e" if "caught e" for e
    using that by (auto simp: caught_def)
  show ?thesis
  proof (cases "json_parse raw")
    case (Inl e)
    then show ?thesis using caughtD throws_onlyD [OF json_throws(1) Inl]
      by (simp add: coinbase_parse_def coinbase_parse_body_def parsed_l2_def)
  next
    case message: (Inr message)
    show ?thesis
    proof (cases "envelope_channel raw message")
      case (Inl e)
      then show ?thesis using message caughtD throws_onlyD [OF l2_throws(5) Inl]
        by (simp add: coinbase_parse_def coinbase_parse_body_def parsed_l2_def)
    next
      case channel: (Inr channel)
      show ?thesis
      proof (cases "envelope_sequence (channel = ''l2_data'') message")
        case (Inl e)
        then show ?thesis using message channel caughtD throws_onlyD [OF l2_throws(6) Inl]
          by (auto simp: coinbase_parse_def coinbase_parse_body_def parsed_l2_def Let_def)
      next
        case sequence: (Inr sequence)
        show ?thesis
        proof (cases "channel = ''l2_data''")
          case False
          then show ?thesis using message channel sequence
            by (simp add: coinbase_parse_def coinbase_parse_body_def parsed_l2_def Let_def)
        next
          case True
          obtain n where n: "sequence = Some n" using envelope_sequence_l2 sequence True by auto
          show ?thesis
          proof (cases "l2_events symbols w m n message")
            case (Inl e)
            then show ?thesis using message channel sequence True n caughtD throws_onlyD [OF l2_throws(4) Inl]
              by (auto simp: coinbase_parse_def coinbase_parse_body_def parsed_l2_def Let_def)
          next
            case (Inr events)
            then show ?thesis using message channel sequence True n
              by (simp add: coinbase_parse_def coinbase_parse_body_def parsed_l2_def Let_def)
          qed
        qed
      qed
    qed
  qed
qed

section \<open>What an accepted envelope says\<close>

text \<open>A decimal text with its exact value at a scale.\<close>

definition decimal_text :: "string \<Rightarrow> int \<Rightarrow> int \<Rightarrow> bool" where
  "decimal_text s scale r \<longleftrightarrow>
     (\<exists>ip fp. decimal_parts s ip fp \<and> length fp \<le> nat scale \<and> r = scaled_value ip fp scale \<and> r \<le> INT64_MAX)"

lemma parse_decimal_iff:
  assumes "0 \<le> scale" and "scale \<le> 18"
  shows "parse_decimal s scale = Inr r \<longleftrightarrow> decimal_text s scale r"
proof (cases "\<exists>ip fp. decimal_parts s ip fp")
  case True
  then obtain ip fp where p: "decimal_parts s ip fp" by blast
  then have "decimal_text s scale r \<longleftrightarrow> length fp \<le> nat scale \<and> r = scaled_value ip fp scale \<and> r \<le> INT64_MAX"
    using decimal_parts_unique by (metis decimal_text_def)
  then show ?thesis using parse_decimal_parts [OF assms p] by auto
next
  case False
  then show ?thesis using parse_decimal_malformed [OF assms, of s] by (auto simp: decimal_text_def)
qed

definition l2_level_of :: "coinbase_product_config \<Rightarrow> json \<Rightarrow> book_level \<Rightarrow> bool" where
  "l2_level_of config j l \<longleftrightarrow>
     (\<exists>t ts p q. string_field j ''side'' = Inr (if lv_side l = Bid then ''bid'' else ''offer'') \<and>
        string_field j ''event_time'' = Inr t \<and> coinbase_timestamp t = Inr ts \<and>
        string_field j ''price_level'' = Inr p \<and> decimal_text p (pc_price_scale config) (lv_price l) \<and>
        string_field j ''new_quantity'' = Inr q \<and> decimal_text q (pc_quantity_scale config) (lv_quantity l))"

definition l2_event_of ::
  "coinbase_symbol_mapper \<Rightarrow> exchange_timestamp \<Rightarrow> receive_wall_timestamp \<Rightarrow> receive_monotonic_timestamp \<Rightarrow> uint64 \<Rightarrow>
   json \<Rightarrow> market_event \<Rightarrow> bool" where
  "l2_event_of symbols t w m n j e \<longleftrightarrow>
     (\<exists>product config updates levels. string_field j ''product_id'' = Inr product \<and>
        om_find product symbols = Some config \<and> json_at j ''updates'' = Inr (JArray updates) \<and>
        list_all2 (l2_level_of config) updates levels \<and>
        (string_field j ''type'' = Inr ''snapshot'' \<and>
           e = BookSnapshot \<lparr>sn_venue = Coinbase, sn_instrument = pc_instrument config, sn_levels = levels,
                 sn_exchange_time = t, sn_receive_wall_time = w, sn_receive_monotonic_time = m, sn_sequence = Some n\<rparr> \<or>
         string_field j ''type'' = Inr ''update'' \<and>
           e = BookUpdate \<lparr>up_venue = Coinbase, up_instrument = pc_instrument config, up_changes = levels,
                 up_exchange_time = t, up_receive_wall_time = w, up_receive_monotonic_time = m, up_sequence = Some n\<rparr>))"

text \<open>A mapper its constructor accepts; the scales are unsigned.\<close>

definition mapper_ok :: "coinbase_symbol_mapper \<Rightarrow> bool" where
  "mapper_ok symbols \<longleftrightarrow> CoinbaseSymbolMapper symbols = Inr symbols \<and>
     list_all (\<lambda>(_, c). 0 \<le> pc_price_scale c \<and> 0 \<le> pc_quantity_scale c) symbols"

lemma mapper_ok_find:
  assumes "mapper_ok symbols" and "om_find p symbols = Some c"
  shows "0 \<le> pc_price_scale c \<and> pc_price_scale c \<le> 18 \<and> 0 \<le> pc_quantity_scale c \<and> pc_quantity_scale c \<le> 18"
proof -
  have "(p, c) \<in> set symbols" using assms(2) by (auto simp: om_find_def dest: map_of_SomeD)
  then show ?thesis using assms(1)
    by (auto simp: mapper_ok_def CoinbaseSymbolMapper_def list_ex_iff list_all_iff not_less split: if_splits)
qed

lemma get_ref_array_iff: "get_ref_array j = Inr xs \<longleftrightarrow> j = JArray xs"
  by (cases j) auto

lemma coinbase_level_iff:
  assumes "0 \<le> pc_price_scale c" "pc_price_scale c \<le> 18" "0 \<le> pc_quantity_scale c" "pc_quantity_scale c \<le> 18"
  shows "coinbase_level c j = Inr l \<longleftrightarrow> l2_level_of c j l"
proof -
  have eq: "Inr \<lparr>lv_side = s, lv_price = p, lv_quantity = q\<rparr> = (Inr l :: book_level result) \<longleftrightarrow>
      lv_side l = s \<and> lv_price l = p \<and> lv_quantity l = q" for s p q
    by (cases l) auto
  let ?side = "if lv_side l = Bid then ''bid'' else ''offer''"
  have side: "(if s \<noteq> ''bid'' \<and> s \<noteq> ''offer'' then Inl e else
        bind_exn ts (\<lambda>_. bind_exn pr (\<lambda>p. bind_exn qu (\<lambda>q.
          Inr \<lparr>lv_side = (if s = ''bid'' then Bid else Ask), lv_price = p, lv_quantity = q\<rparr>)))) = Inr l \<longleftrightarrow>
      s = ?side \<and> (\<exists>t. ts = Inr t) \<and> pr = Inr (lv_price l) \<and> qu = Inr (lv_quantity l)"
    for s e and ts :: "int result" and pr qu
    by (cases "lv_side l"; cases ts; cases pr; cases qu) (auto simp: eq)
  show ?thesis
    unfolding coinbase_level_def bind_exn_eq_Inr [of "string_field j ''side''"] side l2_level_of_def
    by (simp only: bind_exn_eq_Inr parse_decimal_price parse_decimal_quantity parse_decimal_iff [OF assms(1,2)]
        parse_decimal_iff [OF assms(3,4)]) blast
qed

lemma coinbase_event_iff:
  assumes "mapper_ok symbols"
  shows "coinbase_event symbols t w m n j = Inr e \<longleftrightarrow> l2_event_of symbols t w m n j e"
proof -
  have level: "coinbase_level c u = Inr l \<longleftrightarrow> l2_level_of c u l" if "om_find p symbols = Some c" for p c u l
    using coinbase_level_iff mapper_ok_find [OF assms that] by blast
  have levels: "traverse (coinbase_level c) us = Inr ls \<longleftrightarrow> list_all2 (l2_level_of c) us ls"
    if "om_find p symbols = Some c" for p c us ls
    using level [OF that] by (simp add: traverse_Inr_iff)
  have if_eq: "(if b then Inl x else y) = (Inr e :: market_event result) \<longleftrightarrow> \<not> b \<and> y = Inr e" for b x y by simp
  have opt: "(case o' of None \<Rightarrow> Inl x | Some c \<Rightarrow> f c) = (Inr e :: market_event result) \<longleftrightarrow> (\<exists>c. o' = Some c \<and> f c = Inr e)"
    for o' x f by (cases o') simp_all
  show ?thesis
    unfolding coinbase_event_def l2_event_of_def bind_exn_eq_Inr if_eq opt get_ref_array_iff product_lookup_def
    by (auto simp: levels split: if_splits)
qed

lemma parsed_l2_iff:
  assumes "mapper_ok symbols"
  shows "parsed_l2 symbols raw w m n es \<longleftrightarrow>
    (\<exists>message t ts evs. json_parse raw = Inr message \<and> envelope_channel raw message = Inr ''l2_data'' \<and>
       envelope_sequence True message = Inr (Some n) \<and>
       string_field message ''timestamp'' = Inr t \<and> coinbase_timestamp t = Inr ts \<and>
       json_at message ''events'' = Inr (JArray evs) \<and> list_all2 (l2_event_of symbols ts w m n) evs es)"
  unfolding parsed_l2_def l2_events_def bind_exn_eq_Inr get_ref_array_iff traverse_Inr_iff
    coinbase_event_iff [OF assms] by blast

lemma parsed_l2_unique: "parsed_l2 symbols raw w m n es \<Longrightarrow> parsed_l2 symbols raw w m n' es' \<Longrightarrow> n = n' \<and> es = es'"
  by (auto simp: parsed_l2_def)

definition sample_l2_json :: json where
  "sample_l2_json = JObject
     [(''channel'', JString ''l2_data''),
      (''events'', JArray [JObject
        [(''product_id'', JString ''BTC-USD''), (''type'', JString ''snapshot''),
         (''updates'', JArray [JObject
           [(''event_time'', JString ''2026-07-12T15:30:00Z''), (''new_quantity'', JString ''2''),
            (''price_level'', JString ''100.5''), (''side'', JString ''bid'')]])]]),
      (''sequence_num'', JUInt 7), (''timestamp'', JString ''2026-07-12T15:30:00Z'')]"

definition sample_l2 :: string where
  "sample_l2 = json_text sample_l2_json"

definition sample_l2_events :: "market_event list" where
  "sample_l2_events = [BookSnapshot \<lparr>sn_venue = Coinbase, sn_instrument = BTC_USD,
     sn_levels = [\<lparr>lv_side = Bid, lv_price = 10050, lv_quantity = 200000000\<rparr>],
     sn_exchange_time = 1783870200000000000, sn_receive_wall_time = 10, sn_receive_monotonic_time = 20,
     sn_sequence = Some 7\<rparr>]"

lemma sample_l2_json_parse: "json_parse sample_l2 = Inr sample_l2_json"
proof -
  have "json_ascii sample_l2_json" "json_wf sample_l2_json" "float_free sample_l2_json" "reread sample_l2_json = sample_l2_json"
    by code_simp+
  then show ?thesis using json_parse_text by (simp add: sample_l2_def)
qed

lemma sample_l2_parsed:
  "coinbase_parse default_products sample_l2 10 20 False =
     Inr \<lparr>cp_status = Parsed, cp_events = sample_l2_events, cp_error = [], cp_raw_message = [],
          cp_sequence = Some 7, cp_heartbeat_channel = False\<rparr>"
proof -
  have channel: "envelope_channel raw sample_l2_json = Inr ''l2_data''" for raw
    by (simp add: envelope_channel_def optional_field_def string_field_def json_at_def json_contains_def sample_l2_json_def om_find_def)
  have sequence: "envelope_sequence True sample_l2_json = Inr (Some 7)" by code_simp
  have events: "l2_events default_products 10 20 7 sample_l2_json = Inr sample_l2_events" by code_simp
  show ?thesis by (simp add: coinbase_parse_def coinbase_parse_body_def sample_l2_json_parse channel sequence events)
qed

section \<open>Properties\<close>

text \<open>C21. The parser never throws, and its errors are atomic: an envelope with an error yields a
  message and no events at all, whichever of its entries is malformed; only a parsed envelope
  carries events.\<close>

theorem coinbase_parse_atomic:
  "\<exists>r. coinbase_parse symbols raw w m keep = Inr r \<and>
     (cp_status r = Error) = (cp_error r \<noteq> []) \<and> (cp_status r = Parsed \<or> cp_events r = [])"
  using coinbase_parse_cases [of symbols raw w m keep] by force

text \<open>C20. An envelope is parsed into events exactly when it is a well-formed \<open>l2_data\<close> message; then
  every event carries the envelope's sequence and time, and every level its side and the exact
  value of its decimal price and quantity at the product's scales.\<close>

theorem coinbase_parse_exact:
  assumes "mapper_ok symbols"
  shows "(\<exists>r. coinbase_parse symbols raw w m keep = Inr r \<and> cp_status r = Parsed \<and>
      cp_sequence r = Some n \<and> cp_events r = es) \<longleftrightarrow>
    (\<exists>message t ts evs. json_parse raw = Inr message \<and> envelope_channel raw message = Inr ''l2_data'' \<and>
       envelope_sequence True message = Inr (Some n) \<and>
       string_field message ''timestamp'' = Inr t \<and> coinbase_timestamp t = Inr ts \<and>
       json_at message ''events'' = Inr (JArray evs) \<and> list_all2 (l2_event_of symbols ts w m n) evs es)"
proof -
  obtain r where r: "coinbase_parse symbols raw w m keep = Inr r"
    and cases: "cp_status r \<noteq> Parsed \<and> (\<nexists>n es. parsed_l2 symbols raw w m n es) \<or>
      cp_status r = Parsed \<and> (\<exists>n. cp_sequence r = Some n \<and> parsed_l2 symbols raw w m n (cp_events r))"
    using coinbase_parse_cases [of symbols raw w m keep] by force
  show ?thesis unfolding parsed_l2_iff [OF assms, symmetric]
    using r cases parsed_l2_unique by (metis Inr_inject option.inject)
qed

theorem coinbase_parse_exact_witness:
  "mapper_ok default_products \<and>
   (\<exists>message t ts evs. json_parse sample_l2 = Inr message \<and> envelope_channel sample_l2 message = Inr ''l2_data'' \<and>
       envelope_sequence True message = Inr (Some 7) \<and>
       string_field message ''timestamp'' = Inr t \<and> coinbase_timestamp t = Inr ts \<and>
       json_at message ''events'' = Inr (JArray evs) \<and>
       list_all2 (l2_event_of default_products ts 10 20 7) evs sample_l2_events)"
proof -
  have ok: "mapper_ok default_products" by (simp add: mapper_ok_def default_products_def CoinbaseSymbolMapper_def)
  show ?thesis unfolding coinbase_parse_exact [OF ok, of sample_l2 10 20 False 7 sample_l2_events, symmetric]
    using ok sample_l2_parsed by simp
qed

end
