(* ===== verification/CoinbaseHandler.thy ===== *)
theory CoinbaseHandler
  imports CoinbaseParsers OrderBook SequenceTracker RecordingQueue
begin

text \<open>
  Processing of Coinbase messages: \<open>coinbase_feed_health.cpp\<close>, \<open>reconnect_policy.cpp\<close>,
  \<open>coinbase_message_handler.cpp\<close> and \<open>coinbase_message_pipeline.hpp\<close>. The book, the sequence
  tracker and the feed health, which the classes share by reference, form one record that is
  passed along. A reading of the monotonic clock is an argument.
\<close>

section \<open>Feed health\<close>

text \<open>Intervals are milliseconds, time points nanoseconds.\<close>

record feed_health_config =
  fc_check_interval :: int
  fc_max_any_message_age :: int
  fc_max_heartbeat_age :: int
  fc_max_instrument_message_age :: "int option"

definition default_health_config :: feed_health_config where
  "default_health_config = \<lparr>fc_check_interval = 1000, fc_max_any_message_age = 5000,
     fc_max_heartbeat_age = 5000, fc_max_instrument_message_age = None\<rparr>"

record feed_health =
  fh_last_any_message :: "receive_monotonic_timestamp option"
  fh_last_heartbeat :: "receive_monotonic_timestamp option"
  fh_last_l2_message :: "receive_monotonic_timestamp option"
  fh_heartbeat_count :: uint64
  fh_heartbeat_timeouts :: uint64
  fh_sequence_gaps :: uint64
  fh_duplicate_sequences :: uint64
  fh_out_of_order_sequences :: uint64
  fh_connected_at :: receive_monotonic_timestamp

definition FeedHealth :: feed_health where
  "FeedHealth = \<lparr>fh_last_any_message = None, fh_last_heartbeat = None, fh_last_l2_message = None,
     fh_heartbeat_count = 0, fh_heartbeat_timeouts = 0, fh_sequence_gaps = 0,
     fh_duplicate_sequences = 0, fh_out_of_order_sequences = 0, fh_connected_at = 0\<rparr>"

definition health_reset :: "receive_monotonic_timestamp \<Rightarrow> feed_health \<Rightarrow> feed_health" where
  "health_reset now h = h\<lparr>fh_connected_at := now, fh_last_any_message := None,
     fh_last_heartbeat := None, fh_last_l2_message := None\<rparr>"

definition health_expired :: "feed_health \<Rightarrow> receive_monotonic_timestamp \<Rightarrow> receive_monotonic_timestamp option \<Rightarrow> int \<Rightarrow> bool" where
  "health_expired h now lst limit \<longleftrightarrow>
     now - (case lst of None \<Rightarrow> fh_connected_at h | Some t \<Rightarrow> t) > limit * 1000000"

text \<open>The empty string is a healthy feed.\<close>

definition health_failure :: "receive_monotonic_timestamp \<Rightarrow> feed_health_config \<Rightarrow> feed_health \<Rightarrow> string" where
  "health_failure now c h =
     (if health_expired h now (fh_last_any_message h) (fc_max_any_message_age c) then ''No Coinbase messages''
      else if health_expired h now (fh_last_heartbeat h) (fc_max_heartbeat_age c) then ''Coinbase heartbeat timeout''
      else if (case fc_max_instrument_message_age c of None \<Rightarrow> False
               | Some limit \<Rightarrow> health_expired h now (fh_last_l2_message h) limit)
      then ''Coinbase instrument timeout''
      else [])"

section \<open>Reconnect policy\<close>

type_synonym reconnect_policy = int

definition ReconnectPolicy :: reconnect_policy where
  "ReconnectPolicy = 250"

definition next_delay :: "reconnect_policy \<Rightarrow> int \<times> reconnect_policy" where
  "next_delay delay = (delay, min (delay * 2) 10000)"

definition policy_reset :: "reconnect_policy \<Rightarrow> reconnect_policy" where
  "policy_reset delay = 250"

section \<open>The message processor\<close>

datatype message_outcome =
    BookUpdated | IgnoredMessage | DuplicateMessage | OutOfOrderMessage | SequenceGap
  | ParseError | RecordingRejected | ApplyError

fun outcome_name :: "message_outcome \<Rightarrow> string" where
  "outcome_name BookUpdated = ''BookUpdated''"
| "outcome_name IgnoredMessage = ''Ignored''"
| "outcome_name DuplicateMessage = ''Duplicate''"
| "outcome_name OutOfOrderMessage = ''OutOfOrder''"
| "outcome_name SequenceGap = ''SequenceGap''"
| "outcome_name ParseError = ''ParseError''"
| "outcome_name RecordingRejected = ''RecordingRejected''"
| "outcome_name ApplyError = ''ApplyError''"

record process_result =
  pr_outcome :: message_outcome
  pr_canonical_event_count :: nat
  pr_number_of_changes :: nat
  pr_contains_snapshot :: bool
  pr_latency :: "int option"
  pr_snapshots :: nat
  pr_updates :: nat
  pr_error :: string

definition ProcessResult :: process_result where
  "ProcessResult = \<lparr>pr_outcome = IgnoredMessage, pr_canonical_event_count = 0, pr_number_of_changes = 0,
     pr_contains_snapshot = False, pr_latency = None, pr_snapshots = 0, pr_updates = 0, pr_error = []\<rparr>"

record market_state =
  ms_book :: order_book
  ms_sequence :: sequence_tracker
  ms_health :: feed_health

definition process_fail ::
  "message_outcome \<Rightarrow> string \<Rightarrow> process_result \<Rightarrow> market_state \<Rightarrow> process_result result \<times> market_state" where
  "process_fail outcome error result s =
     (Inr (result\<lparr>pr_outcome := outcome, pr_error := error\<rparr>), s\<lparr>ms_book := invalidate (ms_book s)\<rparr>)"

text \<open>The counting loop over the parsed events.\<close>

fun count_event :: "market_event \<Rightarrow> process_result \<Rightarrow> process_result" where
  "count_event (BookSnapshot sn) r =
     r\<lparr>pr_contains_snapshot := True, pr_number_of_changes := pr_number_of_changes r + length (sn_levels sn)\<rparr>"
| "count_event (BookUpdate up) r =
     r\<lparr>pr_number_of_changes := pr_number_of_changes r + length (up_changes up)\<rparr>"

text \<open>From the heartbeat check on: what follows the sequence check.\<close>

definition process_heartbeat ::
  "raw_message \<Rightarrow> process_result \<Rightarrow> market_state \<Rightarrow> process_result result \<times> market_state" where
  "process_heartbeat envelope result s =
     (case parse_heartbeat (rm_payload envelope) (rm_receive_wall_time envelope) (rm_receive_monotonic_time envelope) of
        Inl e \<Rightarrow> (Inl e, s)
      | Inr None \<Rightarrow> (Inr result, s)
      | Inr (Some hb) \<Rightarrow>
          (Inr result, s\<lparr>ms_health := (ms_health s)\<lparr>fh_last_heartbeat := Some (hb_receive_monotonic_time hb),
                                           fh_heartbeat_count := fh_heartbeat_count (ms_health s) + 1\<rparr>\<rparr>))"

definition process_l2 ::
  "int \<Rightarrow> raw_message \<Rightarrow> market_event list \<Rightarrow> process_result \<Rightarrow> market_state \<Rightarrow> process_result result \<times> market_state" where
  "process_l2 monotonic_now envelope events result s =
     (let s = s\<lparr>ms_health := (ms_health s)\<lparr>fh_last_l2_message := Some (rm_receive_monotonic_time envelope)\<rparr>\<rparr> in
      if ob_state (ms_book s) \<noteq> Valid \<and> (events = [] \<or> \<not> is_snapshot (hd events))
      then process_fail ApplyError ''L2 update before snapshot'' result s
      else if events = [] then (Inr result, s)
      else case apply_events events (ms_book s) of
          (False, book) \<Rightarrow> process_fail ApplyError ''book rejected event'' result (s\<lparr>ms_book := book\<rparr>)
        | (True, book) \<Rightarrow>
            (Inr (result\<lparr>pr_snapshots := pr_snapshots result + length (filter is_snapshot events),
                         pr_updates := pr_updates result + length (filter (\<lambda>e. \<not> is_snapshot e) events),
                         pr_latency := Some (monotonic_now - rm_receive_monotonic_time envelope),
                         pr_outcome := BookUpdated\<rparr>),
             s\<lparr>ms_book := book\<rparr>))"

definition process_accepted ::
  "int \<Rightarrow> raw_message \<Rightarrow> coinbase_parse_result \<Rightarrow> process_result \<Rightarrow> market_state \<Rightarrow> process_result result \<times> market_state" where
  "process_accepted monotonic_now envelope parsed result s =
     (if cp_heartbeat_channel parsed then process_heartbeat envelope result s
      else if cp_status parsed = Ignored then (Inr result, s)
      else process_l2 monotonic_now envelope (cp_events parsed) result s)"

definition coinbase_process ::
  "coinbase_symbol_mapper \<Rightarrow> int \<Rightarrow> raw_message \<Rightarrow> market_state \<Rightarrow> process_result result \<times> market_state" where
  "coinbase_process symbols monotonic_now envelope s =
     (let s = s\<lparr>ms_health := (ms_health s)\<lparr>fh_last_any_message := Some (rm_receive_monotonic_time envelope)\<rparr>\<rparr> in
      case coinbase_parse symbols (rm_payload envelope) (rm_receive_wall_time envelope) (rm_receive_monotonic_time envelope) False of
        Inl e \<Rightarrow> (Inl e, s)
      | Inr parsed \<Rightarrow>
          if cp_status parsed = Error then process_fail ParseError (cp_error parsed) ProcessResult s
          else
            let result = fold count_event (cp_events parsed)
                  (ProcessResult\<lparr>pr_canonical_event_count := length (cp_events parsed)\<rparr>) in
            case cp_sequence parsed of
              None \<Rightarrow> process_accepted monotonic_now envelope parsed result s
            | Some sequence \<Rightarrow>
                (case seq_observe sequence (ms_sequence s) of (r, tracker) \<Rightarrow>
                   let s = s\<lparr>ms_sequence := tracker\<rparr>; h = ms_health s in
                   case r of
                     Duplicate \<Rightarrow> (Inr (result\<lparr>pr_outcome := DuplicateMessage\<rparr>),
                       s\<lparr>ms_health := h\<lparr>fh_duplicate_sequences := fh_duplicate_sequences h + 1\<rparr>\<rparr>)
                   | OutOfOrder \<Rightarrow> (Inr (result\<lparr>pr_outcome := OutOfOrderMessage\<rparr>),
                       s\<lparr>ms_health := h\<lparr>fh_out_of_order_sequences := fh_out_of_order_sequences h + 1\<rparr>\<rparr>)
                   | Gap \<Rightarrow> process_fail SequenceGap ''Coinbase envelope sequence gap'' result
                       (s\<lparr>ms_health := h\<lparr>fh_sequence_gaps := fh_sequence_gaps h + 1\<rparr>\<rparr>)
                   | _ \<Rightarrow> process_accepted monotonic_now envelope parsed result s))"

section \<open>The message handler\<close>

record runtime_progress =
  rp_last_received_index :: "uint64 option"
  rp_last_enqueued_index :: "uint64 option"
  rp_last_written_index :: "uint64 option"
  rp_last_processed_index :: "uint64 option"

record message_handler =
  mh_connection_id :: uint64
  mh_progress :: runtime_progress
  mh_next_index :: uint64

definition CoinbaseMessageHandler :: message_handler where
  "CoinbaseMessageHandler = \<lparr>mh_connection_id = 0,
     mh_progress = \<lparr>rp_last_received_index = None, rp_last_enqueued_index = None,
       rp_last_written_index = None, rp_last_processed_index = None\<rparr>,
     mh_next_index = 0\<rparr>"

text \<open>
  The sink and the publish callback act on the environment \<open>'e\<close> (queue, shared status); the
  sink may throw. \<open>try_handle\<close> is the \<open>try\<close> block: what it throws comes with the state left.
\<close>

definition try_handle ::
  "(raw_message \<Rightarrow> 'e \<Rightarrow> push_result result \<times> 'e) \<Rightarrow> int \<Rightarrow> raw_message \<Rightarrow>
   message_handler \<Rightarrow> market_state \<Rightarrow> 'e \<Rightarrow> process_result result \<times> message_handler \<times> market_state \<times> 'e" where
  "try_handle sink monotonic_now envelope h s env =
     (case sink envelope env of
        (Inl e, env) \<Rightarrow> (Inl e, h, s, env)
      | (Inr Accepted, env) \<Rightarrow>
          let h = h\<lparr>mh_progress := (mh_progress h)\<lparr>rp_last_enqueued_index := Some (rm_record_index envelope)\<rparr>\<rparr> in
          (case coinbase_process default_products monotonic_now envelope s of
             (Inl e, s) \<Rightarrow> (Inl e, h, s, env)
           | (Inr result, s) \<Rightarrow>
               (Inr result, h\<lparr>mh_progress := (mh_progress h)\<lparr>rp_last_processed_index := Some (rm_record_index envelope)\<rparr>\<rparr>, s, env))
      | (Inr pushed, env) \<Rightarrow>
          (Inr (ProcessResult\<lparr>pr_outcome := RecordingRejected,
                  pr_error := (if pushed = Full then ''RAW_RECORDING_QUEUE_FULL'' else ''RAW_RECORDING_QUEUE_CLOSED'')\<rparr>),
           h, s\<lparr>ms_book := invalidate (ms_book s)\<rparr>, env))"

definition coinbase_handle ::
  "(raw_message \<Rightarrow> 'e \<Rightarrow> push_result result \<times> 'e) \<Rightarrow>
   (process_result \<Rightarrow> runtime_progress \<Rightarrow> market_state \<Rightarrow> 'e \<Rightarrow> 'e) \<Rightarrow> int \<Rightarrow>
   string \<Rightarrow> receive_wall_timestamp \<Rightarrow> receive_monotonic_timestamp \<Rightarrow>
   message_handler \<Rightarrow> market_state \<Rightarrow> 'e \<Rightarrow> process_result \<times> message_handler \<times> market_state \<times> 'e" where
  "coinbase_handle sink publish monotonic_now payload wall monotonic h s env =
     (let index = mh_next_index h;
          h = h\<lparr>mh_next_index := index + 1,
                mh_progress := (mh_progress h)\<lparr>rp_last_received_index := Some index\<rparr>\<rparr>;
          envelope = \<lparr>rm_record_index = index, rm_venue = Coinbase, rm_connection_id = mh_connection_id h,
            rm_receive_wall_time = wall, rm_receive_monotonic_time = monotonic, rm_payload = payload\<rparr>;
          (result, h, s, env) =
            (case try_handle sink monotonic_now envelope h s env of
               (Inr result, h, s, env) \<Rightarrow> (result, h, s, env)
             | (Inl e, h, s, env) \<Rightarrow>
                 let enqueued = (rp_last_enqueued_index (mh_progress h) = Some index) in
                 (ProcessResult\<lparr>pr_outcome := (if enqueued then ApplyError else RecordingRejected), pr_error := what e\<rparr>,
                  (if enqueued then h\<lparr>mh_progress := (mh_progress h)\<lparr>rp_last_processed_index := Some index\<rparr>\<rparr> else h),
                  s\<lparr>ms_book := invalidate (ms_book s)\<rparr>, env))
      in (result, h, s, publish result (mh_progress h) s env))"

section \<open>The message pipeline\<close>

record message_pipeline =
  mp_book :: order_book
  mp_raw_messages :: uint64
  mp_parse_errors :: uint64
  mp_error :: string
  mp_sequence :: sequence_tracker
  mp_stopped :: bool

definition CoinbaseMessagePipeline :: message_pipeline where
  "CoinbaseMessagePipeline = \<lparr>mp_book = OrderBook Coinbase BTC_USD, mp_raw_messages = 0, mp_parse_errors = 0,
     mp_error = [], mp_sequence = None, mp_stopped = False\<rparr>"

definition reset_connection :: "message_pipeline \<Rightarrow> message_pipeline" where
  "reset_connection p = p\<lparr>mp_stopped := False, mp_error := [], mp_sequence := seq_reset (mp_sequence p),
     mp_book := mark_initializing (mp_book p)\<rparr>"

definition pipeline_fail :: "string \<Rightarrow> message_pipeline \<Rightarrow> bool \<times> message_pipeline" where
  "pipeline_fail reason p = (False, p\<lparr>mp_book := invalidate (mp_book p), mp_stopped := True, mp_error := reason\<rparr>)"

definition pipeline_apply :: "coinbase_parse_result \<Rightarrow> message_pipeline \<Rightarrow> bool \<times> message_pipeline" where
  "pipeline_apply result p =
     (if cp_status result = Parsed \<and> ob_state (mp_book p) \<noteq> Valid \<and>
         (cp_events result = [] \<or> \<not> is_snapshot (hd (cp_events result)))
      then pipeline_fail ''L2 update before snapshot'' p
      else case apply_events (cp_events result) (mp_book p) of
          (False, book) \<Rightarrow> pipeline_fail ''book rejected event'' (p\<lparr>mp_book := book\<rparr>)
        | (True, book) \<Rightarrow> (True, p\<lparr>mp_book := book\<rparr>))"

text \<open>\<open>recorded\<close> is the answer of the sink, which is asked unless the pipeline has stopped.\<close>

definition pipeline_process ::
  "bool \<Rightarrow> string \<Rightarrow> receive_wall_timestamp \<Rightarrow> receive_monotonic_timestamp \<Rightarrow> message_pipeline \<Rightarrow>
   bool result \<times> message_pipeline" where
  "pipeline_process recorded raw wall monotonic p =
     (if mp_stopped p then (Inr False, p)
      else if \<not> recorded then map_prod Inr id (pipeline_fail ''recording failed'' p)
      else
        let p = p\<lparr>mp_raw_messages := mp_raw_messages p + 1\<rparr> in
        case coinbase_parse default_products raw wall monotonic True of
          Inl e \<Rightarrow> (Inl e, p)
        | Inr result \<Rightarrow> map_prod Inr id
            (if cp_status result = Error
             then pipeline_fail (cp_error result) (p\<lparr>mp_parse_errors := mp_parse_errors p + 1\<rparr>)
             else case cp_sequence result of
                 None \<Rightarrow> pipeline_apply result p
               | Some n \<Rightarrow>
                   (case seq_observe n (mp_sequence p) of (observed, tracker) \<Rightarrow>
                      let p = p\<lparr>mp_sequence := tracker\<rparr> in
                      if observed = Duplicate \<or> observed = OutOfOrder then (True, p)
                      else if observed = Gap then pipeline_fail ''Coinbase envelope sequence gap'' p
                      else pipeline_apply result p)))"

section \<open>What explains a valid book\<close>

text \<open>
  The log of a connection: sequence and events of every message whose sequence was accepted.
  A book is explained by a log when it is what the events from some snapshot on, message
  after message without a gap up to the latest one, make of an empty book.
\<close>

type_synonym message_log = "(uint64 \<times> market_event list) list"

definition successive :: "message_log \<Rightarrow> sequence_tracker \<Rightarrow> bool" where
  "successive log t \<longleftrightarrow>
     (\<exists>start. map (unat \<circ> fst) log = [start ..< start + length log]) \<and>
     t = (if log = [] then None else Some (fst (last log)))"

definition explained :: "message_log \<Rightarrow> order_book \<Rightarrow> bool" where
  "explained log b \<longleftrightarrow>
     (\<exists>before n es after. log = before @ (n, es) # after \<and> es \<noteq> [] \<and> is_snapshot (hd es) \<and>
        apply_each (es @ concat (map snd after)) (OrderBook Coinbase BTC_USD) = (True, b))"

definition market_inv :: "message_log \<Rightarrow> market_state \<Rightarrow> bool" where
  "market_inv log s \<longleftrightarrow> book_inv (ms_book s) \<and> ob_venue (ms_book s) = Coinbase \<and>
     successive log (ms_sequence s) \<and> (ob_state (ms_book s) = Valid \<longrightarrow> explained log (ms_book s))"

text \<open>What one message adds to the log.\<close>

definition message_log ::
  "coinbase_symbol_mapper \<Rightarrow> raw_message \<Rightarrow> sequence_tracker \<Rightarrow> message_log" where
  "message_log symbols m t =
     (case coinbase_parse symbols (rm_payload m) (rm_receive_wall_time m) (rm_receive_monotonic_time m) False of
        Inl _ \<Rightarrow> []
      | Inr p \<Rightarrow>
          if cp_status p = Error then []
          else case cp_sequence p of None \<Rightarrow> []
             | Some n \<Rightarrow> if fst (seq_observe n t) \<in> {First, Expected} then [(n, cp_events p)] else [])"

lemma apply_each_append:
  "apply_each (es @ es') b = (case apply_each es b of (ok, b') \<Rightarrow> if ok then apply_each es' b' else (False, b'))"
  by (induction es arbitrary: b) (auto split: prod.splits)

lemma apply_event_venue:
  "ob_venue (snd (apply_event e b)) = ob_venue b"
  by (cases e) (auto simp: apply_snapshot_eq snapshot_book_def apply_update_eq)

lemma apply_each_venue: "apply_each es b = (ok, b') \<Longrightarrow> ob_venue b' = ob_venue b"
proof (induction es arbitrary: b)
  case (Cons e es)
  then show ?case using apply_event_venue [of e b] by (auto split: prod.splits if_splits)
qed simp

lemma apply_each_valid: "apply_each es b = (True, b') \<Longrightarrow> ob_state b = Valid \<Longrightarrow> ob_state b' = Valid"
proof (induction es arbitrary: b)
  case (Cons e es)
  then show ?case by (cases e) (auto simp: apply_snapshot_eq snapshot_book_def apply_update_eq split: prod.splits if_splits)
qed simp

lemma snapshot_forgets:
  assumes "apply_snapshot sn b = (True, b')" and "ob_venue b = v"
  shows "apply_snapshot sn (OrderBook v BTC_USD) = (True, b')"
proof -
  have i: "ob_instrument b = BTC_USD" by (cases "ob_instrument b") simp
  show ?thesis using assms i
    by (auto simp: apply_snapshot_eq snapshot_fits_def snapshot_book_def OrderBook_def split: if_splits)
qed

lemma explained_start:
  assumes "es \<noteq> []" and "is_snapshot (hd es)" and "apply_each es b = (True, b')" and "ob_venue b = Coinbase"
  shows "explained (log @ [(n, es)]) b'"
proof -
  obtain sn es' where es: "es = BookSnapshot sn # es'" using assms(1,2) by (cases es; cases "hd es") auto
  then obtain b1 where b1: "apply_snapshot sn b = (True, b1)" "apply_each es' b1 = (True, b')"
    using assms(3) by (auto split: prod.splits if_splits)
  then have "apply_each es (OrderBook Coinbase BTC_USD) = (True, b')"
    using snapshot_forgets [OF b1(1) assms(4)] es by simp
  then show ?thesis using assms(1,2) unfolding explained_def
    by (intro exI [of _ log] exI [of _ n] exI [of _ es] exI [of _ "[]"]) simp
qed

lemma explained_append:
  assumes "explained log b" and "apply_each es b = (True, b')"
  shows "explained (log @ [(n, es)]) b'"
proof -
  obtain before n0 es0 after where log: "log = before @ (n0, es0) # after" "es0 \<noteq> []" "is_snapshot (hd es0)"
    and run: "apply_each (es0 @ concat (map snd after)) (OrderBook Coinbase BTC_USD) = (True, b)"
    using assms(1) unfolding explained_def by blast
  have "apply_each ((es0 @ concat (map snd after)) @ es) (OrderBook Coinbase BTC_USD) = (True, b')"
    using run assms(2) by (simp only: apply_each_append [of "es0 @ concat (map snd after)"]) simp
  then show ?thesis using log unfolding explained_def
    by (intro exI [of _ before] exI [of _ n0] exI [of _ es0] exI [of _ "after @ [(n, es)]"]) simp
qed

lemma successive_observe:
  assumes "successive log t" and "seq_observe n t = (r, t')" and "r \<in> {First, Expected}"
  shows "successive (log @ [(n, es)]) t'"
proof (cases "log = []")
  case True
  then show ?thesis using assms by (auto simp: successive_def)
next
  case False
  obtain start where start: "map (unat \<circ> fst) log = [start ..< start + length log]" and t: "t = Some (fst (last log))"
    using assms(1) False by (auto simp: successive_def)
  have "unat (fst (last log)) = last (map (unat \<circ> fst) log)" using False by (simp add: last_map)
  then have "unat (fst (last log)) = start + length log - 1" using start False by simp
  then have "unat n = start + length log" and "t' = Some n"
    using assms(2,3) t False by (auto simp: seq_observe_Some split: if_splits)
  then show ?thesis using start by (auto simp: successive_def intro!: exI [of _ start])
qed

lemma market_inv_health [simp]: "market_inv log (s\<lparr>ms_health := h\<rparr>) = market_inv log s"
  by (simp add: market_inv_def)

lemma market_inv_invalidate: "market_inv log s \<Longrightarrow> market_inv log (s\<lparr>ms_book := invalidate (ms_book s)\<rparr>)"
  by (simp add: market_inv_def invalidate_def)

lemma market_inv_fail: "market_inv log s \<Longrightarrow> market_inv log (snd (process_fail o' e r s))"
  by (simp add: process_fail_def market_inv_invalidate)

lemma market_inv_unchanged:
  assumes "market_inv log s" and "seq_observe n (ms_sequence s) = (r, t)" and "r \<in> {First, Expected}"
  shows "market_inv (log @ [(n, [])]) (s\<lparr>ms_sequence := t\<rparr>)"
  using assms explained_append [of log "ms_book s" "[]"] successive_observe [of log "ms_sequence s" n r t "[]"]
  by (auto simp: market_inv_def)

lemma process_l2_inv:
  assumes inv: "market_inv log s" and "seq_observe n (ms_sequence s) = (r, t)" and "r \<in> {First, Expected}"
  shows "market_inv (log @ [(n, es)]) (snd (process_l2 now m es res (s\<lparr>ms_sequence := t\<rparr>)))"
proof -
  let ?s = "s\<lparr>ms_sequence := t, ms_health := (ms_health s)\<lparr>fh_last_l2_message := Some (rm_receive_monotonic_time m)\<rparr>\<rparr>"
  have succ: "successive (log @ [(n, es)]) t" using assms successive_observe by (auto simp: market_inv_def)
  have failed: "market_inv (log @ [(n, es)]) (snd (process_fail o' e res ?s))" for o' e
    using inv succ by (simp add: market_inv_def process_fail_def invalidate_def)
  have sorted: "book_sorted (ms_book s)" and venue: "ob_venue (ms_book s) = Coinbase"
    using inv by (simp_all add: market_inv_def book_inv_def)
  have ok: "market_inv (log @ [(n, es)]) (?s\<lparr>ms_book := b\<rparr>)"
    if run: "apply_each es (ms_book s) = (True, b)" and start: "ob_state (ms_book s) = Valid \<or> (es \<noteq> [] \<and> is_snapshot (hd es))" for b
  proof -
    have "explained (log @ [(n, es)]) b"
      using start explained_start [OF _ _ run venue] explained_append [OF _ run] inv by (auto simp: market_inv_def)
    moreover have "book_inv b" using book_inv_apply_each [of "ms_book s" es] inv run by (simp add: market_inv_def)
    ultimately show ?thesis using succ apply_each_venue [OF run] venue by (simp add: market_inv_def)
  qed
  show ?thesis
  proof (cases "ob_state (ms_book s) \<noteq> Valid \<and> (es = [] \<or> \<not> is_snapshot (hd es))")
    case True
    then show ?thesis using failed by (simp add: process_l2_def)
  next
    case False
    then show ?thesis
      using ok failed apply_events_eq [OF sorted, of es]
      by (cases "apply_each es (ms_book s)") (auto simp: process_l2_def Let_def split: bool.split)
  qed
qed

lemma process_accepted_inv:
  assumes "market_inv log s" and "seq_observe n (ms_sequence s) = (r, t)" and "r \<in> {First, Expected}"
    and "cp_status p \<noteq> Parsed \<or> cp_heartbeat_channel p \<Longrightarrow> cp_events p = []" and "cp_status p \<noteq> Error"
  shows "market_inv (log @ [(n, cp_events p)]) (snd (process_accepted now m p res (s\<lparr>ms_sequence := t\<rparr>)))"
proof -
  note base = market_inv_unchanged [OF assms(1-3)]
  show ?thesis
  proof (cases "cp_heartbeat_channel p")
    case True
    then show ?thesis using base assms(4)
      by (auto simp: process_accepted_def process_heartbeat_def split: sum.split option.split)
  next
    case False
    then show ?thesis using base assms(4,5) process_l2_inv [OF assms(1-3)]
      by (cases "cp_status p") (auto simp: process_accepted_def)
  qed
qed

lemma coinbase_parse_events:
  assumes "coinbase_parse symbols raw w m keep = Inr p"
  shows "cp_status p \<noteq> Parsed \<or> cp_heartbeat_channel p \<Longrightarrow> cp_events p = []"
    and "cp_sequence p = None \<Longrightarrow> cp_status p \<noteq> Parsed"
    and "cp_status p = Error \<longleftrightarrow> cp_error p \<noteq> []"
  using assms coinbase_parse_cases [of symbols raw w m keep] by auto

lemma process_accepted_no_sequence:
  assumes "cp_status p = Ignored" and "market_inv log s"
  shows "market_inv log (snd (process_accepted now m p res s))"
  using assms by (auto simp: process_accepted_def process_heartbeat_def split: sum.split option.split)

lemma coinbase_process_inv:
  assumes "market_inv log s"
  shows "market_inv (log @ message_log symbols m (ms_sequence s)) (snd (coinbase_process symbols now m s))"
proof -
  let ?s = "s\<lparr>ms_health := (ms_health s)\<lparr>fh_last_any_message := Some (rm_receive_monotonic_time m)\<rparr>\<rparr>"
  have inv: "market_inv log ?s" using assms by simp
  obtain p where p: "coinbase_parse symbols (rm_payload m) (rm_receive_wall_time m) (rm_receive_monotonic_time m) False = Inr p"
    using coinbase_parse_cases by blast
  note p_facts = coinbase_parse_events [OF p]
  show ?thesis
  proof (cases "cp_status p = Error")
    case True
    then show ?thesis using inv p by (simp add: coinbase_process_def message_log_def market_inv_fail Let_def)
  next
    case False
    show ?thesis
    proof (cases "cp_sequence p")
      case None
      then have "cp_status p = Ignored" using p_facts(2) False by (cases "cp_status p") auto
      then show ?thesis using inv p False None
        by (simp add: coinbase_process_def message_log_def process_accepted_no_sequence Let_def)
    next
      case (Some n)
      obtain r t where rt: "seq_observe n (ms_sequence s) = (r, t)" by fastforce
      have kept: "t = ms_sequence s" if "r \<in> {Duplicate, OutOfOrder, Gap}"
        using seq_observe_keeps [of n "ms_sequence s"] that rt by simp
      have accepted: "market_inv (log @ [(n, cp_events p)]) (snd (process_accepted now m p res (?s\<lparr>ms_sequence := t\<rparr>)))"
        if "r \<in> {First, Expected}" for res
        using process_accepted_inv [OF inv _ that p_facts(1) False] rt by simp
      show ?thesis using p False Some rt kept accepted inv
        by (cases r) (simp_all add: coinbase_process_def message_log_def Let_def market_inv_fail)
    qed
  qed
qed

section \<open>The outcomes of processing\<close>

text \<open>What each outcome means for the book; \<open>es\<close> are the events of the message.\<close>

fun outcome_meaning :: "message_outcome \<Rightarrow> market_event list \<Rightarrow> order_book \<Rightarrow> order_book \<Rightarrow> bool" where
  "outcome_meaning BookUpdated es b b' =
     (es \<noteq> [] \<and> apply_each es b = (True, b') \<and> ob_state b' = Valid)"
| "outcome_meaning IgnoredMessage es b b' = (b' = b)"
| "outcome_meaning DuplicateMessage es b b' = (b' = b)"
| "outcome_meaning OutOfOrderMessage es b b' = (b' = b)"
| "outcome_meaning _ es b b' = (b' = invalidate b)"

fun is_failure :: "message_outcome \<Rightarrow> bool" where
  "is_failure SequenceGap = True"
| "is_failure ParseError = True"
| "is_failure RecordingRejected = True"
| "is_failure ApplyError = True"
| "is_failure _ = False"

definition parsed_events :: "coinbase_symbol_mapper \<Rightarrow> string \<Rightarrow> receive_wall_timestamp \<Rightarrow> receive_monotonic_timestamp \<Rightarrow> market_event list" where
  "parsed_events symbols raw w m = (case coinbase_parse symbols raw w m False of Inl _ \<Rightarrow> [] | Inr p \<Rightarrow> cp_events p)"

definition result_ok :: "market_event list \<Rightarrow> order_book \<Rightarrow> process_result result \<times> market_state \<Rightarrow> bool" where
  "result_ok es b out =
     (case out of (Inl e, s) \<Rightarrow> ms_book s = b \<and> caught e
      | (Inr r, s) \<Rightarrow> outcome_meaning (pr_outcome r) es b (ms_book s) \<and>
          pr_outcome r \<noteq> RecordingRejected \<and> is_failure (pr_outcome r) = (pr_error r \<noteq> []))"

lemma result_ok_fail:
  "is_failure o' \<Longrightarrow> o' \<noteq> RecordingRejected \<Longrightarrow> e \<noteq> [] \<Longrightarrow> ms_book s = b \<Longrightarrow> result_ok es b (process_fail o' e r s)"
  by (cases o') (auto simp: result_ok_def process_fail_def)

lemma count_event_fields [simp]:
  "pr_outcome (fold count_event es r) = pr_outcome r" "pr_error (fold count_event es r) = pr_error r"
proof (induction es arbitrary: r)
  case (Cons e es)
  { case 1 then show ?case using Cons by (cases e) simp_all }
  { case 2 then show ?case using Cons by (cases e) simp_all }
qed simp_all

lemma apply_each_start_valid:
  assumes "apply_each es b = (True, b')" and "es \<noteq> []"
  shows "ob_state b' = Valid"
proof -
  obtain e es' where es: "es = e # es'" using assms(2) by (cases es) auto
  then obtain b1 where b1: "apply_event e b = (True, b1)" "apply_each es' b1 = (True, b')"
    using assms(1) by (auto split: prod.splits if_splits)
  have "ob_state b1 = Valid" using b1(1)
    by (cases e) (auto simp: apply_snapshot_eq snapshot_book_def apply_update_def split: if_splits option.splits)
  then show ?thesis using apply_each_valid [OF b1(2)] by simp
qed

lemma process_l2_ok:
  assumes "book_inv (ms_book s)" and "pr_outcome r = IgnoredMessage" and "pr_error r = []"
  shows "result_ok es (ms_book s) (process_l2 now m es r s)"
proof -
  have sorted: "book_sorted (ms_book s)" using assms(1) by (simp add: book_inv_def)
  have valid: "ob_state b = Valid" if "apply_each es (ms_book s) = (True, b)" "es \<noteq> []" for b
    using apply_each_start_valid that by blast
  show ?thesis
    using assms(2,3) apply_events_eq [OF sorted, of es] valid
    by (cases "apply_each es (ms_book s)")
      (auto simp: process_l2_def Let_def result_ok_fail result_ok_def process_fail_def split: bool.split)
qed

lemma process_accepted_ok:
  assumes "book_inv (ms_book s)" and "pr_outcome r = IgnoredMessage" and "pr_error r = []"
  shows "result_ok (cp_events p) (ms_book s) (process_accepted now m p r s)"
  using process_l2_ok [OF assms] assms(2,3) throws_onlyD [OF parse_heartbeat_throws]
  by (auto simp: process_accepted_def process_heartbeat_def result_ok_def split: sum.split option.split)

lemma coinbase_process_ok:
  assumes "book_inv (ms_book s)"
  shows "result_ok (parsed_events symbols (rm_payload m) (rm_receive_wall_time m) (rm_receive_monotonic_time m))
    (ms_book s) (coinbase_process symbols now m s)"
proof -
  obtain p where p: "coinbase_parse symbols (rm_payload m) (rm_receive_wall_time m) (rm_receive_monotonic_time m) False = Inr p"
    using coinbase_parse_cases by blast
  let ?r = "fold count_event (cp_events p) (ProcessResult\<lparr>pr_canonical_event_count := length (cp_events p)\<rparr>)"
  have r: "pr_outcome ?r = IgnoredMessage" "pr_error ?r = []" by (simp_all add: ProcessResult_def)
  have acc: "result_ok (cp_events p) (ms_book s) (process_accepted now m p ?r s')" if "ms_book s' = ms_book s" for s'
    using process_accepted_ok [OF _ r, of s' p now m] assms that by simp
  show ?thesis
  proof (cases "cp_status p = Error")
    case True
    then show ?thesis using p coinbase_parse_events(3) [OF p]
      by (simp add: coinbase_process_def parsed_events_def Let_def result_ok_fail)
  next
    case False
    show ?thesis
    proof (cases "cp_sequence p")
      case None
      then show ?thesis using p False acc by (simp add: coinbase_process_def parsed_events_def Let_def)
    next
      case (Some n)
      obtain o' t where o: "seq_observe n (ms_sequence s) = (o', t)" by fastforce
      show ?thesis using p False Some o acc r
        by (cases o') (simp_all add: coinbase_process_def parsed_events_def Let_def result_ok_fail, simp_all add: result_ok_def)
    qed
  qed
qed

section \<open>Runs of the handler\<close>

definition handled_envelope :: "message_handler \<Rightarrow> string \<Rightarrow> receive_wall_timestamp \<Rightarrow> receive_monotonic_timestamp \<Rightarrow> raw_message" where
  "handled_envelope h payload w m =
     \<lparr>rm_record_index = mh_next_index h, rm_venue = Coinbase, rm_connection_id = mh_connection_id h,
      rm_receive_wall_time = w, rm_receive_monotonic_time = m, rm_payload = payload\<rparr>"

text \<open>The cases of \<open>handle\<close>, with the market state it leaves.\<close>

lemma coinbase_handle_cases:
  fixes h payload w m
  defines "msg \<equiv> handled_envelope h payload w m"
  assumes "coinbase_handle sink publish now payload w m h s env = (r, h', s', env')"
  shows "fst (sink msg env) \<noteq> Inr Accepted \<and> pr_outcome r \<in> {RecordingRejected, ApplyError} \<and>
       s' = s\<lparr>ms_book := invalidate (ms_book s)\<rparr> \<or>
     fst (sink msg env) = Inr Accepted \<and> coinbase_process default_products now msg s = (Inr r, s') \<or>
     fst (sink msg env) = Inr Accepted \<and> (\<exists>e s1. coinbase_process default_products now msg s = (Inl e, s1) \<and>
       pr_outcome r = ApplyError \<and> pr_error r = what e \<and> s' = s1\<lparr>ms_book := invalidate (ms_book s1)\<rparr>)"
proof -
  obtain a env1 where sink: "sink msg env = (a, env1)" by fastforce
  obtain o' s1 where process: "coinbase_process default_products now msg s = (o', s1)" by fastforce
  consider (thrown) e where "a = Inl e" | (accepted) "a = Inr Accepted" | (refused) "a = Inr Full" | (closed) "a = Inr Closed"
    by (metis push_result.exhaust sumE)
  then show ?thesis using assms(2) sink process
    by cases (cases o'; auto simp: coinbase_handle_def try_handle_def msg_def handled_envelope_def Let_def)+
qed

lemma coinbase_handle_inv:
  assumes "market_inv log s" and "coinbase_handle sink publish now payload w m h s env = (r, h', s', env')"
  shows "market_inv (log @ (if fst (sink (handled_envelope h payload w m) env) = Inr Accepted
      then message_log default_products (handled_envelope h payload w m) (ms_sequence s) else [])) s'"
  using coinbase_handle_cases [OF assms(2)] coinbase_process_inv [OF assms(1), of default_products "handled_envelope h payload w m" now]
    market_inv_invalidate [OF assms(1)]
  by (auto intro: market_inv_invalidate)

lemma coinbase_handle_ok:
  assumes "book_inv (ms_book s)" and "coinbase_handle sink publish now payload w m h s env = (r, h', s', env')"
  shows "outcome_meaning (pr_outcome r) (parsed_events default_products payload w m) (ms_book s) (ms_book s')"
  using coinbase_handle_cases [OF assms(2)]
    coinbase_process_ok [OF assms(1), of default_products "handled_envelope h payload w m" now]
  by (auto simp: result_ok_def handled_envelope_def)

text \<open>
  A run over inputs \<open>(clock reading, payload, wall time, monotonic time)\<close>, with the log of the
  messages whose sequence was accepted.
\<close>

fun handle_run ::
  "(raw_message \<Rightarrow> 'e \<Rightarrow> push_result result \<times> 'e) \<Rightarrow>
   (process_result \<Rightarrow> runtime_progress \<Rightarrow> market_state \<Rightarrow> 'e \<Rightarrow> 'e) \<Rightarrow>
   (int \<times> string \<times> receive_wall_timestamp \<times> receive_monotonic_timestamp) list \<Rightarrow>
   message_handler \<Rightarrow> market_state \<Rightarrow> 'e \<Rightarrow> message_log \<times> message_handler \<times> market_state \<times> 'e" where
  "handle_run sink publish [] h s env = ([], h, s, env)"
| "handle_run sink publish ((now, payload, w, m) # inputs) h s env =
     (let entry = (if fst (sink (handled_envelope h payload w m) env) = Inr Accepted
        then message_log default_products (handled_envelope h payload w m) (ms_sequence s) else []) in
      case coinbase_handle sink publish now payload w m h s env of (r, h, s, env) \<Rightarrow>
        case handle_run sink publish inputs h s env of (log, end_state) \<Rightarrow> (entry @ log, end_state))"

lemma handle_run_inv:
  "market_inv log0 s \<Longrightarrow> handle_run sink publish inputs h s env = (log, h', s', env') \<Longrightarrow> market_inv (log0 @ log) s'"
proof (induction inputs arbitrary: log0 h s env log)
  case (Cons i inputs)
  obtain now payload w m where i: "i = (now, payload, w, m)" by (cases i) auto
  obtain r h1 s1 env1 where step: "coinbase_handle sink publish now payload w m h s env = (r, h1, s1, env1)"
    by (metis prod_cases4)
  from coinbase_handle_inv [OF Cons.prems(1) step] Cons.prems(2) i step Cons.IH show ?case
    by (auto simp: Let_def split: prod.splits) fastforce+
qed simp

section \<open>Properties\<close>

text \<open>C9. A book that is Valid after any run of messages on a fresh connection is explained by
  them: it is exactly what the events of some snapshot message and of every later accepted
  message, applied in order to an empty book, produce; and the accepted sequence numbers of
  the connection are consecutive up to the latest one, so no message in between was lost.\<close>

theorem valid_book_explained:
  assumes "book_reachable (ms_book s)" and "ob_venue (ms_book s) = Coinbase" and "ob_state (ms_book s) \<noteq> Valid"
    and "ms_sequence s = None" and "handle_run sink publish inputs h s env = (log, h', s', env')"
    and "ob_state (ms_book s') = Valid"
  shows "explained log (ms_book s') \<and> successive log (ms_sequence s')"
proof -
  have "market_inv [] s"
    using assms(1-4) book_reachable_inv by (simp add: market_inv_def successive_def)
  from handle_run_inv [OF this assms(5)] assms(6) show ?thesis by (simp add: market_inv_def)
qed

definition fresh_market :: market_state where
  "fresh_market = \<lparr>ms_book = OrderBook Coinbase BTC_USD, ms_sequence = None, ms_health = FeedHealth\<rparr>"

definition accepting_sink :: "raw_message \<Rightarrow> unit \<Rightarrow> push_result result \<times> unit" where
  "accepting_sink m u = (Inr Accepted, u)"

lemma sample_run:
  "\<exists>h s. handle_run accepting_sink (\<lambda>_ _ _ u. u) [(25, sample_l2, 10, 20)] CoinbaseMessageHandler fresh_market () =
     ([(7, sample_l2_events)], h, s, ()) \<and> ob_state (ms_book s) = Valid"
proof -
  have events: "is_snapshot (hd sample_l2_events)" by (simp add: sample_l2_events_def)
  have applied: "apply_events sample_l2_events (OrderBook Coinbase BTC_USD) =
      (True, \<lparr>ob_venue = Coinbase, ob_instrument = BTC_USD, ob_state = Valid, ob_bids = [(10050, 200000000)],
        ob_asks = [], ob_last_sequence = Some 7\<rparr>)"
    by code_simp
  have nonempty: "sample_l2_events \<noteq> []" by (simp add: sample_l2_events_def)
  show ?thesis
    by (simp add: coinbase_handle_def try_handle_def accepting_sink_def handled_envelope_def message_log_def
        coinbase_process_def sample_l2_parsed process_accepted_def process_l2_def fresh_market_def
        CoinbaseMessageHandler_def Let_def events nonempty applied)
qed

theorem valid_book_explained_witness:
  "\<exists>h s. handle_run accepting_sink (\<lambda>_ _ _ u. u) [(25, sample_l2, 10, 20)] CoinbaseMessageHandler fresh_market () =
     ([(7, sample_l2_events)], h, s, ()) \<and> ob_state (ms_book s) = Valid \<and>
     explained [(7, sample_l2_events)] (ms_book s) \<and> successive [(7, sample_l2_events)] (ms_sequence s)"
proof -
  obtain h s where run: "handle_run accepting_sink (\<lambda>_ _ _ u. u) [(25, sample_l2, 10, 20)] CoinbaseMessageHandler fresh_market () =
      ([(7, sample_l2_events)], h, s, ())" and valid: "ob_state (ms_book s) = Valid"
    using sample_run by blast
  have start: "book_reachable (ms_book fresh_market)" "ob_venue (ms_book fresh_market) = Coinbase"
    "ob_state (ms_book fresh_market) \<noteq> Valid" "ms_sequence fresh_market = None"
    by (simp_all add: fresh_market_def book_reachable.constructed) (simp_all add: OrderBook_def)
  show ?thesis using run valid valid_book_explained [OF start run valid] by blast
qed

text \<open>C10. What every message does to the book is told by its outcome: \<open>BookUpdated\<close> means that all
  events of the message were applied in order and the book is Valid; an ignored, duplicate or
  late message leaves the book untouched; every failure invalidates it and changes nothing else.\<close>

theorem handle_outcome:
  assumes "book_reachable (ms_book s)"
    and "coinbase_handle sink publish now payload w m h s env = (r, h', s', env')"
  shows "outcome_meaning (pr_outcome r) (parsed_events default_products payload w m) (ms_book s) (ms_book s')"
  using coinbase_handle_ok [OF book_reachable_inv [OF assms(1)] assms(2)] .

theorem handle_outcome_witness:
  "\<exists>r h s. coinbase_handle accepting_sink (\<lambda>_ _ _ u. u) 25 sample_l2 10 20 CoinbaseMessageHandler fresh_market () = (r, h, s, ()) \<and>
     outcome_meaning (pr_outcome r) (parsed_events default_products sample_l2 10 20) (OrderBook Coinbase BTC_USD) (ms_book s)"
proof -
  obtain r h s where step: "coinbase_handle accepting_sink (\<lambda>_ _ _ u. u) 25 sample_l2 10 20 CoinbaseMessageHandler fresh_market () = (r, h, s, ())"
    by (metis prod_cases4 old.unit.exhaust)
  have "book_reachable (ms_book fresh_market)" by (simp add: fresh_market_def book_reachable.constructed)
  from handle_outcome [OF this step] step show ?thesis by (auto simp: fresh_market_def)
qed

lemma delay_after: "((snd \<circ> next_delay) ^^ n) ReconnectPolicy = min (250 * 2 ^ n) 10000"
  by (induction n) (auto simp: ReconnectPolicy_def next_delay_def min_def)

text \<open>C36. The delays after a reset are 250 milliseconds doubled at every attempt and capped at ten
  seconds, whatever delay the policy had reached before.\<close>

theorem reconnect_delays:
  "fst (next_delay (((snd \<circ> next_delay) ^^ n) (policy_reset p))) = min (250 * 2 ^ n) 10000"
  using delay_after [of n] by (simp add: policy_reset_def next_delay_def ReconnectPolicy_def)

section \<open>The pipeline and the processor\<close>

lemma coinbase_parse_keep:
  "coinbase_parse symbols raw w m True =
     map_sum id (\<lambda>r. r\<lparr>cp_raw_message := raw\<rparr>) (coinbase_parse symbols raw w m False)"
proof -
  have body: "coinbase_parse_body symbols raw w m (r\<lparr>cp_raw_message := x\<rparr>) =
      map_prod id (\<lambda>r. r\<lparr>cp_raw_message := x\<rparr>) (coinbase_parse_body symbols raw w m r)" for r x
    by (simp add: coinbase_parse_body_def Let_def split: sum.split)
  let ?r = "\<lparr>cp_status = Error, cp_events = [], cp_error = [], cp_raw_message = [], cp_sequence = None, cp_heartbeat_channel = False\<rparr>"
  have start: "\<lparr>cp_status = Error, cp_events = [], cp_error = [], cp_raw_message = raw, cp_sequence = None,
      cp_heartbeat_channel = False\<rparr> = ?r\<lparr>cp_raw_message := raw\<rparr>" by simp
  show ?thesis
    unfolding coinbase_parse_def if_True if_False start body
    by (auto split: prod.split option.split)
qed

definition same_market :: "message_pipeline \<Rightarrow> market_state \<Rightarrow> bool" where
  "same_market p s \<longleftrightarrow> mp_book p = ms_book s \<and> mp_sequence p = ms_sequence s"

lemma same_market_fail:
  "same_market p s \<Longrightarrow> same_market (snd (pipeline_fail e p)) (snd (process_fail o' e' r s))"
  by (simp add: same_market_def pipeline_fail_def process_fail_def)

lemma pipeline_apply_same:
  assumes "same_market p s" and "process_accepted now m res r s = (Inr r', s')"
    and "cp_status res \<noteq> Parsed \<or> cp_heartbeat_channel res \<Longrightarrow> cp_events res = []" and "cp_status res \<noteq> Error"
    and "cp_heartbeat_channel res \<Longrightarrow> cp_status res = Ignored" and "pr_error r = []"
  shows "fst (pipeline_apply res p) = (pr_error r' = []) \<and> same_market (snd (pipeline_apply res p)) s'"
proof (cases "cp_status res = Ignored")
  case True
  then show ?thesis using assms
    by (auto simp: pipeline_apply_def process_accepted_def process_heartbeat_def apply_events_def same_market_def
        split: sum.splits option.splits if_splits)
next
  case False
  then have "cp_status res = Parsed" using assms(4) by (cases "cp_status res") auto
  then show ?thesis using assms
    by (auto simp: pipeline_apply_def process_accepted_def process_l2_def pipeline_fail_def process_fail_def Let_def
        same_market_def apply_events_def [of "[]"] split: prod.splits bool.splits if_splits)
qed


definition resent_market :: market_state where
  "resent_market = fresh_market\<lparr>ms_sequence := Some 7\<rparr>"


end
