(* ===== verification/CoinbaseConnection.thy ===== *)
theory CoinbaseConnection
  imports CoinbaseHandler
begin

text \<open>
  The connection manager: \<open>coinbase_connection_manager.cpp\<close>. All entry points run on one
  thread, so a run is a sequence of whole operations: calls from outside, callbacks of the
  transport and expired timers. What the manager asks of transport and timers is appended to
  a list of effects; a callback carries the generation it was created with. The injected
  clock is a function from the number of the reading to its value, and the environment \<open>'e\<close>
  is what the envelope sink and the publish callback act on.
\<close>

record lifecycle_event =
  le_before_record_index :: uint64
  le_state :: book_state
  le_reason :: string

record recovery_metrics =
  rm_connections_started :: uint64
  rm_connections_succeeded :: uint64
  rm_disconnects :: uint64
  rm_reconnect_attempts :: uint64
  rm_recovery_successes :: uint64
  rm_recovery_count :: uint64
  rm_snapshots_received :: uint64
  rm_updates_received :: uint64
  rm_updates_before_snapshot :: uint64
  rm_time_to_first_snapshot :: int
  rm_recovery_duration :: int
  rm_valid_time :: int
  rm_stale_time :: int
  rm_invalid_time :: int
  rm_last_failure_reason :: string

definition RecoveryMetrics :: recovery_metrics where
  "RecoveryMetrics = \<lparr>rm_connections_started = 0, rm_connections_succeeded = 0, rm_disconnects = 0,
     rm_reconnect_attempts = 0, rm_recovery_successes = 0, rm_recovery_count = 0, rm_snapshots_received = 0,
     rm_updates_received = 0, rm_updates_before_snapshot = 0, rm_time_to_first_snapshot = 0,
     rm_recovery_duration = 0, rm_valid_time = 0, rm_stale_time = 0, rm_invalid_time = 0,
     rm_last_failure_reason = []\<rparr>"

datatype effect =
    Connect uint64
  | CloseTransport
  | ScheduleResume int uint64
  | CancelTimers
  | ArmHealthTimer int
  | Lifecycle lifecycle_event

record 'e manager =
  mg_config :: feed_health_config
  mg_market :: market_state
  mg_handler :: message_handler
  mg_terminal :: bool
  mg_backoff :: reconnect_policy
  mg_metrics :: recovery_metrics
  mg_stopping :: bool
  mg_recovery_pending :: bool
  mg_connected :: bool
  mg_generation :: uint64
  mg_connection_id :: uint64
  mg_state_since :: int
  mg_connected_at :: int
  mg_recovery_since :: "int option"
  mg_observed :: bool
  mg_reads :: nat
  mg_effects :: "effect list"
  mg_env :: 'e

type_synonym clock = "nat \<Rightarrow> int"

definition read_clock :: "clock \<Rightarrow> 'e manager \<Rightarrow> int \<times> 'e manager" where
  "read_clock clock g = (clock (mg_reads g), g\<lparr>mg_reads := mg_reads g + 1\<rparr>)"

definition emit :: "effect \<Rightarrow> 'e manager \<Rightarrow> 'e manager" where
  "emit e g = g\<lparr>mg_effects := mg_effects g @ [e]\<rparr>"

abbreviation mg_book :: "'e manager \<Rightarrow> order_book" where
  "mg_book g \<equiv> ms_book (mg_market g)"

definition set_book :: "order_book \<Rightarrow> 'e manager \<Rightarrow> 'e manager" where
  "set_book b g = g\<lparr>mg_market := (mg_market g)\<lparr>ms_book := b\<rparr>\<rparr>"

definition reset_sequence :: "'e manager \<Rightarrow> 'e manager" where
  "reset_sequence g = g\<lparr>mg_market := (mg_market g)\<lparr>ms_sequence := seq_reset (ms_sequence (mg_market g))\<rparr>\<rparr>"

definition health_config_ok :: "feed_health_config \<Rightarrow> bool" where
  "health_config_ok c \<longleftrightarrow> \<not> (fc_check_interval c \<le> 0 \<or> fc_max_any_message_age c \<le> 0 \<or> fc_max_heartbeat_age c \<le> 0 \<or>
     (case fc_max_instrument_message_age c of None \<Rightarrow> False | Some a \<Rightarrow> a \<le> 0))"

definition CoinbaseConnectionManager :: "clock \<Rightarrow> feed_health_config \<Rightarrow> bool \<Rightarrow> 'e \<Rightarrow> 'e manager result" where
  "CoinbaseConnectionManager clock config observed env =
     (if \<not> health_config_ok config then Inl (InvalidArgument ''health intervals must be positive'')
      else Inr \<lparr>mg_config = config,
        mg_market = \<lparr>ms_book = mark_disconnected (OrderBook Coinbase BTC_USD), ms_sequence = None, ms_health = FeedHealth\<rparr>,
        mg_handler = CoinbaseMessageHandler, mg_terminal = False, mg_backoff = ReconnectPolicy,
        mg_metrics = RecoveryMetrics, mg_stopping = True, mg_recovery_pending = False, mg_connected = False,
        mg_generation = 0, mg_connection_id = 0, mg_state_since = clock 0, mg_connected_at = 0,
        mg_recovery_since = None, mg_observed = observed, mg_reads = 1, mg_effects = [], mg_env = env\<rparr>)"

section \<open>Book state transitions\<close>

definition account_time :: "clock \<Rightarrow> book_state \<Rightarrow> 'e manager \<Rightarrow> 'e manager" where
  "account_time clock state g =
     (case read_clock clock g of (now, g) \<Rightarrow>
        let duration = now - mg_state_since g; m = mg_metrics g in
        g\<lparr>mg_metrics := m\<lparr>
            rm_valid_time := rm_valid_time m + (if state = Valid then duration else 0),
            rm_stale_time := rm_stale_time m + (if state = Stale then duration else 0),
            rm_invalid_time := rm_invalid_time m + (if state = Invalid then duration else 0)\<rparr>,
          mg_state_since := now\<rparr>)"

fun mark_state :: "book_state \<Rightarrow> order_book \<Rightarrow> order_book" where
  "mark_state Initializing b = mark_initializing b"
| "mark_state Stale b = mark_stale b"
| "mark_state Invalid b = invalidate b"
| "mark_state Disconnected b = mark_disconnected b"
| "mark_state Resyncing b = mark_resyncing b"
| "mark_state Valid b = b"

definition lifecycle_index :: "message_handler \<Rightarrow> uint64" where
  "lifecycle_index h = (case rp_last_received_index (mh_progress h) of None \<Rightarrow> 0 | Some i \<Rightarrow> i + 1)"

definition transition :: "clock \<Rightarrow> book_state \<Rightarrow> string \<Rightarrow> 'e manager \<Rightarrow> 'e manager" where
  "transition clock state reason g =
     (let g = (if mg_observed g \<and> reason \<noteq> []
               then emit (Lifecycle \<lparr>le_before_record_index = lifecycle_index (mg_handler g), le_state = state, le_reason = reason\<rparr>) g
               else g);
          g = account_time clock (ob_state (mg_book g)) g
      in set_book (mark_state state (mg_book g)) g)"

section \<open>The operations\<close>

definition begin_connection :: "clock \<Rightarrow> 'e manager \<Rightarrow> 'e manager" where
  "begin_connection clock g =
     (if mg_stopping g then g
      else
        let g = g\<lparr>mg_recovery_pending := False, mg_connected := False\<rparr>;
            g = transition clock Resyncing ''resynchronization'' g;
            g = reset_sequence g;
            (now, g) = read_clock clock g;
            g = g\<lparr>mg_connected_at := now,
                  mg_metrics := (mg_metrics g)\<lparr>rm_connections_started := rm_connections_started (mg_metrics g) + 1\<rparr>,
                  mg_generation := mg_generation g + 1\<rparr>
        in emit (Connect (mg_generation g)) g)"

definition arm_tick :: "'e manager \<Rightarrow> 'e manager" where
  "arm_tick g = emit (ArmHealthTimer (fc_check_interval (mg_config g))) g"

definition manager_start :: "clock \<Rightarrow> 'e manager \<Rightarrow> 'e manager" where
  "manager_start clock g =
     (if \<not> mg_stopping g \<or> mg_terminal g then g
      else arm_tick (begin_connection clock (g\<lparr>mg_stopping := False\<rparr>)))"

definition manager_stop :: "clock \<Rightarrow> 'e manager \<Rightarrow> 'e manager" where
  "manager_stop clock g =
     (if mg_stopping g then g
      else
        let g = g\<lparr>mg_stopping := True, mg_generation := mg_generation g + 1, mg_recovery_pending := False\<rparr>;
            g = emit CloseTransport (emit CancelTimers g);
            g = reset_sequence (g\<lparr>mg_connected := False\<rparr>)
        in transition clock Disconnected ''requested_shutdown'' g)"

definition handle_connected :: "clock \<Rightarrow> 'e manager \<Rightarrow> 'e manager" where
  "handle_connected clock g =
     (if mg_connected g then g
      else
        let g = g\<lparr>mg_connected := True, mg_connection_id := mg_connection_id g + 1,
                  mg_metrics := (mg_metrics g)\<lparr>rm_connections_succeeded := rm_connections_succeeded (mg_metrics g) + 1\<rparr>\<rparr>;
            (now, g) = read_clock clock g;
            g = g\<lparr>mg_connected_at := now,
                  mg_market := (mg_market g)\<lparr>ms_health := health_reset now (ms_health (mg_market g))\<rparr>\<rparr>;
            g = reset_sequence g
        in transition clock Initializing ''new_connection'' g)"

definition recover :: "clock \<Rightarrow> string \<Rightarrow> book_state \<Rightarrow> 'e manager \<Rightarrow> 'e manager" where
  "recover clock reason state g =
     (if mg_stopping g \<or> mg_recovery_pending g then g
      else
        let g = g\<lparr>mg_recovery_pending := True, mg_generation := mg_generation g + 1\<rparr>;
            g = reset_sequence (transition clock state reason g);
            m = mg_metrics g;
            g = g\<lparr>mg_metrics := m\<lparr>rm_disconnects := rm_disconnects m + (if mg_connected g then 1 else 0),
                                  rm_recovery_count := rm_recovery_count m + 1,
                                  rm_last_failure_reason := reason\<rparr>,
                  mg_connected := False\<rparr>;
            g = (if mg_recovery_since g = None
                 then case read_clock clock g of (now, g) \<Rightarrow> g\<lparr>mg_recovery_since := Some now\<rparr> else g);
            g = emit CloseTransport g;
            m = mg_metrics g;
            (delay, backoff) = next_delay (mg_backoff g);
            g = g\<lparr>mg_metrics := m\<lparr>rm_reconnect_attempts := rm_reconnect_attempts m + 1\<rparr>, mg_backoff := backoff\<rparr>
        in emit (ScheduleResume delay (mg_generation g)) g)"

definition terminal_recording_failure :: "clock \<Rightarrow> string \<Rightarrow> 'e manager \<Rightarrow> 'e manager" where
  "terminal_recording_failure clock error g =
     (let g = manager_stop clock (g\<lparr>mg_terminal := True\<rparr>);
          g = g\<lparr>mg_metrics := (mg_metrics g)\<lparr>rm_last_failure_reason := error\<rparr>\<rparr>
      in transition clock Invalid ''terminal_failure'' g)"

text \<open>A message that made the book Valid: the recovery is over.\<close>

definition recovered :: "clock \<Rightarrow> 'e manager \<Rightarrow> 'e manager" where
  "recovered clock g =
     (let g = g\<lparr>mg_backoff := policy_reset (mg_backoff g)\<rparr>;
          (now, g) = read_clock clock g;
          g = g\<lparr>mg_metrics := (mg_metrics g)\<lparr>rm_time_to_first_snapshot := now - mg_connected_at g\<rparr>\<rparr>
      in case mg_recovery_since g of
           None \<Rightarrow> g
         | Some since \<Rightarrow>
             (case read_clock clock g of (now, g) \<Rightarrow>
                let m = mg_metrics g in
                g\<lparr>mg_metrics := m\<lparr>rm_recovery_successes := rm_recovery_successes m + 1, rm_recovery_duration := now - since\<rparr>,
                  mg_recovery_since := None\<rparr>))"

definition handle_message ::
  "(raw_message \<Rightarrow> 'e \<Rightarrow> push_result result \<times> 'e) \<Rightarrow>
   (bool \<Rightarrow> process_result \<Rightarrow> runtime_progress \<Rightarrow> market_state \<Rightarrow> 'e \<Rightarrow> 'e) \<Rightarrow> clock \<Rightarrow> int \<Rightarrow>
   string \<Rightarrow> receive_wall_timestamp \<Rightarrow> receive_monotonic_timestamp \<Rightarrow> 'e manager \<Rightarrow> bool \<times> 'e manager" where
  "handle_message sink publish clock live_now raw wall monotonic g =
     (if \<not> mg_connected g then (False, g)
      else
        let previous_state = ob_state (mg_book g);
            handler = (mg_handler g)\<lparr>mh_connection_id := mg_connection_id g\<rparr>;
            (result, handler, market, env) =
              coinbase_handle sink (publish (mg_connected g)) live_now raw wall monotonic handler (mg_market g) (mg_env g);
            g = g\<lparr>mg_handler := handler, mg_market := market, mg_env := env\<rparr>;
            g = (if ob_state (mg_book g) \<noteq> previous_state then account_time clock previous_state g else g)
        in if pr_outcome result = RecordingRejected
           then (False, terminal_recording_failure clock (pr_error result) g)
           else if pr_error result \<noteq> [] then
             let m = mg_metrics g;
                 g = (if pr_error result = ''L2 update before snapshot''
                      then g\<lparr>mg_metrics := m\<lparr>rm_updates_before_snapshot := rm_updates_before_snapshot m + 1\<rparr>\<rparr> else g)
             in (False, recover clock (pr_error result) Invalid g)
           else
             let m = mg_metrics g;
                 g = g\<lparr>mg_metrics := m\<lparr>rm_snapshots_received := rm_snapshots_received m + of_nat (pr_snapshots result),
                                       rm_updates_received := rm_updates_received m + of_nat (pr_updates result)\<rparr>\<rparr>
             in (True, if previous_state \<noteq> Valid \<and> pr_outcome result = BookUpdated \<and> pr_snapshots result \<noteq> 0
                       then recovered clock g else g))"

definition check_health :: "clock \<Rightarrow> 'e manager \<Rightarrow> 'e manager" where
  "check_health clock g =
     (if mg_stopping g then g
      else if \<not> mg_connected g then
        (if mg_recovery_pending g then g
         else case read_clock clock g of (now, g) \<Rightarrow>
           if now - mg_connected_at g > 30000000000
           then recover clock ''Coinbase connection timeout'' Disconnected g else g)
      else case read_clock clock g of (now, g) \<Rightarrow>
        let reason = health_failure now (mg_config g) (ms_health (mg_market g)) in
        if reason = [] then transition clock (ob_state (mg_book g)) [] g
        else
          let h = ms_health (mg_market g);
              g = (if reason = ''Coinbase heartbeat timeout''
                   then g\<lparr>mg_market := (mg_market g)\<lparr>ms_health := h\<lparr>fh_heartbeat_timeouts := fh_heartbeat_timeouts h + 1\<rparr>\<rparr>\<rparr> else g)
          in recover clock reason Stale g)"

definition force_disconnect_for_test :: "clock \<Rightarrow> 'e manager \<Rightarrow> 'e manager" where
  "force_disconnect_for_test clock g = recover clock ''forced local disconnect'' Disconnected g"

section \<open>Callbacks\<close>

definition callback_live :: "uint64 \<Rightarrow> 'e manager \<Rightarrow> bool" where
  "callback_live generation g \<longleftrightarrow> \<not> (mg_stopping g \<or> generation \<noteq> mg_generation g)"

definition on_message ::
  "(raw_message \<Rightarrow> 'e \<Rightarrow> push_result result \<times> 'e) \<Rightarrow>
   (bool \<Rightarrow> process_result \<Rightarrow> runtime_progress \<Rightarrow> market_state \<Rightarrow> 'e \<Rightarrow> 'e) \<Rightarrow> clock \<Rightarrow> int \<Rightarrow> uint64 \<Rightarrow>
   string \<Rightarrow> receive_wall_timestamp \<Rightarrow> receive_monotonic_timestamp \<Rightarrow> 'e manager \<Rightarrow> bool \<times> 'e manager" where
  "on_message sink publish clock live_now generation raw wall monotonic g =
     (if \<not> callback_live generation g then (False, g)
      else handle_message sink publish clock live_now raw wall monotonic g)"

definition on_error :: "clock \<Rightarrow> uint64 \<Rightarrow> string \<Rightarrow> 'e manager \<Rightarrow> 'e manager" where
  "on_error clock generation reason g =
     (if \<not> callback_live generation g then g else recover clock reason Disconnected g)"

definition on_connected :: "clock \<Rightarrow> uint64 \<Rightarrow> 'e manager \<Rightarrow> 'e manager" where
  "on_connected clock generation g =
     (if \<not> callback_live generation g then g else handle_connected clock g)"

definition on_resume :: "clock \<Rightarrow> uint64 \<Rightarrow> 'e manager \<Rightarrow> 'e manager" where
  "on_resume clock generation g =
     (if \<not> callback_live generation g then g else begin_connection clock g)"

text \<open>The health timer; \<open>cancelled\<close> is an error code of the wait.\<close>

definition on_health_timer :: "clock \<Rightarrow> bool \<Rightarrow> 'e manager \<Rightarrow> 'e manager" where
  "on_health_timer clock cancelled g =
     (if cancelled \<or> mg_stopping g then g else arm_tick (check_health clock g))"

section \<open>What the helpers leave alone\<close>

lemma read_clock_fields [simp]:
  "fst (read_clock clock g) = clock (mg_reads g)"
  "snd (read_clock clock g) = g\<lparr>mg_reads := mg_reads g + 1\<rparr>"
  by (simp_all add: read_clock_def)

text \<open>
  The generations handed to callbacks: \<open>True\<close> marks those of a connection, \<open>False\<close> those of a
  scheduled resumption.
\<close>

fun effect_tag :: "effect \<Rightarrow> (bool \<times> uint64) list" where
  "effect_tag (Connect n) = [(True, n)]"
| "effect_tag (ScheduleResume d n) = [(False, n)]"
| "effect_tag _ = []"

definition tags :: "'e manager \<Rightarrow> (bool \<times> uint64) list" where
  "tags g = concat (map effect_tag (mg_effects g))"

text \<open>The part of the state that control flow depends on.\<close>

record 'e control =
  ct_connected :: bool
  ct_stopping :: bool
  ct_pending :: bool
  ct_terminal :: bool
  ct_generation :: uint64
  ct_handler :: message_handler
  ct_env :: 'e
  ct_tags :: "(bool \<times> uint64) list"

definition control :: "'e manager \<Rightarrow> 'e control" where
  "control g = \<lparr>ct_connected = mg_connected g, ct_stopping = mg_stopping g, ct_pending = mg_recovery_pending g,
     ct_terminal = mg_terminal g, ct_generation = mg_generation g, ct_handler = mg_handler g, ct_env = mg_env g,
     ct_tags = tags g\<rparr>"

lemma control_dest:
  assumes "control g = c"
  shows "mg_connected g = ct_connected c" "mg_stopping g = ct_stopping c" "mg_recovery_pending g = ct_pending c"
    "mg_terminal g = ct_terminal c" "mg_generation g = ct_generation c" "mg_handler g = ct_handler c"
    "mg_env g = ct_env c" "tags g = ct_tags c"
  using assms by (auto simp: control_def)

lemma account_time_frame [simp]:
  "mg_market (account_time clock st g) = mg_market g" "control (account_time clock st g) = control g"
  by (simp_all add: account_time_def read_clock_def Let_def control_def tags_def)

lemma transition_frame [simp]:
  "mg_market (transition clock st reason g) = (mg_market g)\<lparr>ms_book := mark_state st (mg_book g)\<rparr>"
  "control (transition clock st reason g) = control g"
  by (simp_all add: transition_def account_time_def read_clock_def emit_def set_book_def Let_def control_def tags_def)

lemma recovered_frame [simp]:
  "mg_market (recovered clock g) = mg_market g" "control (recovered clock g) = control g"
  by (simp_all add: recovered_def read_clock_def Let_def control_def tags_def split: option.split)

lemma transition_control [simp]:
  "mg_connected (transition clock st reason g) = mg_connected g" "mg_stopping (transition clock st reason g) = mg_stopping g"
  "mg_recovery_pending (transition clock st reason g) = mg_recovery_pending g" "mg_terminal (transition clock st reason g) = mg_terminal g"
  "mg_generation (transition clock st reason g) = mg_generation g" "mg_handler (transition clock st reason g) = mg_handler g"
  "mg_env (transition clock st reason g) = mg_env g"
  "concat (map effect_tag (mg_effects (transition clock st reason g))) = concat (map effect_tag (mg_effects g))"
  using control_dest [OF transition_frame(2) [of clock st reason g]] by (simp_all add: control_def tags_def)

lemmas manager_helpers = Let_def read_clock_def emit_def set_book_def reset_sequence_def seq_reset_def control_def tags_def

lemma begin_connection_eq:
  assumes "\<not> mg_stopping g"
  shows "mg_market (begin_connection clock g) = (mg_market g)\<lparr>ms_book := mark_state Resyncing (mg_book g), ms_sequence := None\<rparr>"
    and "control (begin_connection clock g) = (control g)\<lparr>ct_connected := False, ct_pending := False,
      ct_generation := mg_generation g + 1, ct_tags := tags g @ [(True, mg_generation g + 1)]\<rparr>"
  using assms by (simp_all add: begin_connection_def manager_helpers)

lemma manager_stop_eq:
  assumes "\<not> mg_stopping g"
  shows "mg_market (manager_stop clock g) = (mg_market g)\<lparr>ms_book := mark_state Disconnected (mg_book g), ms_sequence := None\<rparr>"
    and "control (manager_stop clock g) = (control g)\<lparr>ct_connected := False, ct_stopping := True, ct_pending := False,
      ct_generation := mg_generation g + 1\<rparr>"
  using assms by (simp_all add: manager_stop_def manager_helpers)

lemma handle_connected_eq:
  assumes "\<not> mg_connected g"
  shows "\<exists>health. mg_market (handle_connected clock g) =
      (mg_market g)\<lparr>ms_book := mark_state Initializing (mg_book g), ms_sequence := None, ms_health := health\<rparr>"
    and "control (handle_connected clock g) = (control g)\<lparr>ct_connected := True\<rparr>"
proof -
  show "\<exists>health. mg_market (handle_connected clock g) =
      (mg_market g)\<lparr>ms_book := mark_state Initializing (mg_book g), ms_sequence := None, ms_health := health\<rparr>"
    using assms by (simp add: handle_connected_def manager_helpers) (rule exI, rule market_state.equality; simp)
qed (use assms in \<open>simp add: handle_connected_def manager_helpers\<close>)

lemma recover_eq:
  assumes "\<not> mg_stopping g" "\<not> mg_recovery_pending g"
  shows "mg_market (recover clock reason st g) = (mg_market g)\<lparr>ms_book := mark_state st (mg_book g), ms_sequence := None\<rparr>"
    and "control (recover clock reason st g) = (control g)\<lparr>ct_connected := False, ct_pending := True,
      ct_generation := mg_generation g + 1, ct_tags := tags g @ [(False, mg_generation g + 1)]\<rparr>"
  using assms by (simp_all add: recover_def next_delay_def manager_helpers)

section \<open>Runs of the manager\<close>

text \<open>
  Everything that can happen to a manager, in any order; a callback may come with any
  generation, in particular with that of an earlier connection.
\<close>

datatype manager_op =
    OpStart | OpStop | OpTerminal string | OpForceDisconnect | OpCheckHealth | OpHealthTimer bool
  | OpMessage uint64 int string receive_wall_timestamp receive_monotonic_timestamp
  | OpError uint64 string | OpConnected uint64 | OpResume uint64

fun manager_step ::
  "(raw_message \<Rightarrow> 'e \<Rightarrow> push_result result \<times> 'e) \<Rightarrow>
   (bool \<Rightarrow> process_result \<Rightarrow> runtime_progress \<Rightarrow> market_state \<Rightarrow> 'e \<Rightarrow> 'e) \<Rightarrow> clock \<Rightarrow>
   manager_op \<Rightarrow> 'e manager \<Rightarrow> 'e manager" where
  "manager_step sink publish clock OpStart g = manager_start clock g"
| "manager_step sink publish clock OpStop g = manager_stop clock g"
| "manager_step sink publish clock (OpTerminal error) g = terminal_recording_failure clock error g"
| "manager_step sink publish clock OpForceDisconnect g = force_disconnect_for_test clock g"
| "manager_step sink publish clock OpCheckHealth g = check_health clock g"
| "manager_step sink publish clock (OpHealthTimer cancelled) g = on_health_timer clock cancelled g"
| "manager_step sink publish clock (OpMessage generation now raw w m) g =
     snd (on_message sink publish clock now generation raw w m g)"
| "manager_step sink publish clock (OpError generation reason) g = on_error clock generation reason g"
| "manager_step sink publish clock (OpConnected generation) g = on_connected clock generation g"
| "manager_step sink publish clock (OpResume generation) g = on_resume clock generation g"

text \<open>
  The log of the current connection along a run: it restarts whenever the sequence tracker is
  reset and grows by the messages that the manager hands on and the sink accepts.
\<close>

fun op_log :: "(raw_message \<Rightarrow> 'e \<Rightarrow> push_result result \<times> 'e) \<Rightarrow> manager_op \<Rightarrow> 'e manager \<Rightarrow> message_log" where
  "op_log sink (OpMessage generation now raw w m) g =
     (let msg = handled_envelope ((mg_handler g)\<lparr>mh_connection_id := mg_connection_id g\<rparr>) raw w m in
      if callback_live generation g \<and> mg_connected g \<and> fst (sink msg (mg_env g)) = Inr Accepted
      then message_log default_products msg (ms_sequence (mg_market g)) else [])"
| "op_log sink _ g = []"

text \<open>A callback exists only if the manager has handed it out.\<close>

fun op_enabled :: "manager_op \<Rightarrow> 'e manager \<Rightarrow> bool" where
  "op_enabled (OpMessage n _ _ _ _) g = ((True, n) \<in> set (tags g))"
| "op_enabled (OpError n _) g = ((True, n) \<in> set (tags g))"
| "op_enabled (OpConnected n) g = ((True, n) \<in> set (tags g))"
| "op_enabled (OpResume n) g = ((False, n) \<in> set (tags g))"
| "op_enabled _ g = True"

text \<open>
  The states a manager can reach in fewer than \<open>2 ^ 64\<close> operations, with the log of the
  current connection.
\<close>

inductive manager_reach ::
  "(raw_message \<Rightarrow> 'e \<Rightarrow> push_result result \<times> 'e) \<Rightarrow>
   (bool \<Rightarrow> process_result \<Rightarrow> runtime_progress \<Rightarrow> market_state \<Rightarrow> 'e \<Rightarrow> 'e) \<Rightarrow> clock \<Rightarrow>
   nat \<Rightarrow> message_log \<Rightarrow> 'e manager \<Rightarrow> bool"
  for sink publish clock where
  constructed: "CoinbaseConnectionManager clock config observed env = Inr g \<Longrightarrow>
    manager_reach sink publish clock 0 [] g"
| step: "manager_reach sink publish clock n log g \<Longrightarrow> op_enabled op g \<Longrightarrow> Suc n < 2 ^ 64 \<Longrightarrow>
    g' = manager_step sink publish clock op g \<Longrightarrow>
    log' = (if ms_sequence (mg_market g') = None then [] else log @ op_log sink op g) \<Longrightarrow>
    manager_reach sink publish clock (Suc n) log' g'"

section \<open>The invariant\<close>

definition conn_inv :: "nat \<Rightarrow> 'e control \<Rightarrow> bool" where
  "conn_inv n c \<longleftrightarrow>
     (ct_connected c \<longrightarrow> \<not> ct_stopping c \<and> \<not> ct_pending c) \<and>
     (ct_pending c \<longrightarrow> \<not> ct_stopping c) \<and> (ct_terminal c \<longrightarrow> ct_stopping c) \<and>
     unat (ct_generation c) \<le> n \<and>
     sorted_wrt (\<lambda>a b. unat (snd a) < unat (snd b)) (ct_tags c) \<and>
     (\<forall>t \<in> set (ct_tags c). unat (snd t) \<le> unat (ct_generation c)) \<and>
     (ct_pending c \<or> ct_stopping c \<longrightarrow> (True, ct_generation c) \<notin> set (ct_tags c)) \<and>
     (\<not> ct_pending c \<longrightarrow> (False, ct_generation c) \<notin> set (ct_tags c))"

lemma unat_Suc: "unat (w :: uint64) \<le> n \<Longrightarrow> Suc n < 2 ^ 64 \<Longrightarrow> unat (w + 1) = Suc (unat w)"
  by (simp add: unat_word_ariths)

lemma conn_inv_later: "conn_inv n c \<Longrightarrow> conn_inv (Suc n) c"
  by (auto simp: conn_inv_def)

lemma conn_inv_fresh:
  assumes "conn_inv n c" and "Suc n < 2 ^ 64"
  shows "unat (ct_generation c + 1) = Suc (unat (ct_generation c))" and "(b, ct_generation c + 1) \<notin> set (ct_tags c)"
    and "\<forall>t \<in> set (ct_tags c). unat (snd t) < unat (ct_generation c + 1)"
proof -
  show eq: "unat (ct_generation c + 1) = Suc (unat (ct_generation c))"
    using assms unat_Suc by (auto simp: conn_inv_def)
  show tags: "\<forall>t \<in> set (ct_tags c). unat (snd t) < unat (ct_generation c + 1)"
    using assms(1) unfolding eq conn_inv_def by (auto simp: less_Suc_eq_le)
  then show "(b, ct_generation c + 1) \<notin> set (ct_tags c)" by fastforce
qed

lemma conn_inv_ops:
  assumes "conn_inv n c" and "Suc n < 2 ^ 64"
  shows "\<not> ct_stopping c \<Longrightarrow> conn_inv (Suc n) (c\<lparr>ct_connected := False, ct_pending := False,
      ct_generation := ct_generation c + 1, ct_tags := ct_tags c @ [(True, ct_generation c + 1)]\<rparr>)"
    and "\<not> ct_stopping c \<Longrightarrow> conn_inv (Suc n) (c\<lparr>ct_connected := False, ct_pending := True,
      ct_generation := ct_generation c + 1, ct_tags := ct_tags c @ [(False, ct_generation c + 1)]\<rparr>)"
    and "conn_inv (Suc n) (c\<lparr>ct_connected := False, ct_stopping := True, ct_pending := False,
      ct_generation := ct_generation c + 1\<rparr>)"
    and "\<not> ct_stopping c \<Longrightarrow> \<not> ct_pending c \<Longrightarrow> conn_inv (Suc n) (c\<lparr>ct_connected := True\<rparr>)"
  using assms(1) conn_inv_fresh [OF assms]
  by (auto simp: conn_inv_def sorted_wrt_append)

lemma conn_inv_frame [simp]:
  "conn_inv n (c\<lparr>ct_handler := h\<rparr>) = conn_inv n c" "conn_inv n (c\<lparr>ct_env := e\<rparr>) = conn_inv n c"
  by (simp_all add: conn_inv_def)

definition manager_inv :: "nat \<Rightarrow> message_log \<Rightarrow> 'e manager \<Rightarrow> bool" where
  "manager_inv n log g \<longleftrightarrow> market_inv log (mg_market g) \<and> conn_inv n (control g) \<and>
     (\<not> mg_connected g \<longrightarrow> ob_state (mg_book g) \<noteq> Valid \<and> ms_sequence (mg_market g) = None)"

lemma mark_state_book [simp]:
  "book_inv (mark_state st b) = book_inv b" "ob_venue (mark_state st b) = ob_venue b"
  "st \<noteq> Valid \<Longrightarrow> ob_state (mark_state st b) = st"
  by (cases st; simp add: mark_defs)+

lemma mark_fields [simp]:
  "ob_state (mark_initializing b) = Initializing" "ob_state (mark_stale b) = Stale"
  "ob_state (mark_resyncing b) = Resyncing" "ob_state (mark_disconnected b) = Disconnected"
  "ob_state (invalidate b) = Invalid" "ob_venue (mark_disconnected b) = ob_venue b" "ob_venue (invalidate b) = ob_venue b"
  by (simp_all add: mark_defs)

lemma mark_state_self [simp]: "mark_state (ob_state b) b = b"
  by (cases "ob_state b") (simp_all add: mark_defs)

lemma market_inv_reset:
  assumes "market_inv log s" and "st \<noteq> Valid"
  shows "market_inv [] (s\<lparr>ms_book := mark_state st (ms_book s), ms_sequence := None\<rparr>)"
  using assms by (simp add: market_inv_def successive_def)

lemma market_inv_no_sequence: "market_inv log s \<Longrightarrow> ms_sequence s = None \<longleftrightarrow> log = []"
  by (auto simp: market_inv_def successive_def)

lemma recover_inv:
  assumes "manager_inv n log g" and "Suc n < 2 ^ 64" and "st \<noteq> Valid"
  shows "manager_inv (Suc n) [] (recover clock reason st g) \<or>
    manager_inv (Suc n) log (recover clock reason st g) \<and> recover clock reason st g = g"
proof (cases "mg_stopping g \<or> mg_recovery_pending g")
  case True
  then have "recover clock reason st g = g" by (auto simp: recover_def)
  then show ?thesis using assms(1) by (auto simp: manager_inv_def conn_inv_later)
next
  case False
  then have run: "\<not> mg_stopping g" "\<not> mg_recovery_pending g" by auto
  have "conn_inv (Suc n) (control (recover clock reason st g))"
    unfolding recover_eq(2) [OF run] using conn_inv_ops(2) [of n "control g"] assms(1,2) run
    by (simp add: manager_inv_def control_def)
  then show ?thesis using assms(1,3) recover_eq [OF run, of clock reason st] market_inv_reset [of log "mg_market g" st]
    by (simp add: manager_inv_def control_def)
qed

lemma begin_inv:
  assumes "manager_inv n log g" and "Suc n < 2 ^ 64" and "\<not> mg_stopping g"
  shows "manager_inv (Suc n) [] (begin_connection clock g)"
proof -
  have "conn_inv (Suc n) (control (begin_connection clock g))"
    unfolding begin_connection_eq(2) [OF assms(3)] using conn_inv_ops(1) [of n "control g"] assms
    by (simp add: manager_inv_def control_def)
  then show ?thesis using assms(1) begin_connection_eq [OF assms(3), of clock] market_inv_reset [of log "mg_market g" Resyncing]
    by (simp add: manager_inv_def control_def)
qed

lemma connected_inv:
  assumes "manager_inv n log g" and "Suc n < 2 ^ 64"
    and "\<not> mg_stopping g" and "\<not> mg_recovery_pending g"
  shows "manager_inv (Suc n) [] (handle_connected clock g) \<or>
    manager_inv (Suc n) log (handle_connected clock g) \<and> handle_connected clock g = g"
proof (cases "mg_connected g")
  case True
  then have "handle_connected clock g = g" by (simp add: handle_connected_def)
  then show ?thesis using assms(1) by (auto simp: manager_inv_def conn_inv_later)
next
  case False
  have "conn_inv (Suc n) (control (handle_connected clock g))"
    unfolding handle_connected_eq(2) [OF False] using conn_inv_ops(4) [of n "control g"] assms
    by (simp add: manager_inv_def control_def)
  moreover have "mg_connected (handle_connected clock g)"
    using control_dest(1) [OF handle_connected_eq(2) [OF False, of clock]] by simp
  ultimately show ?thesis using assms(1) handle_connected_eq(1) [OF False, of clock]
      market_inv_reset [of log "mg_market g" Initializing]
    by (auto simp: manager_inv_def)
qed

text \<open>Stopping, also from a state whose connection flags are about to change.\<close>

lemma stop_inv:
  assumes "market_inv log (mg_market g)" and "conn_inv n (control g)" and "Suc n < 2 ^ 64" and "\<not> mg_stopping g"
  shows "manager_inv (Suc n) [] (manager_stop clock g)"
proof -
  have "conn_inv (Suc n) (control (manager_stop clock g))"
    unfolding manager_stop_eq(2) [OF assms(4)] using conn_inv_ops(3) [OF assms(2,3)] by (simp add: control_def)
  then show ?thesis using manager_stop_eq(1) [OF assms(4), of clock] market_inv_reset [OF assms(1), of Disconnected]
    by (simp add: manager_inv_def)
qed

lemma terminal_inv:
  assumes "market_inv log (mg_market g)" and "conn_inv n (control g)" and "Suc n < 2 ^ 64"
    and "\<not> mg_connected g \<Longrightarrow> ms_sequence (mg_market g) = None"
  shows "manager_inv (Suc n) [] (terminal_recording_failure clock error g)"
proof (cases "mg_stopping g")
  case True
  then have c: "conn_inv (Suc n) ((control g)\<lparr>ct_terminal := True\<rparr>)" "\<not> mg_connected g"
    using assms(2) by (auto simp: conn_inv_def control_def)
  have log: "log = []" using market_inv_no_sequence [OF assms(1)] assms(4) c(2) by simp
  have eq: "mg_market (terminal_recording_failure clock error g) = (mg_market g)\<lparr>ms_book := mark_state Invalid (mg_book g)\<rparr>"
    "control (terminal_recording_failure clock error g) = (control g)\<lparr>ct_terminal := True\<rparr>"
    using True by (simp_all add: terminal_recording_failure_def manager_stop_def manager_helpers)
  show ?thesis unfolding manager_inv_def eq
    using c(1) assms(1,4) c(2) log by (simp add: market_inv_def)
next
  case False
  let ?g = "g\<lparr>mg_terminal := True\<rparr>"
  let ?s = "manager_stop clock ?g"
  have "control (terminal_recording_failure clock error g) = control ?s"
    "mg_market (terminal_recording_failure clock error g) = (mg_market ?s)\<lparr>ms_book := mark_state Invalid (mg_book ?s)\<rparr>"
    by (simp_all add: terminal_recording_failure_def Let_def control_def tags_def)
  moreover have "conn_inv (Suc n) (control ?s)"
    unfolding manager_stop_eq(2) [of ?g clock, simplified, OF False] using conn_inv_ops(3) [OF assms(2,3)]
    by (simp add: control_def tags_def conn_inv_def)
  moreover have "mg_market ?s = (mg_market g)\<lparr>ms_book := mark_state Disconnected (mg_book g), ms_sequence := None\<rparr>"
    using manager_stop_eq(1) [of ?g clock] False by simp
  ultimately show ?thesis using assms(1) by (simp add: manager_inv_def market_inv_def successive_def)
qed

lemma control_metrics [simp]: "control (g\<lparr>mg_metrics := m\<rparr>) = control g"
  by (simp add: control_def tags_def)

lemma control_reads [simp]: "control (g\<lparr>mg_reads := k\<rparr>) = control g" "control (g\<lparr>mg_market := s\<rparr>) = control g"
  by (simp_all add: control_def tags_def)

lemma handle_message_inv:
  fixes raw w m and sink :: "raw_message \<Rightarrow> 'e \<Rightarrow> push_result result \<times> 'e"
  assumes inv: "manager_inv n log g" and bound: "Suc n < 2 ^ 64" and conn: "mg_connected g"
  defines "msg \<equiv> handled_envelope ((mg_handler g)\<lparr>mh_connection_id := mg_connection_id g\<rparr>) raw w m"
  defines "log' \<equiv> log @ (if fst (sink msg (mg_env g)) = Inr Accepted
      then message_log default_products msg (ms_sequence (mg_market g)) else [])"
  shows "manager_inv (Suc n) [] (snd (handle_message sink publish clock now raw w m g)) \<or>
    manager_inv (Suc n) log' (snd (handle_message sink publish clock now raw w m g))"
proof -
  let ?h = "(mg_handler g)\<lparr>mh_connection_id := mg_connection_id g\<rparr>"
  obtain r h1 s1 env1 where step:
      "coinbase_handle sink (publish True) now raw w m ?h (mg_market g) (mg_env g) = (r, h1, s1, env1)"
    by (metis prod_cases4)
  define g1 where "g1 = g\<lparr>mg_handler := h1, mg_market := s1, mg_env := env1\<rparr>"
  define g2 where "g2 = (if ob_state (mg_book g1) \<noteq> ob_state (mg_book g)
      then account_time clock (ob_state (mg_book g)) g1 else g1)"
  have market: "mg_market g2 = s1" and control: "control g2 = (control g)\<lparr>ct_handler := h1, ct_env := env1\<rparr>"
    by (simp_all add: g2_def g1_def) (simp_all add: control_def tags_def)
  have connected: "mg_connected g2" using control_dest(1) [OF control] conn by (simp add: control_def)
  have inv1: "market_inv log' s1"
    using coinbase_handle_inv [OF _ step, of log] inv unfolding log'_def msg_def by (simp add: manager_inv_def)
  have conn_inv: "conn_inv n (control g2)" using inv control by (simp add: manager_inv_def)
  have inv2: "manager_inv k log' g'" if "mg_market g' = s1" "control g' = control g2" "k = n \<or> k = Suc n" for k g'
    using that inv1 conn_inv conn_inv_later [OF conn_inv] control_dest(1) [OF that(2)] connected
    by (auto simp: manager_inv_def control_def)
  let ?out = "snd (handle_message sink publish clock now raw w m g)"
  let ?m = "mg_metrics g2"
  let ?ok = "g2\<lparr>mg_metrics := ?m\<lparr>rm_snapshots_received := rm_snapshots_received ?m + of_nat (pr_snapshots r),
      rm_updates_received := rm_updates_received ?m + of_nat (pr_updates r)\<rparr>\<rparr>"
  let ?early = "g2\<lparr>mg_metrics := ?m\<lparr>rm_updates_before_snapshot := rm_updates_before_snapshot ?m + 1\<rparr>\<rparr>"
  have out: "?out = (if pr_outcome r = RecordingRejected then terminal_recording_failure clock (pr_error r) g2
      else if pr_error r \<noteq> []
      then recover clock (pr_error r) Invalid (if pr_error r = ''L2 update before snapshot'' then ?early else g2)
      else if ob_state (mg_book g) \<noteq> Valid \<and> pr_outcome r = BookUpdated \<and> pr_snapshots r \<noteq> 0 then recovered clock ?ok else ?ok)"
    unfolding handle_message_def using conn
    by (simp only: not_True_eq_False if_False Let_def step prod.case g1_def [symmetric] g2_def [symmetric] split: if_split) simp
  consider (rejected) "?out = terminal_recording_failure clock (pr_error r) g2"
    | (error) g3 where "?out = recover clock (pr_error r) Invalid g3" "mg_market g3 = s1" "control g3 = control g2"
    | (ok) "mg_market ?out = s1" "control ?out = control g2"
  proof (cases "pr_outcome r = RecordingRejected")
    case True
    then show ?thesis using that(1) out by simp
  next
    case False
    then show ?thesis using that(2,3) out market by (cases "pr_error r = []") (auto split: if_splits)
  qed
  then show ?thesis
  proof cases
    case rejected
    then show ?thesis using terminal_inv [of log' g2 n clock "pr_error r"] inv1 conn_inv bound market connected by simp
  next
    case (error g3)
    then show ?thesis using recover_inv [OF inv2 [of g3 n] bound, of Invalid clock "pr_error r"] by auto
  next
    case ok
    then show ?thesis using inv2 by blast
  qed
qed

lemma manager_inv_frame:
  assumes "manager_inv n log g" and "market_inv log (mg_market g) \<Longrightarrow> market_inv log (mg_market g')"
    and "mg_book g' = mg_book g" and "ms_sequence (mg_market g') = ms_sequence (mg_market g)" and "control g' = control g"
  shows "manager_inv n log g'" and "manager_inv (Suc n) log g'"
  using assms control_dest(1) [OF assms(5)] conn_inv_later
  by (auto simp: manager_inv_def control_def)

lemma arm_tick_inv: "manager_inv n log g \<Longrightarrow> manager_inv n log (arm_tick g)"
  by (erule manager_inv_frame(1)) (simp_all add: arm_tick_def manager_helpers)

lemma manager_inv_later: "manager_inv n log g \<Longrightarrow> manager_inv (Suc n) log g"
  by (auto simp: manager_inv_def conn_inv_later)

lemma check_health_inv:
  assumes "manager_inv n log g" and "Suc n < 2 ^ 64"
  shows "manager_inv (Suc n) [] (check_health clock g) \<or> manager_inv (Suc n) log (check_health clock g)"
proof -
  let ?g = "g\<lparr>mg_reads := mg_reads g + 1\<rparr>"
  have read: "manager_inv n log ?g" by (rule manager_inv_frame(1) [OF assms(1)]) simp_all
  have timeout: "manager_inv n log (?g\<lparr>mg_market := (mg_market ?g)\<lparr>ms_health := h\<rparr>\<rparr>)" for h
    by (rule manager_inv_frame(1) [OF assms(1)]) simp_all
  have still: "manager_inv (Suc n) log (transition clock (ob_state (mg_book g)) [] ?g)"
    by (rule manager_inv_frame(2) [OF assms(1)]) simp_all
  have recovering: "manager_inv (Suc n) [] (recover clock r st g') \<or> manager_inv (Suc n) log (recover clock r st g')"
    if "manager_inv n log g'" "st \<noteq> Valid" for r st g'
    using recover_inv [OF that(1) assms(2) that(2), of clock r] by blast
  show ?thesis
    using manager_inv_later [OF assms(1)] manager_inv_later [OF read] still recovering [OF read] recovering [OF timeout]
    by (simp add: check_health_def Let_def read_clock_def)
qed

lemma start_inv:
  assumes "manager_inv n log g" and "Suc n < 2 ^ 64"
  shows "manager_inv (Suc n) [] (manager_start clock g) \<or> manager_inv (Suc n) log (manager_start clock g)"
proof (cases "\<not> mg_stopping g \<or> mg_terminal g")
  case True
  then show ?thesis using manager_inv_later [OF assms(1)] by (auto simp: manager_start_def)
next
  case False
  then have "manager_inv n log (g\<lparr>mg_stopping := False\<rparr>)"
    using assms(1) by (auto simp: manager_inv_def conn_inv_def control_def tags_def)
  then have "manager_inv (Suc n) [] (begin_connection clock (g\<lparr>mg_stopping := False\<rparr>))"
    by (rule begin_inv [OF _ assms(2)]) simp
  then show ?thesis using arm_tick_inv False by (auto simp: manager_start_def)
qed

lemma callback_inv:
  assumes "manager_inv n log g" and "(True, k) \<in> set (tags g)" and "callback_live k g"
  shows "\<not> mg_recovery_pending g"
  using assms by (auto simp: manager_inv_def conn_inv_def callback_live_def control_def)

lemma manager_step_inv:
  assumes inv: "manager_inv n log g" and bound: "Suc n < 2 ^ 64" and enabled: "op_enabled op g"
  shows "manager_inv (Suc n) [] (manager_step sink publish clock op g) \<or>
    manager_inv (Suc n) (log @ op_log sink op g) (manager_step sink publish clock op g)"
proof (cases op)
  case (OpMessage k now raw w m)
  show ?thesis
  proof (cases "callback_live k g \<and> mg_connected g")
    case True
    then show ?thesis using handle_message_inv [OF inv bound, where sink = sink and publish = publish] OpMessage
      by (simp add: on_message_def Let_def)
  next
    case False
    then show ?thesis using manager_inv_later [OF inv] OpMessage by (auto simp: on_message_def handle_message_def Let_def)
  qed
next
  case (OpError k reason)
  then show ?thesis using recover_inv [OF inv bound, of Disconnected clock reason] manager_inv_later [OF inv]
    by (auto simp: on_error_def)
next
  case (OpConnected k)
  then show ?thesis
    using connected_inv [OF inv bound, of clock] callback_inv [OF inv] enabled manager_inv_later [OF inv]
    by (auto simp: on_connected_def callback_live_def)
next
  case (OpResume k)
  then show ?thesis using begin_inv [OF inv bound, of clock] manager_inv_later [OF inv]
    by (auto simp: on_resume_def callback_live_def)
next
  case (OpHealthTimer cancelled)
  then show ?thesis using check_health_inv [OF inv bound, of clock] manager_inv_later [OF inv] arm_tick_inv
    by (auto simp: on_health_timer_def)
next
  case OpStop
  then show ?thesis using stop_inv [of log g n clock] inv bound manager_inv_later [OF inv]
    by (cases "mg_stopping g") (auto simp: manager_inv_def manager_stop_def)
next
  case (OpTerminal error)
  then show ?thesis using terminal_inv [of log g n clock error] inv bound by (auto simp: manager_inv_def)
next
  case OpForceDisconnect
  then show ?thesis using recover_inv [OF inv bound, of Disconnected clock] by (auto simp: force_disconnect_for_test_def)
qed (use start_inv [OF inv bound] check_health_inv [OF inv bound] in simp_all)

lemma constructed_inv: "CoinbaseConnectionManager clock config observed env = Inr g \<Longrightarrow> manager_inv 0 [] g"
  by (auto simp: CoinbaseConnectionManager_def manager_inv_def conn_inv_def control_def tags_def market_inv_def
      successive_def split: if_splits) (simp_all add: OrderBook_def mark_defs)

lemma manager_reach_inv: "manager_reach sink publish clock n log g \<Longrightarrow> manager_inv n log g"
proof (induction rule: manager_reach.induct)
  case (constructed config observed env g)
  then show ?case by (rule constructed_inv)
next
  case (step n log g op g' log')
  have seq: "manager_inv (Suc n) l g' \<Longrightarrow> ms_sequence (mg_market g') = None \<longleftrightarrow> l = []" for l
    by (simp add: manager_inv_def market_inv_no_sequence)
  from manager_step_inv [OF step.IH step.hyps(3,2), of sink publish clock] show ?case
    using seq step.hyps(4,5) by (metis append_is_Nil_conv)
qed

section \<open>A sample run\<close>

definition sample_clock :: clock where
  "sample_clock k = int k"

abbreviation no_publish :: "bool \<Rightarrow> process_result \<Rightarrow> runtime_progress \<Rightarrow> market_state \<Rightarrow> unit \<Rightarrow> unit" where
  "no_publish \<equiv> \<lambda>_ _ _ _ u. u"

definition new_manager :: "unit manager" where
  "new_manager = (case CoinbaseConnectionManager sample_clock default_health_config True () of Inr g \<Rightarrow> g)"

definition connected_manager :: "unit manager" where
  "connected_manager = on_connected sample_clock 1 (manager_start sample_clock new_manager)"

lemma new_manager_eq: "CoinbaseConnectionManager sample_clock default_health_config True () = Inr new_manager"
  by (simp add: new_manager_def CoinbaseConnectionManager_def health_config_ok_def default_health_config_def)

lemma new_manager_reach: "manager_reach accepting_sink no_publish sample_clock 0 [] new_manager"
  using manager_reach.constructed [OF new_manager_eq] .

lemma new_manager_control:
  "control new_manager = \<lparr>ct_connected = False, ct_stopping = True, ct_pending = False, ct_terminal = False,
     ct_generation = 0, ct_handler = CoinbaseMessageHandler, ct_env = (), ct_tags = []\<rparr>"
  by (simp add: new_manager_def CoinbaseConnectionManager_def health_config_ok_def default_health_config_def control_def tags_def)

lemma started_control:
  "control (manager_start sample_clock new_manager) = \<lparr>ct_connected = False, ct_stopping = False, ct_pending = False,
     ct_terminal = False, ct_generation = 1, ct_handler = CoinbaseMessageHandler, ct_env = (), ct_tags = [(True, 1)]\<rparr>"
proof -
  let ?g = "new_manager\<lparr>mg_stopping := False\<rparr>"
  note c = control_dest [OF new_manager_control, simplified]
  have "control ?g = (control new_manager)\<lparr>ct_stopping := False\<rparr>" by (simp add: control_def tags_def)
  moreover have "control (arm_tick g) = control g" for g :: "unit manager" by (simp add: arm_tick_def manager_helpers)
  moreover have "manager_start sample_clock new_manager = arm_tick (begin_connection sample_clock ?g)"
    using c by (simp add: manager_start_def)
  moreover have "tags ?g = []" using c by (simp add: tags_def)
  ultimately show ?thesis using begin_connection_eq(2) [of ?g sample_clock] c new_manager_control by simp
qed

lemma connected_manager_reach: "manager_reach accepting_sink no_publish sample_clock 2 [] connected_manager"
  and connected_manager_control: "control connected_manager = \<lparr>ct_connected = True, ct_stopping = False, ct_pending = False,
     ct_terminal = False, ct_generation = 1, ct_handler = CoinbaseMessageHandler, ct_env = (), ct_tags = [(True, 1)]\<rparr>"
  and connected_manager_market: "ms_sequence (mg_market connected_manager) = None" "ob_venue (mg_book connected_manager) = Coinbase"
proof -
  let ?g1 = "manager_start sample_clock new_manager"
  note c = control_dest [OF started_control, simplified]
  have g2: "connected_manager = handle_connected sample_clock ?g1"
    using c by (simp add: connected_manager_def on_connected_def callback_live_def)
  show "control connected_manager = \<lparr>ct_connected = True, ct_stopping = False, ct_pending = False,
     ct_terminal = False, ct_generation = 1, ct_handler = CoinbaseMessageHandler, ct_env = (), ct_tags = [(True, 1)]\<rparr>"
    using handle_connected_eq(2) [of ?g1 sample_clock] c started_control by (simp add: g2)
  show seq: "ms_sequence (mg_market connected_manager) = None"
    using handle_connected_eq(1) [of ?g1 sample_clock] c by (auto simp: g2)
  have "ms_sequence (mg_market ?g1) = None"
    using begin_connection_eq(1) [of "new_manager\<lparr>mg_stopping := False\<rparr>" sample_clock] control_dest [OF new_manager_control]
    by (simp add: manager_start_def arm_tick_def emit_def)
  then have r1: "manager_reach accepting_sink no_publish sample_clock 1 [] ?g1"
    using manager_reach.step [OF new_manager_reach, of OpStart] by simp
  have r2: "manager_reach accepting_sink no_publish sample_clock (Suc 1) [] connected_manager"
    by (rule manager_reach.step [OF r1, of "OpConnected 1"]) (use c seq in \<open>simp_all add: connected_manager_def\<close>)
  then show "manager_reach accepting_sink no_publish sample_clock 2 [] connected_manager" by (simp add: numeral_2_eq_2)
  show "ob_venue (mg_book connected_manager) = Coinbase"
    using manager_reach_inv [OF r2] by (simp add: manager_inv_def market_inv_def)
qed

lemma sample_handled:
  assumes "ms_sequence s = None" and "ob_venue (ms_book s) = Coinbase"
  shows "\<exists>r h' s'. coinbase_handle accepting_sink publish now sample_l2 10 20 h s () = (r, h', s', ()) \<and>
    pr_outcome r = BookUpdated \<and> pr_error r = [] \<and> ob_state (ms_book s') = Valid"
proof -
  have i: "ob_instrument b = BTC_USD" for b :: order_book by (cases "ob_instrument b") simp
  have applied: "\<exists>b'. apply_events sample_l2_events b = (True, b') \<and> ob_state b' = Valid" if "ob_venue b = Coinbase" for b
    using that i by (simp add: sample_l2_events_def apply_events_def apply_snapshot_eq snapshot_fits_def snapshot_book_def
        valid_level_def level_key_def)
  have nonempty: "sample_l2_events \<noteq> []" "is_snapshot (hd sample_l2_events)" by (simp_all add: sample_l2_events_def)
  obtain b' where b': "apply_events sample_l2_events (ms_book s) = (True, b')" "ob_state b' = Valid"
    using applied assms(2) by blast
  show ?thesis
    using assms nonempty b'
    by (simp add: coinbase_handle_def try_handle_def accepting_sink_def coinbase_process_def sample_l2_parsed
        process_accepted_def process_l2_def Let_def ProcessResult_def)
qed

definition updated_manager :: "unit manager" where
  "updated_manager = snd (on_message accepting_sink no_publish sample_clock 25 1 sample_l2 10 20 connected_manager)"

lemma updated_manager_valid: "ob_state (mg_book updated_manager) = Valid"
proof -
  note c = control_dest [OF connected_manager_control, simplified]
  let ?h = "(mg_handler connected_manager)\<lparr>mh_connection_id := mg_connection_id connected_manager\<rparr>"
  obtain r h' s' where
    "coinbase_handle accepting_sink (\<lambda>_ _ _ u. u) 25 sample_l2 10 20 ?h (mg_market connected_manager) () = (r, h', s', ())"
    "pr_outcome r = BookUpdated" "pr_error r = []" "ob_state (ms_book s') = Valid"
    using sample_handled [OF connected_manager_market] by blast
  then show ?thesis using c by (simp add: updated_manager_def on_message_def callback_live_def handle_message_def Let_def)
qed

lemma updated_manager_reach: "\<exists>log. manager_reach accepting_sink no_publish sample_clock 3 log updated_manager"
proof -
  have "manager_reach accepting_sink no_publish sample_clock (Suc 2)
    (if ms_sequence (mg_market updated_manager) = None then [] else [] @ op_log accepting_sink (OpMessage 1 25 sample_l2 10 20) connected_manager)
    updated_manager"
    by (rule manager_reach.step [OF connected_manager_reach, of "OpMessage 1 25 sample_l2 10 20"])
      (use control_dest [OF connected_manager_control] in \<open>simp_all add: updated_manager_def\<close>)
  then show ?thesis by (auto simp: numeral_3_eq_3 numeral_2_eq_2)
qed

section \<open>Properties\<close>

text \<open>C4. Whatever calls, callbacks, messages and timers reach the manager in whatever order, a
  Valid book means: the connection is up, no recovery or shutdown is under way, and the book is
  explained by the messages accepted on the current connection with consecutive sequence
  numbers. Data of an earlier connection never shows.\<close>

theorem valid_book_on_current_connection:
  assumes "manager_reach sink publish clock n log g" and "ob_state (mg_book g) = Valid"
  shows "mg_connected g \<and> \<not> mg_stopping g \<and> \<not> mg_recovery_pending g \<and> \<not> mg_terminal g \<and>
    explained log (mg_book g) \<and> successive log (ms_sequence (mg_market g))"
  using manager_reach_inv [OF assms(1)] assms(2)
  by (auto simp: manager_inv_def conn_inv_def control_def market_inv_def)

theorem valid_book_on_current_connection_witness:
  "\<exists>log. manager_reach accepting_sink no_publish sample_clock 3 log updated_manager \<and>
     ob_state (mg_book updated_manager) = Valid \<and> mg_connected updated_manager \<and> explained log (mg_book updated_manager)"
  using valid_book_on_current_connection [OF _ updated_manager_valid] updated_manager_reach updated_manager_valid by blast

text \<open>C11. At any moment at most one of all the callbacks the manager has ever handed to a
  transport or to the reconnect timer can still act on it: connections and scheduled
  reconnects of the past are dead.\<close>

theorem single_live_callback:
  assumes "manager_reach sink publish clock n log g"
  shows "length (filter (\<lambda>t. callback_live (snd t) g) (tags g)) \<le> 1"
proof -
  have sorted: "sorted_wrt (\<lambda>a b. unat (snd a) < unat (snd b)) (tags g)"
    using manager_reach_inv [OF assms] by (simp add: manager_inv_def conn_inv_def control_def)
  have "length (filter (\<lambda>t. snd t = k) ts) \<le> 1" if "sorted_wrt (\<lambda>a b. unat (snd a) < unat (snd b)) ts"
    for k :: uint64 and ts :: "(bool \<times> uint64) list"
    using that
  proof (induction ts)
    case (Cons t ts)
    then have "filter (\<lambda>t. snd t = k) ts = []" if "snd t = k" using that by (auto simp: filter_empty_conv)
    then show ?case using Cons by auto
  qed simp
  from this [OF sorted, of "mg_generation g"] show ?thesis
    by (cases "mg_stopping g") (simp_all add: callback_live_def)
qed

theorem single_live_callback_witness:
  "length (filter (\<lambda>t. callback_live (snd t) connected_manager) (tags connected_manager)) \<le> 1 \<and>
     tags connected_manager = [(True, 1)]"
  using single_live_callback [OF connected_manager_reach] control_dest [OF connected_manager_control] by simp

lemma stopped_step:
  assumes "mg_terminal g" and "mg_stopping g"
  shows "mg_terminal (manager_step sink publish clock op g)" "mg_stopping (manager_step sink publish clock op g)"
    "tags (manager_step sink publish clock op g) = tags g" "mg_handler (manager_step sink publish clock op g) = mg_handler g"
    "ob_state (mg_book g) \<noteq> Valid \<Longrightarrow> ob_state (mg_book (manager_step sink publish clock op g)) \<noteq> Valid"
proof -
  consider (failed) error where "op = OpTerminal error" | (other) "manager_step sink publish clock op g = g"
    using assms by (cases op) (auto simp: manager_start_def manager_stop_def force_disconnect_for_test_def recover_def
        check_health_def on_health_timer_def on_message_def on_error_def on_connected_def on_resume_def callback_live_def)
  note cs = this
  show "mg_terminal (manager_step sink publish clock op g)" "mg_stopping (manager_step sink publish clock op g)"
    "tags (manager_step sink publish clock op g) = tags g" "mg_handler (manager_step sink publish clock op g) = mg_handler g"
    using cs assms by (cases; simp add: terminal_recording_failure_def manager_stop_def Let_def tags_def)+
  show "ob_state (mg_book (manager_step sink publish clock op g)) \<noteq> Valid" if "ob_state (mg_book g) \<noteq> Valid"
    using cs assms that by (cases; simp add: terminal_recording_failure_def manager_stop_def Let_def)
qed

text \<open>C12. A recording failure is final: whatever happens afterwards, a restart included, the
  manager never connects or schedules a reconnect again, hands no further message to the
  handler, and the book never becomes Valid.\<close>

theorem terminal_is_final:
  "case fold (manager_step sink publish clock) ops (terminal_recording_failure clock error g) of g' \<Rightarrow>
    mg_terminal g' \<and> tags g' = tags g \<and> mg_handler g' = mg_handler g \<and> ob_state (mg_book g') \<noteq> Valid"
proof -
  let ?g = "terminal_recording_failure clock error g"
  have start: "mg_terminal ?g" "mg_stopping ?g" "tags ?g = tags g" "mg_handler ?g = mg_handler g" "ob_state (mg_book ?g) \<noteq> Valid"
    by (simp_all add: terminal_recording_failure_def manager_stop_def manager_helpers)
  have "mg_terminal (fold (manager_step sink publish clock) ops g') \<and> tags (fold (manager_step sink publish clock) ops g') = tags g' \<and>
      mg_handler (fold (manager_step sink publish clock) ops g') = mg_handler g' \<and>
      ob_state (mg_book (fold (manager_step sink publish clock) ops g')) \<noteq> Valid"
    if "mg_terminal g'" "mg_stopping g'" "ob_state (mg_book g') \<noteq> Valid" for g'
    using that by (induction ops arbitrary: g') (simp_all add: stopped_step)
  from this [OF start(1,2,5)] start(3,4) show ?thesis by simp
qed

text \<open>C18. Every failure of a running connection leads to a new one: the recovery closes the
  transport, takes the book out of use and schedules exactly one resumption, and that
  resumption, when its timer fires, opens a fresh connection.\<close>

theorem recovery_reconnects:
  assumes "\<not> mg_stopping g" and "\<not> mg_recovery_pending g" and "st \<noteq> Valid"
  shows "case recover clock reason st g of g1 \<Rightarrow>
    tags g1 = tags g @ [(False, mg_generation g1)] \<and> CloseTransport \<in> set (mg_effects g1) \<and>
    ob_state (mg_book g1) = st \<and> \<not> mg_connected g1 \<and>
    (case on_resume clock (mg_generation g1) g1 of g2 \<Rightarrow>
       tags g2 = tags g1 @ [(True, mg_generation g2)] \<and> \<not> mg_recovery_pending g2 \<and> callback_live (mg_generation g2) g2)"
proof -
  let ?g1 = "recover clock reason st g"
  note c1 = control_dest [OF recover_eq(2) [OF assms(1,2), of clock reason st]]
  have run: "\<not> mg_stopping ?g1" "mg_generation ?g1 = mg_generation g + 1" using c1 assms(1) by (simp_all add: control_def)
  note c2 = control_dest [OF begin_connection_eq(2) [OF run(1), of clock]]
  have "CloseTransport \<in> set (mg_effects ?g1)" using assms(1,2)
    by (simp add: recover_def next_delay_def manager_helpers)
  then show ?thesis using c1 c2 run assms(3) recover_eq(1) [OF assms(1,2), of clock reason st]
    by (simp add: on_resume_def callback_live_def control_def)
qed

theorem recovery_reconnects_witness:
  "case recover sample_clock ''closed'' Disconnected connected_manager of g1 \<Rightarrow>
    tags g1 = [(True, 1), (False, mg_generation g1)] \<and> ob_state (mg_book g1) = Disconnected \<and>
    callback_live (mg_generation (on_resume sample_clock (mg_generation g1) g1)) (on_resume sample_clock (mg_generation g1) g1)"
  using recovery_reconnects [of connected_manager Disconnected sample_clock "''closed''"]
    control_dest [OF connected_manager_control] by simp



end
