(* ===== verification/KrakenParser.thy ===== *)
theory KrakenParser
  imports CoinbaseParsers
begin

text \<open>
  The Kraken message parser: \<open>kraken_l2_parser.cpp\<close>, \<open>kraken_symbol_mapper.cpp\<close>,
  \<open>kraken_subscription.cpp\<close> and \<open>kraken_book_message.hpp\<close>. Number tokens are kept as text:
  \<open>exact_json\<close> replaces each of them by a tagged array before the message is decoded.
\<close>

section \<open>Number tokens\<close>

text \<open>
  The regular expression \<open>(0|[1-9][0-9]*)(\.[0-9]+)?([eE][+-]?[0-9]+)?\<close> matched against a whole
  text. Each of its parts ends where its character class ends, so the match is unique; it is
  the integer digits, the fraction digits and the signed exponent text, the latter two empty
  where absent.
\<close>

definition split_fraction :: "string \<Rightarrow> (string \<times> string) option" where
  "split_fraction s =
     (if s \<noteq> [] \<and> hd s = CHR ''.'' then
        (let ds = takeWhile is_digit (tl s) in if ds = [] then None else Some (ds, dropWhile is_digit (tl s)))
      else Some ([], s))"

definition is_sign :: "char \<Rightarrow> bool" where
  "is_sign c \<longleftrightarrow> c = CHR ''+'' \<or> c = CHR ''-''"

definition exponent_text :: "string \<Rightarrow> bool" where
  "exponent_text x \<longleftrightarrow>
     (let ds = (if x \<noteq> [] \<and> is_sign (hd x) then tl x else x) in ds \<noteq> [] \<and> list_all is_digit ds)"

definition split_exponent :: "string \<Rightarrow> string option" where
  "split_exponent s =
     (case s of [] \<Rightarrow> Some []
      | c # x \<Rightarrow> if (c = CHR ''e'' \<or> c = CHR ''E'') \<and> exponent_text x then Some x else None)"

definition match_decimal :: "string \<Rightarrow> (string \<times> string \<times> string) option" where
  "match_decimal s =
     (let ip = takeWhile is_digit s in
      if ip = [] \<or> (hd ip = CHR ''0'' \<and> length ip \<noteq> 1) then None
      else case split_fraction (dropWhile is_digit s) of
          None \<Rightarrow> None
        | Some (fp, r) \<Rightarrow> (case split_exponent r of None \<Rightarrow> None | Some x \<Rightarrow> Some (ip, fp, x)))"

text \<open>The same with an optional minus sign, as \<open>exact_json\<close> has it.\<close>

definition json_number :: "string \<Rightarrow> bool" where
  "json_number s \<longleftrightarrow>
     match_decimal (if s \<noteq> [] \<and> hd s = CHR ''-'' then tl s else s) \<noteq> None"

text \<open>\<open>std::stoi\<close> on the exponent text.\<close>

definition exponent_value :: "string \<Rightarrow> int" where
  "exponent_value x =
     (if x \<noteq> [] \<and> hd x = CHR ''-'' then - int (digits_val (tl x))
      else if x \<noteq> [] \<and> hd x = CHR ''+'' then int (digits_val (tl x))
      else int (digits_val x))"

definition stoi :: "string \<Rightarrow> int result" where
  "stoi x =
     (let v = exponent_value x in
      if v < - INT32_MAX - 1 \<or> v > INT32_MAX then Inl (OutOfRange ''stoi'') else Inr v)"

text \<open>
  Without an exponent the token is returned as it is. Otherwise the point is moved in the
  digits of the mantissa.
\<close>

definition place_point :: "string \<Rightarrow> int \<Rightarrow> string" where
  "place_point s position =
     (if position \<le> 0 then ''0.'' @ replicate (nat (- position)) (CHR ''0'') @ s
      else if position \<ge> int (length s) then s @ replicate (nat position - length s) (CHR ''0'')
      else take (nat position) s @ CHR ''.'' # drop (nat position) s)"

definition decimal_token :: "string \<Rightarrow> string result" where
  "decimal_token token =
     (case match_decimal token of
        None \<Rightarrow> Inl (InvalidArgument ''invalid nonnegative decimal'')
      | Some (ip, fp, x) \<Rightarrow>
          if x = [] then Inr token
          else bind_exn (stoi x) (\<lambda>exponent.
            if exponent < - 100 \<or> exponent > 100 then Inl (InvalidArgument ''decimal exponent out of range'')
            else Inr (place_point (ip @ fp) (int (length ip) + exponent))))"

section \<open>Protecting number tokens\<close>

text \<open>
  The end of a string literal whose opening quote has been read: the text up to and including
  the closing quote, and the rest; \<open>None\<close> is an unterminated literal.
\<close>

fun string_end :: "bool \<Rightarrow> string \<Rightarrow> (string \<times> string) option" where
  "string_end escaped [] = None"
| "string_end escaped (v # r) =
     (if \<not> escaped \<and> v = CHR 0x22 then Some ([v], r)
      else map_option (\<lambda>(t, rest). (v # t, rest)) (string_end (\<not> escaped \<and> v = CHR 0x5C) r))"

definition number_char :: "char \<Rightarrow> bool" where
  "number_char c \<longleftrightarrow> is_digit c \<or> c \<in> {CHR ''.'', CHR ''e'', CHR ''E'', CHR ''+'', CHR ''-''}"

definition number_tag :: string where
  "number_tag = ''#number''"

definition tagged_number :: "string \<Rightarrow> json" where
  "tagged_number token = JArray [JString number_tag, JString token]"

lemma string_end_length: "string_end escaped s = Some (t, r) \<Longrightarrow> length r < length s"
  by (induction s arbitrary: escaped t) (fastforce split: if_splits)+

function protect_numbers :: "string \<Rightarrow> string result" where
  "protect_numbers [] = Inr []"
| "protect_numbers (c # r) =
     (if c = CHR 0x22 then
        (case string_end False r of
           None \<Rightarrow> Inl (InvalidArgument ''unterminated JSON string'')
         | Some (t, r') \<Rightarrow>
             bind_exn (json_parse (c # t)) (\<lambda>j.
               if json_eq j (JString number_tag) then Inl (InvalidArgument ''reserved numeric tag'')
               else bind_exn (protect_numbers r') (\<lambda>out. Inr ((c # t) @ out))))
      else if c = CHR ''-'' \<or> is_digit c then
        (let token = c # takeWhile number_char r in
         if \<not> json_number token then Inl (InvalidArgument ''invalid JSON number'')
         else bind_exn (json_dump (\<lambda>_. []) None (tagged_number token)) (\<lambda>text.
           bind_exn (protect_numbers (dropWhile number_char r)) (\<lambda>out. Inr (text @ out))))
      else bind_exn (protect_numbers r) (\<lambda>out. Inr (c # out)))"
  by pat_completeness auto
termination
proof (relation "measure length")
  fix c r t r' p
  assume "string_end False r = Some p" "(t, r') = p"
  then show "(r', c # r) \<in> measure length" using string_end_length [of False r t r'] by simp
qed (auto intro: le_imp_less_Suc length_dropWhile_le)

definition exact_json :: "string \<Rightarrow> json result" where
  "exact_json raw = bind_exn (protect_numbers raw) json_parse"

definition number_of :: "json \<Rightarrow> string result" where
  "number_of j =
     (case j of
        JArray [t, v] \<Rightarrow> (if json_eq t (JString number_tag) \<and> is_string v then get_string v
                         else Inl (InvalidArgument ''expected numeric token''))
      | _ \<Rightarrow> Inl (InvalidArgument ''expected numeric token''))"

section \<open>Symbols and subscription\<close>

definition map_symbol :: "string \<Rightarrow> instrument result" where
  "map_symbol symbol =
     (if symbol \<noteq> ''BTC/USD'' then Inl (InvalidArgument ''unsupported Kraken symbol'') else Inr BTC_USD)"

definition validate_depth :: "nat \<Rightarrow> unit result" where
  "validate_depth d =
     (if d \<noteq> 10 \<and> d \<noteq> 25 \<and> d \<noteq> 100 \<and> d \<noteq> 500 \<and> d \<noteq> 1000
      then Inl (InvalidArgument ''unsupported Kraken depth'') else Inr ())"

definition subscription :: "nat \<Rightarrow> string result" where
  "subscription depth =
     bind_exn (validate_depth depth) (\<lambda>_.
       Inr (''{\"method\":\"subscribe\",\"params\":{\"channel\":\"book\",\"symbol\":[\"BTC/USD\"],\"depth\":'' @
            nat_digits depth @ '',\"snapshot\":true},\"req_id\":1}''))"

section \<open>Messages\<close>

record kraken_level_change =
  kc_side :: side
  kc_price :: price_ticks
  kc_quantity :: quantity_atoms
  kc_price_lexeme :: string
  kc_quantity_lexeme :: string

datatype kraken_book_message_type = KrakenSnapshot | KrakenUpdate

record kraken_book_message =
  km_type :: kraken_book_message_type
  km_instrument :: instrument
  km_changes :: "kraken_level_change list"
  km_checksum :: uint32
  km_exchange_time :: exchange_timestamp
  km_receive_wall_time :: receive_wall_timestamp
  km_receive_monotonic_time :: receive_monotonic_timestamp

datatype parse_kind = BookMessage | Heartbeat | SubscriptionSuccess | SubscriptionFailure | IgnoredKind | ErrorKind

record kraken_parse_result =
  kr_kind :: parse_kind
  kr_book :: "kraken_book_message option"
  kr_error :: string

definition kraken_timestamp :: "string \<Rightarrow> exchange_timestamp result" where
  "kraken_timestamp value = parse_timestamp (InvalidArgument ''invalid Kraken UTC timestamp'') value"

definition get_string_at :: "json \<Rightarrow> string \<Rightarrow> string result" where
  "get_string_at j key = bind_exn (json_at j key) get_string"

text \<open>The reply to the subscription request.\<close>

definition subscription_reply :: "json \<Rightarrow> kraken_parse_result result" where
  "subscription_reply j =
     bind_exn (bind_exn (json_at j ''success'') get_bool) (\<lambda>ok.
       if \<not> ok then
         bind_exn (value_string j ''error'' ''subscription rejected'') (\<lambda>e.
           Inr \<lparr>kr_kind = SubscriptionFailure, kr_book = None, kr_error = e\<rparr>)
       else
         bind_exn (json_at j ''result'') (\<lambda>res.
         bind_exn (json_at res ''channel'') (\<lambda>channel.
           if \<not> json_eq channel (JString ''book'')
           then Inl (InvalidArgument ''unexpected subscription acknowledgement'')
           else bind_exn (json_at res ''symbol'') (\<lambda>symbol.
             if \<not> json_eq symbol (JString ''BTC/USD'')
             then Inl (InvalidArgument ''unexpected subscription acknowledgement'')
             else Inr \<lparr>kr_kind = SubscriptionSuccess, kr_book = None, kr_error = []\<rparr>))))"

text \<open>\<open>std::stoull\<close> on a text of digits, and the range check of the checksum.\<close>

definition checksum_field :: "json \<Rightarrow> uint32 result" where
  "checksum_field j =
     bind_exn (number_of j) (\<lambda>token.
       if \<not> list_all is_digit token then Inl (InvalidArgument ''invalid checksum'')
       else if token = [] then Inl (InvalidArgument ''stoull'')
       else if digits_val token \<ge> 2 ^ 64 then Inl (OutOfRange ''stoull'')
       else if digits_val token > 2 ^ 32 - 1 then Inl (InvalidArgument ''checksum overflow'')
       else Inr (of_nat (digits_val token)))"

definition kraken_level :: "kraken_book_message_type \<Rightarrow> side \<Rightarrow> json \<Rightarrow> kraken_level_change result" where
  "kraken_level type side l =
     bind_exn (bind_exn (json_at l ''price'') number_of) (\<lambda>p.
     bind_exn (bind_exn (json_at l ''qty'') number_of) (\<lambda>q.
     bind_exn (bind_exn (decimal_token p) (\<lambda>d. parse_price d 2)) (\<lambda>price.
     bind_exn (bind_exn (decimal_token q) (\<lambda>d. parse_quantity d 8)) (\<lambda>qty.
       if price = 0 \<or> (type = KrakenSnapshot \<and> qty = 0)
       then Inl (InvalidArgument ''zero snapshot level or price'')
       else Inr \<lparr>kc_side = side, kc_price = price, kc_quantity = qty, kc_price_lexeme = p, kc_quantity_lexeme = q\<rparr>))))"

definition kraken_side :: "kraken_book_message_type \<Rightarrow> json \<Rightarrow> side \<Rightarrow> kraken_level_change list result" where
  "kraken_side type b side =
     (let key = (if side = Bid then ''bids'' else ''asks'') in
      if \<not> json_contains b key \<and> type = KrakenUpdate then Inr []
      else bind_exn (bind_exn (json_at b key) get_ref_array) (traverse (kraken_level type side)))"

definition kraken_book_entry ::
  "receive_wall_timestamp \<Rightarrow> receive_monotonic_timestamp \<Rightarrow> kraken_book_message_type \<Rightarrow> json \<Rightarrow> kraken_book_message result" where
  "kraken_book_entry wall monotonic kind b =
     bind_exn (bind_exn (json_at b ''checksum'') checksum_field) (\<lambda>crc.
     bind_exn (bind_exn (get_string_at b ''symbol'') map_symbol) (\<lambda>instrument.
     bind_exn (bind_exn (get_string_at b ''timestamp'') kraken_timestamp) (\<lambda>time.
     bind_exn (kraken_side kind b Bid) (\<lambda>bids.
     bind_exn (kraken_side kind b Ask) (\<lambda>asks.
       Inr \<lparr>km_type = kind, km_instrument = instrument, km_changes = bids @ asks, km_checksum = crc,
            km_exchange_time = time, km_receive_wall_time = wall, km_receive_monotonic_time = monotonic\<rparr>)))))"

definition sole_book :: "json \<Rightarrow> json result" where
  "sole_book data = (case data of JArray [b] \<Rightarrow> Inr b | _ \<Rightarrow> Inl (InvalidArgument ''expected one book''))"

definition kraken_book :: "receive_wall_timestamp \<Rightarrow> receive_monotonic_timestamp \<Rightarrow> json \<Rightarrow> kraken_book_message result" where
  "kraken_book wall monotonic j =
     bind_exn (get_string_at j ''type'') (\<lambda>type.
       if type \<noteq> ''snapshot'' \<and> type \<noteq> ''update'' then Inl (InvalidArgument ''unknown book type'')
       else bind_exn (json_at j ''data'') (\<lambda>data.
         bind_exn (sole_book data)
           (kraken_book_entry wall monotonic (if type = ''snapshot'' then KrakenSnapshot else KrakenUpdate))))"

definition kraken_message :: "receive_wall_timestamp \<Rightarrow> receive_monotonic_timestamp \<Rightarrow> string \<Rightarrow> kraken_parse_result result" where
  "kraken_message wall monotonic raw =
     bind_exn (exact_json raw) (\<lambda>j.
       if \<not> is_object j then Inl (InvalidArgument ''expected object'')
       else bind_exn (value_string j ''method'' []) (\<lambda>method.
         if method = ''subscribe'' then subscription_reply j
         else bind_exn (get_string_at j ''channel'') (\<lambda>channel.
           if channel = ''heartbeat'' then Inr \<lparr>kr_kind = Heartbeat, kr_book = None, kr_error = []\<rparr>
           else if channel \<noteq> ''book'' then Inr \<lparr>kr_kind = IgnoredKind, kr_book = None, kr_error = []\<rparr>
           else bind_exn (kraken_book wall monotonic j) (\<lambda>m.
             Inr \<lparr>kr_kind = BookMessage, kr_book = Some m, kr_error = []\<rparr>))))"

text \<open>Every exception is turned into an error result.\<close>

definition kraken_parse :: "string \<Rightarrow> receive_wall_timestamp \<Rightarrow> receive_monotonic_timestamp \<Rightarrow> kraken_parse_result" where
  "kraken_parse raw wall monotonic =
     (case kraken_message wall monotonic raw of
        Inr r \<Rightarrow> r
      | Inl e \<Rightarrow> \<lparr>kr_kind = ErrorKind, kr_book = None, kr_error = what e\<rparr>)"

section \<open>The value of a token\<close>

text \<open>The grammar of the token, read declaratively, and the value it denotes: \<open>digits * 10 ^ shift\<close>.\<close>

definition decimal_lexeme :: "string \<Rightarrow> string \<Rightarrow> string \<Rightarrow> string \<Rightarrow> bool" where
  "decimal_lexeme s ip fp x \<longleftrightarrow>
     ip \<noteq> [] \<and> list_all is_digit ip \<and> (hd ip = CHR ''0'' \<longrightarrow> length ip = 1) \<and> list_all is_digit fp \<and>
     (\<exists>mark \<in> {CHR ''e'', CHR ''E''}.
        s = ip @ (if fp = [] then [] else CHR ''.'' # fp) @ (if x = [] then [] else mark # x)) \<and>
     (x = [] \<or> exponent_text x)"

lemma list_all_takeWhile: "list_all P (takeWhile P xs)"
  by (induction xs) simp_all

lemma takeWhile_stop: "list_all P xs \<Longrightarrow> ys = [] \<or> \<not> P (hd ys) \<Longrightarrow> takeWhile P (xs @ ys) = xs \<and> dropWhile P (xs @ ys) = ys"
  by (induction xs) (auto simp: takeWhile_eq_Nil_iff, cases ys, auto)

lemma not_digit_marks [simp]:
  "\<not> is_digit (CHR ''.'')" "\<not> is_digit (CHR ''e'')" "\<not> is_digit (CHR ''E'')" "\<not> is_digit (CHR ''+'')" "\<not> is_digit (CHR ''-'')"
  by (simp_all add: is_digit_def)

lemma split_exponent_iff:
  "split_exponent r = Some x \<longleftrightarrow>
     (\<exists>mark \<in> {CHR ''e'', CHR ''E''}. r = (if x = [] then [] else mark # x)) \<and> (x = [] \<or> exponent_text x)"
proof -
  have "\<not> exponent_text []" by (simp add: exponent_text_def)
  then show ?thesis by (cases r) (auto simp: split_exponent_def split: if_splits)
qed

lemma split_fraction_iff:
  assumes "r' = [] \<or> hd r' = CHR ''e'' \<or> hd r' = CHR ''E''"
  shows "split_fraction r = Some (fp, r') \<longleftrightarrow> list_all is_digit fp \<and> r = (if fp = [] then [] else CHR ''.'' # fp) @ r'"
proof -
  have stop: "r' = [] \<or> \<not> is_digit (hd r')" using assms by auto
  have tw: "takeWhile is_digit (fp @ r') = fp \<and> dropWhile is_digit (fp @ r') = r'" if "list_all is_digit fp"
    using takeWhile_stop [OF that stop] .
  have split: "r0 = takeWhile is_digit r0 @ dropWhile is_digit r0 \<and> list_all is_digit (takeWhile is_digit r0)" for r0
    by (simp add: list_all_takeWhile)
  show ?thesis
  proof (cases "\<exists>r0. r = CHR ''.'' # r0")
    case True
    then obtain r0 where r0: "r = CHR ''.'' # r0" by blast
    have "split_fraction r = Some (fp, r') \<longleftrightarrow> fp \<noteq> [] \<and> takeWhile is_digit r0 = fp \<and> dropWhile is_digit r0 = r'"
      by (auto simp: split_fraction_def r0 Let_def)
    also have "\<dots> \<longleftrightarrow> fp \<noteq> [] \<and> list_all is_digit fp \<and> r0 = fp @ r'" using split [of r0] tw by metis
    finally show ?thesis using assms by (auto simp: r0)
  next
    case False
    then have "split_fraction r = Some ([], r)" by (cases r) (auto simp: split_fraction_def)
    then show ?thesis using False by auto
  qed
qed

lemma match_decimal_iff: "match_decimal s = Some (ip, fp, x) \<longleftrightarrow> decimal_lexeme s ip fp x"
proof
  assume m: "match_decimal s = Some (ip, fp, x)"
  then obtain r where ip: "ip = takeWhile is_digit s" "ip \<noteq> []" "hd ip = CHR ''0'' \<longrightarrow> length ip = 1"
    and fr: "split_fraction (dropWhile is_digit s) = Some (fp, r)" and ex: "split_exponent r = Some x"
    by (auto simp: match_decimal_def Let_def split: if_splits option.splits)
  have "r = [] \<or> hd r = CHR ''e'' \<or> hd r = CHR ''E''" using ex by (cases "x = []") (auto simp: split_exponent_iff)
  from split_fraction_iff [OF this, of "dropWhile is_digit s" fp] fr
  have fp: "list_all is_digit fp" "dropWhile is_digit s = (if fp = [] then [] else CHR ''.'' # fp) @ r" by auto
  have "s = ip @ (if fp = [] then [] else CHR ''.'' # fp) @ r" using fp(2) ip(1) by (metis takeWhile_dropWhile_id)
  moreover have "list_all is_digit ip" by (simp add: ip(1) list_all_takeWhile)
  ultimately show "decimal_lexeme s ip fp x" using ip(2,3) fp(1) ex
    unfolding decimal_lexeme_def split_exponent_iff by blast
next
  assume d: "decimal_lexeme s ip fp x"
  then obtain mark where mark: "mark \<in> {CHR ''e'', CHR ''E''}"
    and s: "s = ip @ (if fp = [] then [] else CHR ''.'' # fp) @ (if x = [] then [] else mark # x)"
    unfolding decimal_lexeme_def by blast
  define r where "r = (if x = [] then [] else mark # x)"
  have r: "r = [] \<or> hd r = CHR ''e'' \<or> hd r = CHR ''E''" and ex: "split_exponent r = Some x"
    using mark d by (auto simp: r_def split_exponent_iff decimal_lexeme_def)
  have stop: "(if fp = [] then [] else CHR ''.'' # fp) @ r = [] \<or> \<not> is_digit (hd ((if fp = [] then [] else CHR ''.'' # fp) @ r))"
    using r by auto
  have tw: "takeWhile is_digit s = ip" "dropWhile is_digit s = (if fp = [] then [] else CHR ''.'' # fp) @ r"
    using takeWhile_stop [of is_digit ip, OF _ stop] d unfolding s r_def [symmetric] decimal_lexeme_def by auto
  have "split_fraction (dropWhile is_digit s) = Some (fp, r)"
    using split_fraction_iff [OF r] tw(2) d by (auto simp: decimal_lexeme_def)
  then show "match_decimal s = Some (ip, fp, x)" using tw(1) ex d by (auto simp: match_decimal_def Let_def decimal_lexeme_def)
qed

text \<open>
  A plain decimal \<open>s\<close> has the value of the digits \<open>ds\<close> with \<open>n\<close> of them after the point,
  multiplied by \<open>10 ^ x\<close>.
\<close>

definition decimal_value :: "string \<Rightarrow> string \<Rightarrow> nat \<Rightarrow> int \<Rightarrow> bool" where
  "decimal_value s ds n x \<longleftrightarrow>
     (\<exists>ip fp. decimal_parts s ip fp \<and> length fp = nat (int n - x) \<and>
        digits_val (ip @ fp) = digits_val ds * 10 ^ nat (x - int n))"

lemma digits_val_zeros_append: "digits_val (replicate k (CHR ''0'') @ ds) = digits_val ds"
  by (simp add: digits_val_append)

lemma digit_zero [simp]: "is_digit (CHR ''0'')" "list_all is_digit (replicate k (CHR ''0''))"
  by (simp_all add: is_digit_def list_all_iff)

lemma place_point_value:
  assumes "ip \<noteq> []" and "list_all is_digit ip" and "list_all is_digit fp"
  shows "decimal_value (place_point (ip @ fp) (int (length ip) + x)) (ip @ fp) (length fp) x"
proof -
  let ?ds = "ip @ fp" and ?p = "int (length ip) + x"
  have ds: "list_all is_digit ?ds" using assms by simp
  consider (left) "?p \<le> 0" | (right) "int (length ?ds) \<le> ?p" "0 < ?p" | (inside) "0 < ?p" "?p < int (length ?ds)" by linarith
  then show ?thesis
  proof cases
    case left
    have "int (length fp) - x = int (nat (- ?p) + length ?ds)" using left by simp
    then show ?thesis unfolding decimal_value_def
      using left assms ds
      by - (rule exI [of _ "''0''"], rule exI [of _ "replicate (nat (- ?p)) (CHR ''0'') @ ?ds"],
        auto simp: place_point_def decimal_parts_def digits_val_zeros_append digits_val_Cons digit_val_def nat_minus_as_int)
  next
    case right
    then have "nat ?p - length ?ds = nat (x - int (length fp))" by simp
    then show ?thesis unfolding decimal_value_def
      using right assms ds
      by - (rule exI [of _ "?ds @ replicate (nat (x - int (length fp))) (CHR ''0'')"], rule exI [of _ "[]"],
        auto simp: place_point_def decimal_parts_def digits_val_append algebra_simps power_add)
  next
    case inside
    then have "nat ?p < length ?ds" "0 < nat ?p" and fp: "length (drop (nat ?p) ?ds) = nat (int (length fp) - x)"
      and x: "nat (x - int (length fp)) = 0" by auto
    have "list_all is_digit (take (nat ?p) ?ds)" "list_all is_digit (drop (nat ?p) ?ds)"
      using ds by (metis append_take_drop_id list_all_append)+
    moreover have "take (nat ?p) ?ds \<noteq> []" "drop (nat ?p) ?ds \<noteq> []" using inside assms(1) by auto
    moreover have "place_point ?ds ?p = take (nat ?p) ?ds @ CHR ''.'' # drop (nat ?p) ?ds"
      using inside by (simp add: place_point_def)
    ultimately show ?thesis unfolding decimal_value_def
      by - (rule exI [of _ "take (nat ?p) ?ds"], rule exI [of _ "drop (nat ?p) ?ds"], intro conjI fp,
        simp_all only: decimal_parts_def append_take_drop_id x power_0 mult_1_right if_False simp_thms)
  qed
qed

lemma decimal_token_value:
  assumes "decimal_lexeme token ip fp x" and "- 100 \<le> exponent_value x" and "exponent_value x \<le> 100"
  shows "\<exists>s. decimal_token token = Inr s \<and> decimal_value s (ip @ fp) (length fp) (exponent_value x)"
proof (cases "x = []")
  case True
  then have "decimal_parts token ip fp" and x: "exponent_value x = 0"
    using assms(1) by (auto simp: decimal_lexeme_def decimal_parts_def exponent_value_def)
  then show ?thesis using assms(1) True by (auto simp: decimal_token_def match_decimal_iff [THEN iffD2] decimal_value_def)
next
  case False
  have "stoi x = Inr (exponent_value x)" using assms(2,3) by (simp add: stoi_def Let_def INT32_MAX_def)
  then have "decimal_token token = Inr (place_point (ip @ fp) (int (length ip) + exponent_value x))"
    using False assms by (simp add: decimal_token_def match_decimal_iff [THEN iffD2])
  then show ?thesis using place_point_value [of ip fp "exponent_value x"] assms(1) by (simp add: decimal_lexeme_def)
qed

end
