(* ===== verification/KrakenExact.thy ===== *)
theory KrakenExact
  imports KrakenParser
begin

text \<open>
  What \<open>exact_json\<close> reads: a message written with number lexemes is decoded into the same
  value with every lexeme, character by character, in a tagged array. Messages are described
  by such values; \<open>lexeme_text\<close> writes them the way an exchange does, compactly and with the
  lexeme in the place of the array.
\<close>

section \<open>Messages with lexemes\<close>

fun tag_of :: "json list \<Rightarrow> string option" where
  "tag_of [JString t, JString token] = (if t = number_tag then Some token else None)"
| "tag_of _ = None"

fun lexeme_text :: "json \<Rightarrow> string result"
and lexeme_elements :: "json list \<Rightarrow> string result"
and lexeme_members :: "(string \<times> json) list \<Rightarrow> string result" where
  "lexeme_text (JObject m) =
     (if m = [] then Inr ''{}'' else bind_exn (lexeme_members m) (\<lambda>out. Inr (CHR ''{'' # out @ ''}'')))"
| "lexeme_text (JArray xs) =
     (case tag_of xs of
        Some token \<Rightarrow> Inr token
      | None \<Rightarrow> if xs = [] then Inr ''[]'' else bind_exn (lexeme_elements xs) (\<lambda>out. Inr (CHR ''['' # out @ '']'')))"
| "lexeme_text (JString s) = bind_exn (dump_escaped s) (\<lambda>out. Inr (CHR 0x22 # out @ [CHR 0x22]))"
| "lexeme_text (JBool b) = Inr (if b then ''true'' else ''false'')"
| "lexeme_text _ = Inr ''null''"
| "lexeme_elements [] = Inr []"
| "lexeme_elements (x # xs) =
     bind_exn (lexeme_text x) (\<lambda>out. bind_exn (lexeme_elements xs) (\<lambda>outs.
       Inr (out @ (if xs = [] then [] else CHR '','' # outs))))"
| "lexeme_members [] = Inr []"
| "lexeme_members ((k, v) # m) =
     bind_exn (dump_escaped k) (\<lambda>key. bind_exn (lexeme_text v) (\<lambda>out. bind_exn (lexeme_members m) (\<lambda>outs.
       Inr (CHR 0x22 # key @ [CHR 0x22, CHR '':''] @ out @ (if m = [] then [] else CHR '','' # outs)))))"

text \<open>All numbers are lexemes of the grammar, and no other string is the tag.\<close>

fun lexeme_ok :: "json \<Rightarrow> bool" where
  "lexeme_ok (JArray xs) = (case tag_of xs of Some token \<Rightarrow> json_number token | None \<Rightarrow> list_all lexeme_ok xs)"
| "lexeme_ok (JObject m) = list_all (\<lambda>kv. fst kv \<noteq> number_tag \<and> lexeme_ok (snd kv)) m"
| "lexeme_ok (JString s) = (s \<noteq> number_tag)"
| "lexeme_ok JNull = True"
| "lexeme_ok (JBool _) = True"
| "lexeme_ok _ = False"

section \<open>The scanner on such texts\<close>

definition ends :: "string \<Rightarrow> bool" where
  "ends r \<longleftrightarrow> r = [] \<or> \<not> number_char (hd r)"

lemma protect_char:
  assumes "c \<noteq> CHR 0x22" and "\<not> number_char c"
  shows "protect_numbers (c # r) = bind_exn (protect_numbers r) (\<lambda>out. Inr (c # out))"
  using assms by (auto simp: number_char_def)

lemma string_end_plain:
  assumes "list_all (\<lambda>c. c \<noteq> CHR 0x22 \<and> c \<noteq> CHR 0x5C) p"
  shows "string_end False (p @ r) = map_option (\<lambda>(t, rest). (p @ t, rest)) (string_end False r)"
  using assms by (induction p) (cases "string_end False r"; auto)+

lemma string_end_escaped:
  "string_end False (CHR 0x5C # c # r) = map_option (\<lambda>(t, rest). (CHR 0x5C # c # t, rest)) (string_end False r)"
  by (cases "string_end False r") auto

lemma hex_char_plain: "d < 16 \<Longrightarrow> hex_char d \<noteq> CHR 0x22 \<and> hex_char d \<noteq> CHR 0x5C"
  by (auto simp: hex_char_def digit_char_def dest!: arg_cong [of _ _ byte])

lemma string_end_codepoint:
  assumes "byte c < 128"
  shows "string_end False (dump_codepoint (byte c) c @ r) =
    map_option (\<lambda>(t, rest). (dump_codepoint (byte c) c @ t, rest)) (string_end False r)"
proof (cases "dump_codepoint (byte c) c = [c]")
  case True
  then have "c \<noteq> CHR 0x22 \<and> c \<noteq> CHR 0x5C" by (auto simp: dump_codepoint_def)
  then show ?thesis unfolding True by (intro string_end_plain) simp
next
  case False
  consider (short) d where "dump_codepoint (byte c) c = [CHR 0x5C, d]"
    | (long) "byte c < 32" "dump_codepoint (byte c) c =
        [CHR 0x5C, CHR ''u'', CHR ''0'', CHR ''0'', hex_char (byte c div 16), hex_char (byte c mod 16)]"
    using False by (auto simp: dump_codepoint_def split: if_splits)
  then show ?thesis
  proof cases
    case short
    then show ?thesis using string_end_escaped by simp
  next
    case long
    let ?t = "[CHR ''0'', CHR ''0'', hex_char (byte c div 16), hex_char (byte c mod 16)]"
    have "byte c div 16 < 16" using long(1) by simp
    then have "list_all (\<lambda>c. c \<noteq> CHR 0x22 \<and> c \<noteq> CHR 0x5C) ?t" using hex_char_plain [of "byte c mod 16"] hex_char_plain by simp
    from string_end_escaped [of "CHR ''u''" "?t @ r"] string_end_plain [OF this, of r] show ?thesis
      by (cases "string_end False r") (auto simp: long(2) simp del: string_end.simps)
  qed
qed

lemma string_end_dumped:
  assumes "dump_escaped_from 0 0 s = Inr out"
  shows "string_end False (out @ CHR 0x22 # rest) = Some (out @ [CHR 0x22], rest)"
  using assms
proof (induction rule: dump_escaped_induct)
  case (ascii c s out)
  then show ?case using string_end_codepoint [OF ascii(1), of "out @ CHR 0x22 # rest"] by simp
next
  case (multi c cs rs s out)
  have "list_all (\<lambda>r. 0x80 \<le> fst r) rs" using multi(2) by (auto simp: utf8_ranges_def split: if_splits)
  with multi(3) have "list_all (\<lambda>c. 128 \<le> byte c) cs"
    by (induction rs cs rule: list_all2_induct) (auto simp: in_range_def)
  then have "list_all (\<lambda>c. c \<noteq> CHR 0x22 \<and> c \<noteq> CHR 0x5C) (c # cs)" using multi(1) by (auto simp: list_all_iff)
  from string_end_plain [OF this, of "out @ CHR 0x22 # rest"] multi(4) show ?case by simp
qed simp

lemma protect_string:
  assumes "dump_escaped s = Inr e" and "s \<noteq> number_tag"
  shows "protect_numbers (CHR 0x22 # e @ CHR 0x22 # r) =
    bind_exn (protect_numbers r) (\<lambda>out. Inr (CHR 0x22 # e @ CHR 0x22 # out))"
proof -
  have "json_dump (\<lambda>_. []) None (JString s) = Inr (CHR 0x22 # e @ [CHR 0x22])" using assms(1) by simp
  from json_parse_dumped [OF this] have "json_parse (CHR 0x22 # e @ [CHR 0x22]) = Inr (JString s)" by simp
  moreover have "string_end False (e @ CHR 0x22 # r) = Some (e @ [CHR 0x22], r)"
    using string_end_dumped assms(1) by (simp add: dump_escaped_def UTF8_ACCEPT_def)
  ultimately show ?thesis using assms(2) by simp
qed

lemma exponent_text_chars: "exponent_text x \<Longrightarrow> list_all number_char x"
  by (cases x) (auto simp: exponent_text_def Let_def is_sign_def number_char_def list_all_iff split: if_splits)

lemma digits_number_chars: "list_all is_digit ds \<Longrightarrow> list_all number_char ds"
  by (auto simp: number_char_def list_all_iff)

lemma decimal_lexeme_chars: "decimal_lexeme s ip fp x \<Longrightarrow> list_all number_char s \<and> s \<noteq> [] \<and> is_digit (hd s)"
  using digits_number_chars [of ip] digits_number_chars [of fp] exponent_text_chars [of x]
  by (cases ip) (auto simp: decimal_lexeme_def number_char_def)

lemma json_number_chars:
  assumes "json_number token"
  shows "list_all number_char token" and "token \<noteq> []" and "hd token = CHR ''-'' \<or> is_digit (hd token)"
proof -
  let ?s = "if token \<noteq> [] \<and> hd token = CHR ''-'' then tl token else token"
  obtain ip fp x where "decimal_lexeme ?s ip fp x"
    using assms unfolding json_number_def by (metis match_decimal_iff not_None_eq prod_cases3)
  from decimal_lexeme_chars [OF this]
  show "list_all number_char token" "token \<noteq> []" "hd token = CHR ''-'' \<or> is_digit (hd token)"
    by (cases token; auto simp: number_char_def split: if_splits)+
qed

lemma number_char_ascii: "list_all number_char t \<Longrightarrow> json_ascii (tagged_number t)"
  by (auto simp: tagged_number_def number_tag_def number_char_def is_digit_def list_all_iff)

lemma protect_number:
  assumes "json_number token" and "ends r" and "json_dump (\<lambda>_. []) None (tagged_number token) = Inr text"
  shows "protect_numbers (token @ r) = bind_exn (protect_numbers r) (\<lambda>out. Inr (text @ out))"
proof -
  obtain c t where token: "token = c # t" and c: "c = CHR ''-'' \<or> is_digit c" and t: "list_all number_char t"
    using json_number_chars [OF assms(1)] by (cases token) auto
  have "c \<noteq> CHR 0x22" using c by (auto simp: is_digit_def)
  moreover have "takeWhile number_char (t @ r) = t \<and> dropWhile number_char (t @ r) = r"
    by (rule takeWhile_stop [OF t]) (use assms(2) in \<open>simp add: ends_def\<close>)
  ultimately show ?thesis using assms(1,3) c by (simp add: token Let_def)
qed

lemma protect_word:
  assumes "list_all (\<lambda>c. c \<noteq> CHR 0x22 \<and> c \<noteq> CHR ''-'' \<and> \<not> is_digit c) w"
  shows "protect_numbers (w @ r) = bind_exn (protect_numbers r) (\<lambda>out. Inr (w @ out))"
  using assms by (induction w) (auto simp: bind_exn_assoc, cases "protect_numbers r", auto)

declare protect_numbers.simps(2) [simp del]

lemma structural_chars [simp]:
  "\<not> number_char (CHR ''{'')" "\<not> number_char (CHR ''}'')" "\<not> number_char (CHR ''['')" "\<not> number_char (CHR '']'')"
  "\<not> number_char (CHR '','')" "\<not> number_char (CHR '':'')"
  by (simp_all add: number_char_def is_digit_def)

lemmas protect_structural [simp] =
  protect_char [of "CHR ''{''", simplified] protect_char [of "CHR ''}''", simplified]
  protect_char [of "CHR ''[''", simplified] protect_char [of "CHR '']''", simplified]
  protect_char [of "CHR '',''", simplified] protect_char [of "CHR '':''", simplified]

lemma protect_words:
  "protect_numbers (CHR ''t'' # CHR ''r'' # CHR ''u'' # CHR ''e'' # r) =
     bind_exn (protect_numbers r) (\<lambda>out. Inr (CHR ''t'' # CHR ''r'' # CHR ''u'' # CHR ''e'' # out))"
  "protect_numbers (CHR ''f'' # CHR ''a'' # CHR ''l'' # CHR ''s'' # CHR ''e'' # r) =
     bind_exn (protect_numbers r) (\<lambda>out. Inr (CHR ''f'' # CHR ''a'' # CHR ''l'' # CHR ''s'' # CHR ''e'' # out))"
  "protect_numbers (CHR ''n'' # CHR ''u'' # CHR ''l'' # CHR ''l'' # r) =
     bind_exn (protect_numbers r) (\<lambda>out. Inr (CHR ''n'' # CHR ''u'' # CHR ''l'' # CHR ''l'' # out))"
  using protect_word [of "''true''" r] protect_word [of "''false''" r] protect_word [of "''null''" r]
  by (simp_all add: is_digit_def)

lemma bind_exn_Inr: "bind_exn m Inr = m"
  by (cases m) simp_all

lemma tag_of_Some: "tag_of xs = Some token \<longleftrightarrow> JArray xs = tagged_number token"
  by (cases xs rule: tag_of.cases) (auto simp: tagged_number_def)

lemma protect_lexemes:
  "lexeme_text j = Inr raw \<Longrightarrow> lexeme_ok j \<Longrightarrow> ends rest \<Longrightarrow> json_dump (\<lambda>_. []) None j = Inr out \<Longrightarrow>
     protect_numbers (raw @ rest) = bind_exn (protect_numbers rest) (\<lambda>o'. Inr (out @ o'))"
  "lexeme_elements xs = Inr raw \<Longrightarrow> list_all lexeme_ok xs \<Longrightarrow> ends rest \<Longrightarrow> dump_elements (\<lambda>_. []) None xs = Inr out \<Longrightarrow>
     protect_numbers (raw @ rest) = bind_exn (protect_numbers rest) (\<lambda>o'. Inr (out @ o'))"
  "lexeme_members m = Inr raw \<Longrightarrow> list_all (\<lambda>kv. fst kv \<noteq> number_tag \<and> lexeme_ok (snd kv)) m \<Longrightarrow> ends rest \<Longrightarrow>
     dump_members (\<lambda>_. []) None m = Inr out \<Longrightarrow>
     protect_numbers (raw @ rest) = bind_exn (protect_numbers rest) (\<lambda>o'. Inr (out @ o'))"
proof (induction j and xs and m arbitrary: raw rest out and raw rest out and raw rest out
    rule: lexeme_text_lexeme_elements_lexeme_members.induct)
  case (1 m)
  show ?case
  proof (cases "m = []")
    case True
    then have "raw = ''{}''" "out = ''{}''" using 1 by simp_all
    then show ?thesis by (simp add: bind_exn_assoc)
  next
    case False
    then obtain r o1 where r: "lexeme_members m = Inr r" "raw = CHR ''{'' # r @ ''}''"
      and o1: "dump_members (\<lambda>_. []) None m = Inr o1" "out = CHR ''{'' # o1 @ ''}''"
      using 1(2,5) by (auto simp: bind_exn_eq_Inr deeper_def line_start_def)
    have "protect_numbers (r @ CHR ''}'' # rest) = bind_exn (protect_numbers (CHR ''}'' # rest)) (\<lambda>o'. Inr (o1 @ o'))"
      using 1(1) [OF False r(1) _ _ o1(1), of "CHR ''}'' # rest"] 1(3) by (simp add: ends_def)
    then show ?thesis by (simp add: r(2) o1(2)) (cases "protect_numbers rest", simp_all)
  qed
next
  case (2 xs)
  show ?case
  proof (cases "tag_of xs")
    case (Some token)
    then have "raw = token" "json_number token" using 2(2,3) by simp_all
    moreover have "json_dump (\<lambda>_. []) None (tagged_number token) = Inr out"
      using 2(5) Some unfolding tag_of_Some by metis
    ultimately show ?thesis using protect_number 2(4) by simp
  next
    case None
    show ?thesis
    proof (cases "xs = []")
      case True
      then have "raw = ''[]''" "out = ''[]''" using 2 by simp_all
      then show ?thesis by (simp add: bind_exn_assoc)
    next
      case False
      then obtain r o1 where r: "lexeme_elements xs = Inr r" "raw = CHR ''['' # r @ '']''"
        and o1: "dump_elements (\<lambda>_. []) None xs = Inr o1" "out = CHR ''['' # o1 @ '']''"
        using 2(2,5) None by (auto simp: bind_exn_eq_Inr deeper_def line_start_def)
      have "protect_numbers (r @ CHR '']'' # rest) = bind_exn (protect_numbers (CHR '']'' # rest)) (\<lambda>o'. Inr (o1 @ o'))"
        using 2(1) [OF None False r(1) _ _ o1(1), of "CHR '']'' # rest"] 2(3) None by (simp add: ends_def)
      then show ?thesis by (simp add: r(2) o1(2)) (cases "protect_numbers rest", simp_all)
    qed
  qed
next
  case (7 x xs)
  obtain r1 r2 o1 o2 where r: "lexeme_text x = Inr r1" "lexeme_elements xs = Inr r2"
    "raw = r1 @ (if xs = [] then [] else CHR '','' # r2)"
    and o: "json_dump (\<lambda>_. []) None x = Inr o1" "dump_elements (\<lambda>_. []) None xs = Inr o2"
    "out = o1 @ (if xs = [] then [] else CHR '','' # o2)"
    using 7(3,6) by (auto simp: bind_exn_eq_Inr line_start_def)
  show ?case
  proof (cases "xs = []")
    case True
    then show ?thesis using 7(1) [OF r(1) _ 7(5) o(1)] 7(4) r(3) o(3) by simp
  next
    case False
    have 1: "protect_numbers (r1 @ CHR '','' # r2 @ rest) = bind_exn (protect_numbers (CHR '','' # r2 @ rest)) (\<lambda>o'. Inr (o1 @ o'))"
      using 7(1) [OF r(1) _ _ o(1), of "CHR '','' # r2 @ rest"] 7(4) by (simp add: ends_def)
    have 2: "protect_numbers (r2 @ rest) = bind_exn (protect_numbers rest) (\<lambda>o'. Inr (o2 @ o'))"
      using 7(2) [OF r(1,2) _ 7(5) o(2)] 7(4) by simp
    show ?thesis using 1 2 False by (simp add: r(3) o(3)) (cases "protect_numbers rest", simp_all)
  qed
next
  case (9 k v m)
  obtain key r1 r2 o1 o2 where k: "dump_escaped k = Inr key"
    and r: "lexeme_text v = Inr r1" "lexeme_members m = Inr r2"
    "raw = CHR 0x22 # key @ [CHR 0x22, CHR '':''] @ r1 @ (if m = [] then [] else CHR '','' # r2)"
    and o: "json_dump (\<lambda>_. []) None v = Inr o1" "dump_members (\<lambda>_. []) None m = Inr o2"
    "out = CHR 0x22 # key @ [CHR 0x22, CHR '':''] @ o1 @ (if m = [] then [] else CHR '','' # o2)"
    using 9(3,6) by (auto simp: bind_exn_eq_Inr line_start_def colon_def)
  have ok: "k \<noteq> number_tag" "lexeme_ok v" "list_all (\<lambda>kv. fst kv \<noteq> number_tag \<and> lexeme_ok (snd kv)) m" using 9(4) by simp_all
  note key = protect_string [OF k ok(1)]
  show ?case
  proof (cases "m = []")
    case True
    have "protect_numbers (r1 @ rest) = bind_exn (protect_numbers rest) (\<lambda>o'. Inr (o1 @ o'))"
      using 9(1) [OF k r(1) ok(2) 9(5) o(1)] .
    then show ?thesis using True key [of "CHR '':'' # r1 @ rest"]
      by (simp add: r(3) o(3)) (cases "protect_numbers rest", simp_all)
  next
    case False
    have 1: "protect_numbers (r1 @ CHR '','' # r2 @ rest) = bind_exn (protect_numbers (CHR '','' # r2 @ rest)) (\<lambda>o'. Inr (o1 @ o'))"
      using 9(1) [OF k r(1) ok(2) _ o(1), of "CHR '','' # r2 @ rest"] by (simp add: ends_def)
    have 2: "protect_numbers (r2 @ rest) = bind_exn (protect_numbers rest) (\<lambda>o'. Inr (o2 @ o'))"
      using 9(2) [OF k r(1,2) ok(3) 9(5) o(2)] .
    show ?thesis using 1 2 False key [of "CHR '':'' # r1 @ CHR '','' # r2 @ rest"]
      by (simp add: r(3) o(3)) (cases "protect_numbers rest", simp_all)
  qed
next
  case (3 s)
  then obtain e where "dump_escaped s = Inr e" "raw = CHR 0x22 # e @ [CHR 0x22]" "out = raw" by (auto simp: bind_exn_eq_Inr)
  then show ?case using protect_string [of s e rest] 3(2) by simp
qed (auto simp: protect_words bind_exn_Inr)

lemma lexeme_ok_reread: "lexeme_ok j \<Longrightarrow> float_free j \<and> reread j = j"
proof (induction j rule: lexeme_ok.induct)
  case (1 xs)
  show ?case
  proof (cases "tag_of xs")
    case (Some token)
    then show ?thesis by (auto simp: tag_of_Some tagged_number_def)
  next
    case None
    then show ?thesis using 1 by (auto simp: list_all_iff intro!: map_idI)
  qed
next
  case (2 m)
  then show ?case by (fastforce simp: list_all_iff intro!: map_idI)
qed simp_all

lemma exact_json_lexemes:
  assumes "lexeme_ok j" and "json_wf j" and "json_ascii j" and "lexeme_text j = Inr raw"
  shows "exact_json raw = Inr j"
proof -
  obtain out where out: "json_dump (\<lambda>_. []) None j = Inr out" using json_dump_ascii(1) [OF assms(3)] by blast
  have "protect_numbers raw = Inr out"
    using protect_lexemes(1) [OF assms(4,1) _ out, of "[]"] by (simp add: ends_def)
  moreover have "json_parse out = Inr j"
    using json_parse_dumped [OF out assms(2)] lexeme_ok_reread [OF assms(1)] by simp
  ultimately show ?thesis by (simp add: exact_json_def)
qed

lemma lexeme_text_ascii:
  "json_ascii j \<Longrightarrow> \<exists>raw. lexeme_text j = Inr raw"
  "list_all json_ascii xs \<Longrightarrow> \<exists>raw. lexeme_elements xs = Inr raw"
  "list_all (\<lambda>kv. list_all (\<lambda>c. byte c < 128) (fst kv) \<and> json_ascii (snd kv)) m \<Longrightarrow> \<exists>raw. lexeme_members m = Inr raw"
proof (induction j and xs and m rule: lexeme_text_lexeme_elements_lexeme_members.induct)
  case (3 s)
  then show ?case using dump_escaped_utf8 [of s] utf8_ascii by auto
next
  case (7 x xs)
  then obtain out where "lexeme_text x = Inr out" by auto
  with 7 show ?case by auto
next
  case (9 k v m)
  then obtain key where k: "dump_escaped k = Inr key" using dump_escaped_utf8 [of k] utf8_ascii by auto
  with 9 obtain out where v: "lexeme_text v = Inr out" by auto
  with 9(2) [OF k v] 9(3) obtain outs where "lexeme_members m = Inr outs" by auto
  then show ?case using k v by simp
qed (auto split: option.split)

section \<open>Properties\<close>



text \<open>C27. A decimal token is accepted exactly when it matches the documented grammar with an exponent
  between -100 and 100, and the plain decimal it is expanded to has exactly the value of the
  token and keeps its decimal scale; every other token is refused with an exception the parser
  reports.\<close>

theorem decimal_token_exact:
  "case decimal_token token of
     Inr s \<Rightarrow> \<exists>ip fp x. decimal_lexeme token ip fp x \<and> \<bar>exponent_value x\<bar> \<le> 100 \<and>
       decimal_value s (ip @ fp) (length fp) (exponent_value x)
   | Inl e \<Rightarrow> caught e \<and> (\<nexists>ip fp x. decimal_lexeme token ip fp x \<and> \<bar>exponent_value x\<bar> \<le> 100)"
proof (cases "match_decimal token")
  case None
  then have "\<nexists>ip fp x. decimal_lexeme token ip fp x" by (metis match_decimal_iff option.simps(3))
  then show ?thesis using None by (simp add: decimal_token_def)
next
  case (Some t)
  obtain ip fp x where t: "t = (ip, fp, x)" by (cases t) auto
  have lex: "decimal_lexeme token ip fp x" using Some t by (simp add: match_decimal_iff [symmetric])
  have unique: "ip' = ip \<and> fp' = fp \<and> x' = x" if "decimal_lexeme token ip' fp' x'" for ip' fp' x'
    using that Some t by (simp add: match_decimal_iff [symmetric])
  show ?thesis
  proof (cases "\<bar>exponent_value x\<bar> \<le> 100")
    case True
    then have "- 100 \<le> exponent_value x" "exponent_value x \<le> 100" by linarith+
    from decimal_token_value [OF lex this] obtain s where "decimal_token token = Inr s"
      "decimal_value s (ip @ fp) (length fp) (exponent_value x)" by blast
    then show ?thesis using lex True by auto
  next
    case False
    then have "x \<noteq> []" by (auto simp: exponent_value_def)
    then have "\<exists>e. decimal_token token = Inl e \<and> caught e"
      using False Some t by (auto simp: decimal_token_def stoi_def Let_def caught_def)
    then show ?thesis using unique False by auto
  qed
qed

end
