(* ===== verification/KrakenBook.thy ===== *)
theory KrakenBook
  imports KrakenExact OrderBook
begin

text \<open>
  The checksummed Kraken book: \<open>kraken_checksum.cpp\<close> and \<open>kraken_book_processor.cpp\<close>. The
  CRC-32 of the Boost library is an argument \<open>crc\<close>: the checksum of the bytes processed.
\<close>

section \<open>The checksum book\<close>

type_synonym kraken_levels = "(price_ticks, kraken_level_change) omap"

record checksum_book =
  cb_bids :: kraken_levels
  cb_asks :: kraken_levels

definition KrakenChecksumBook :: checksum_book where
  "KrakenChecksumBook = \<lparr>cb_bids = [], cb_asks = []\<rparr>"

text \<open>The decimal digits of a token without point and leading zeros.\<close>

definition checksum_digits :: "string \<Rightarrow> string result" where
  "checksum_digits token =
     bind_exn (decimal_token token) (\<lambda>s.
       Inr (dropWhile (\<lambda>c. c = CHR ''0'') (filter (\<lambda>c. c \<noteq> CHR ''.'') s)))"

definition lexeme_price :: "string \<Rightarrow> price_ticks result" where
  "lexeme_price s = bind_exn (decimal_token s) (\<lambda>d. parse_price d 2)"

definition lexeme_quantity :: "string \<Rightarrow> quantity_atoms result" where
  "lexeme_quantity s = bind_exn (decimal_token s) (\<lambda>d. parse_quantity d 8)"

definition update_levels :: "(price_ticks \<Rightarrow> price_ticks \<Rightarrow> bool) \<Rightarrow> kraken_level_change \<Rightarrow> kraken_levels \<Rightarrow> kraken_levels" where
  "update_levels lt c levels =
     (if kc_quantity c = 0 then om_erase (kc_price c) levels else om_insert_or_assign lt (kc_price c) c levels)"

definition checksum_apply :: "kraken_level_change \<Rightarrow> checksum_book \<Rightarrow> checksum_book result" where
  "checksum_apply c b =
     (if kc_price c = 0 then Inl (InvalidArgument ''inconsistent Kraken level'')
      else bind_exn (lexeme_price (kc_price_lexeme c)) (\<lambda>p.
        if p \<noteq> kc_price c then Inl (InvalidArgument ''inconsistent Kraken level'')
        else bind_exn (lexeme_quantity (kc_quantity_lexeme c)) (\<lambda>q.
          if q \<noteq> kc_quantity c then Inl (InvalidArgument ''inconsistent Kraken level'')
          else Inr (if kc_side c = Bid then b\<lparr>cb_bids := update_levels bid_lt c (cb_bids b)\<rparr>
                    else b\<lparr>cb_asks := update_levels ask_lt c (cb_asks b)\<rparr>))))"

fun checksum_apply_all :: "kraken_level_change list \<Rightarrow> checksum_book \<Rightarrow> checksum_book result" where
  "checksum_apply_all [] b = Inr b"
| "checksum_apply_all (c # cs) b = bind_exn (checksum_apply c b) (checksum_apply_all cs)"

text \<open>The loop of \<open>replace_snapshot\<close>; \<open>seen\<close> are the sides and prices already read.\<close>

fun snapshot_loop :: "kraken_level_change list \<Rightarrow> (side \<times> price_ticks) list \<Rightarrow> checksum_book \<Rightarrow> checksum_book result" where
  "snapshot_loop [] seen b = Inr b"
| "snapshot_loop (c # cs) seen b =
     (if kc_quantity c = 0 \<or> (kc_side c, kc_price c) \<in> set seen
      then Inl (InvalidArgument ''invalid snapshot level'')
      else bind_exn (checksum_apply c b) (snapshot_loop cs ((kc_side c, kc_price c) # seen)))"

definition replace_snapshot :: "kraken_level_change list \<Rightarrow> checksum_book result" where
  "replace_snapshot changes = snapshot_loop changes [] KrakenChecksumBook"

text \<open>Erasing the last level until the depth is reached.\<close>

function trim_levels :: "nat \<Rightarrow> kraken_levels \<Rightarrow> kraken_levels" where
  "trim_levels depth levels = (if length levels > depth then trim_levels depth (butlast levels) else levels)"
  by auto
termination by (relation "measure (\<lambda>(_, l). length l)") auto

declare trim_levels.simps [simp del]

definition truncate_book :: "nat \<Rightarrow> checksum_book \<Rightarrow> checksum_book" where
  "truncate_book depth b = \<lparr>cb_bids = trim_levels depth (cb_bids b), cb_asks = trim_levels depth (cb_asks b)\<rparr>"

definition checksum_bytes :: "kraken_levels \<Rightarrow> string result" where
  "checksum_bytes levels =
     bind_exn (traverse (\<lambda>(p, c).
         bind_exn (checksum_digits (kc_price_lexeme c)) (\<lambda>ps.
         bind_exn (checksum_digits (kc_quantity_lexeme c)) (\<lambda>qs. Inr (ps @ qs)))) (take 10 levels))
       (\<lambda>ss. Inr (concat ss))"

definition book_checksum :: "(string \<Rightarrow> uint32) \<Rightarrow> checksum_book \<Rightarrow> uint32 result" where
  "book_checksum crc b =
     bind_exn (checksum_bytes (cb_asks b)) (\<lambda>asks.
     bind_exn (checksum_bytes (cb_bids b)) (\<lambda>bids. Inr (crc (asks @ bids))))"

definition side_book_levels :: "kraken_levels \<Rightarrow> book_level list" where
  "side_book_levels levels =
     map (\<lambda>(p, c). \<lparr>lv_side = kc_side c, lv_price = p, lv_quantity = kc_quantity c\<rparr>) levels"

definition checksum_levels :: "checksum_book \<Rightarrow> book_level list" where
  "checksum_levels b = side_book_levels (cb_bids b) @ side_book_levels (cb_asks b)"

section \<open>The book processor\<close>

record kraken_processor =
  kp_outcome :: string
  kp_error :: string
  kp_last_message :: "receive_monotonic_timestamp option"
  kp_last_heartbeat :: "receive_monotonic_timestamp option"
  kp_depth :: nat
  kp_checksum_book :: checksum_book
  kp_book :: order_book
  kp_metrics :: "(string, uint64) omap"
  kp_checksum :: uint32
  kp_had_snapshot :: bool
  kp_previous_time :: "receive_monotonic_timestamp option"

text \<open>The metrics object: counters by name.\<close>

definition set_metric :: "string \<Rightarrow> uint64 \<Rightarrow> kraken_processor \<Rightarrow> kraken_processor" where
  "set_metric key v k = k\<lparr>kp_metrics := om_insert_or_assign str_less key v (kp_metrics k)\<rparr>"

definition metric :: "string \<Rightarrow> kraken_processor \<Rightarrow> uint64" where
  "metric key k = (case om_find key (kp_metrics k) of Some v \<Rightarrow> v | None \<Rightarrow> 0)"

definition inc :: "string \<Rightarrow> kraken_processor \<Rightarrow> kraken_processor" where
  "inc key k = set_metric key (metric key k + 1) k"

definition metric_names :: "string list" where
  "metric_names = [''messages'', ''snapshots'', ''updates'', ''heartbeats'', ''subscription_errors'',
     ''parse_errors'', ''checksum_validations'', ''checksum_failures'', ''reconnects'',
     ''recovery_snapshots'', ''valid_time'', ''invalid_time'', ''stale_time'']"

definition KrakenBookProcessor :: "nat \<Rightarrow> kraken_processor result" where
  "KrakenBookProcessor depth =
     bind_exn (validate_depth depth) (\<lambda>_.
       Inr (fold (\<lambda>key. set_metric (''kraken_'' @ key) 0) metric_names
         \<lparr>kp_outcome = [], kp_error = [], kp_last_message = None, kp_last_heartbeat = None, kp_depth = depth,
          kp_checksum_book = KrakenChecksumBook, kp_book = OrderBook Kraken BTC_USD, kp_metrics = [],
          kp_checksum = 0, kp_had_snapshot = False, kp_previous_time = None\<rparr>))"

definition advance :: "receive_monotonic_timestamp \<Rightarrow> kraken_processor \<Rightarrow> kraken_processor" where
  "advance now k =
     (let key = (if ob_state (kp_book k) = Valid then ''kraken_valid_time''
                 else if ob_state (kp_book k) = Stale then ''kraken_stale_time'' else ''kraken_invalid_time'');
          k' = (case kp_previous_time k of
                  None \<Rightarrow> k
                | Some t \<Rightarrow> if now \<ge> t then set_metric key (metric key k + word_of_int (now - t)) k else k)
      in k'\<lparr>kp_previous_time := Some now\<rparr>)"

definition kraken_reset_connection :: "kraken_processor \<Rightarrow> kraken_processor" where
  "kraken_reset_connection k =
     (inc ''kraken_reconnects'' k)\<lparr>kp_book := mark_initializing (kp_book k), kp_last_message := None, kp_last_heartbeat := None\<rparr>"

definition kraken_stale :: "kraken_processor \<Rightarrow> kraken_processor" where
  "kraken_stale k = k\<lparr>kp_book := mark_stale (kp_book k)\<rparr>"

definition kraken_invalidate :: "kraken_processor \<Rightarrow> kraken_processor" where
  "kraken_invalidate k = k\<lparr>kp_book := invalidate (kp_book k)\<rparr>"

definition kraken_disconnect :: "kraken_processor \<Rightarrow> kraken_processor" where
  "kraken_disconnect k = k\<lparr>kp_book := mark_disconnected (kp_book k)\<rparr>"

text \<open>The checksum book after the message, before the checksum is compared.\<close>

definition next_checksum_book :: "nat \<Rightarrow> kraken_book_message \<Rightarrow> checksum_book \<Rightarrow> checksum_book result" where
  "next_checksum_book depth m b =
     bind_exn (if km_type m = KrakenSnapshot then replace_snapshot (km_changes m) else checksum_apply_all (km_changes m) b)
       (\<lambda>nxt. Inr (truncate_book depth nxt))"

definition crossed :: "order_book \<Rightarrow> bool" where
  "crossed b \<longleftrightarrow> has_two_sided_market b \<and>
     (case (best_bid b, best_ask b) of (Some bid, Some ask) \<Rightarrow> lv_price bid \<ge> lv_price ask | _ \<Rightarrow> False)"

text \<open>
  The candidate book and the tail of the \<open>try\<close> block once the checksum matches: the candidate
  is installed, or an exception leaves the processor as it was.
\<close>

definition candidate_book :: "kraken_book_message \<Rightarrow> checksum_book \<Rightarrow> order_book result" where
  "candidate_book m nxt =
     (case apply_snapshot \<lparr>sn_venue = Kraken, sn_instrument = km_instrument m, sn_levels = checksum_levels nxt,
             sn_exchange_time = km_exchange_time m, sn_receive_wall_time = km_receive_wall_time m,
             sn_receive_monotonic_time = km_receive_monotonic_time m, sn_sequence = None\<rparr>
             (OrderBook Kraken (km_instrument m)) of
        (False, _) \<Rightarrow> Inl (InvalidArgument ''invalid canonical snapshot'')
      | (True, candidate) \<Rightarrow>
          if crossed candidate then Inl (InvalidArgument ''crossed Kraken book'') else Inr candidate)"

definition apply_error :: "exn \<Rightarrow> kraken_processor \<Rightarrow> bool \<times> kraken_processor" where
  "apply_error e k = (False, k\<lparr>kp_error := what e, kp_outcome := ''ApplyError'', kp_book := invalidate (kp_book k)\<rparr>)"

definition kraken_apply :: "(string \<Rightarrow> uint32) \<Rightarrow> kraken_book_message \<Rightarrow> kraken_processor \<Rightarrow> bool \<times> kraken_processor" where
  "kraken_apply crc m k =
     (let snapshot = (km_type m = KrakenSnapshot);
          k = inc (if snapshot then ''kraken_snapshots'' else ''kraken_updates'') k in
      if \<not> snapshot \<and> ob_state (kp_book k) \<noteq> Valid then (False, k\<lparr>kp_outcome := ''AwaitingSnapshot''\<rparr>)
      else if km_instrument m \<noteq> BTC_USD then apply_error (InvalidArgument ''wrong instrument'') k
      else case bind_exn (next_checksum_book (kp_depth k) m (kp_checksum_book k)) (\<lambda>nxt.
             bind_exn (book_checksum crc nxt) (\<lambda>c. Inr (nxt, c))) of
          Inl e \<Rightarrow> apply_error e k
        | Inr (nxt, c) \<Rightarrow>
            let k = inc ''kraken_checksum_validations'' k in
            if c \<noteq> km_checksum m
            then (False, (inc ''kraken_checksum_failures'' k)\<lparr>kp_outcome := ''ChecksumMismatch'',
                    kp_error := ''Kraken checksum mismatch'', kp_book := invalidate (kp_book k)\<rparr>)
            else case candidate_book m nxt of
                Inl e \<Rightarrow> apply_error e k
              | Inr candidate \<Rightarrow>
                  (True, (if snapshot \<and> kp_had_snapshot k then inc ''kraken_recovery_snapshots'' k else k)
                     \<lparr>kp_had_snapshot := True, kp_book := candidate, kp_checksum_book := nxt, kp_checksum := c,
                      kp_outcome := (if snapshot then ''Snapshot'' else ''Update'')\<rparr>))"

definition kraken_process ::
  "(string \<Rightarrow> uint32) \<Rightarrow> string \<Rightarrow> receive_wall_timestamp \<Rightarrow> receive_monotonic_timestamp \<Rightarrow> kraken_processor \<Rightarrow>
   bool \<times> kraken_processor" where
  "kraken_process crc raw wall monotonic k =
     (let k = (inc ''kraken_messages'' ((advance monotonic k)\<lparr>kp_last_message := Some monotonic\<rparr>))\<lparr>kp_error := []\<rparr>;
          r = kraken_parse raw wall monotonic in
      case kr_kind r of
        Heartbeat \<Rightarrow> (True, (inc ''kraken_heartbeats'' k)\<lparr>kp_last_heartbeat := Some monotonic, kp_outcome := ''Heartbeat''\<rparr>)
      | SubscriptionSuccess \<Rightarrow> (True, k\<lparr>kp_outcome := ''SubscriptionSuccess''\<rparr>)
      | IgnoredKind \<Rightarrow> (True, k\<lparr>kp_outcome := ''Ignored''\<rparr>)
      | SubscriptionFailure \<Rightarrow>
          (False, (inc ''kraken_subscription_errors'' k)\<lparr>kp_outcome := ''SubscriptionFailure'', kp_error := kr_error r,
             kp_book := invalidate (kp_book k)\<rparr>)
      | ErrorKind \<Rightarrow>
          (False, (inc ''kraken_parse_errors'' k)\<lparr>kp_outcome := ''ParseError'', kp_error := kr_error r,
             kp_book := invalidate (kp_book k)\<rparr>)
      | BookMessage \<Rightarrow> kraken_apply crc (the (kr_book r)) k)"

section \<open>The checksum book's invariant\<close>

lemma trim_levels_take: "trim_levels depth levels = take depth levels"
proof (induction "length levels - depth" arbitrary: levels)
  case 0
  then show ?case by (simp add: trim_levels.simps)
next
  case (Suc n)
  then have "trim_levels depth (butlast levels) = take depth (butlast levels)" by simp
  then show ?case using Suc(2) by (simp add: trim_levels.simps [of depth levels] take_butlast)
qed

definition level_ok :: "side \<Rightarrow> price_ticks \<times> kraken_level_change \<Rightarrow> bool" where
  "level_ok s pc \<longleftrightarrow> (case pc of (p, c) \<Rightarrow>
     kc_side c = s \<and> kc_price c = p \<and> 0 < p \<and> 0 < kc_quantity c \<and>
     lexeme_price (kc_price_lexeme c) = Inr p \<and> lexeme_quantity (kc_quantity_lexeme c) = Inr (kc_quantity c))"

definition cb_inv :: "checksum_book \<Rightarrow> bool" where
  "cb_inv b \<longleftrightarrow> om_sorted bid_lt (cb_bids b) \<and> om_sorted ask_lt (cb_asks b) \<and>
     list_all (level_ok Bid) (cb_bids b) \<and> list_all (level_ok Ask) (cb_asks b)"

lemma cb_inv_empty [simp]: "cb_inv KrakenChecksumBook"
  by (simp add: cb_inv_def KrakenChecksumBook_def)

lemma om_insert_subset: "set (om_insert_or_assign lt k v m) \<subseteq> insert (k, v) (set m)"
  if "\<And>a b. \<not> lt a b \<Longrightarrow> \<not> lt b a \<Longrightarrow> a = b"
  using that by (induction lt k v m rule: om_insert_or_assign.induct) auto

lemma update_levels_ok:
  assumes "list_all P m" and "kc_quantity c \<noteq> 0 \<Longrightarrow> P (kc_price c, c)" and "lt = bid_lt \<or> lt = ask_lt"
  shows "list_all P (update_levels lt c m)"
proof -
  have "\<And>a b. \<not> lt a b \<Longrightarrow> \<not> lt b a \<Longrightarrow> a = b" using assms(3) by (auto simp: std_greater_def std_less_def)
  from om_insert_subset [of lt "kc_price c" c m, OF this] show ?thesis
    using assms(1,2) by (auto simp: update_levels_def om_erase_def list_all_iff)
qed

lemma update_levels_sorted:
  "om_sorted bid_lt m \<Longrightarrow> om_sorted bid_lt (update_levels bid_lt c m)"
  "om_sorted ask_lt m \<Longrightarrow> om_sorted ask_lt (update_levels ask_lt c m)"
  by (simp_all add: update_levels_def om_sorted_erase descending.sorted_insert ascending.sorted_insert)

lemma lexeme_nonneg: "lexeme_price s = Inr p \<Longrightarrow> 0 \<le> p" "lexeme_quantity s = Inr q \<Longrightarrow> 0 \<le> q"
  using parse_decimal_range by (auto simp: lexeme_price_def lexeme_quantity_def bind_exn_eq_Inr)

lemma checksum_apply_iff:
  "checksum_apply c b = Inr b' \<longleftrightarrow> kc_price c \<noteq> 0 \<and> lexeme_price (kc_price_lexeme c) = Inr (kc_price c) \<and>
     lexeme_quantity (kc_quantity_lexeme c) = Inr (kc_quantity c) \<and>
     b' = (if kc_side c = Bid then b\<lparr>cb_bids := update_levels bid_lt c (cb_bids b)\<rparr>
           else b\<lparr>cb_asks := update_levels ask_lt c (cb_asks b)\<rparr>)"
  by (auto simp: checksum_apply_def bind_exn_eq_Inr split: if_splits)

lemma checksum_apply_inv:
  assumes "cb_inv b" and "checksum_apply c b = Inr b'"
  shows "cb_inv b'"
proof -
  have c: "kc_price c \<noteq> 0" "lexeme_price (kc_price_lexeme c) = Inr (kc_price c)"
    "lexeme_quantity (kc_quantity_lexeme c) = Inr (kc_quantity c)"
    using assms(2) by (auto simp: checksum_apply_iff)
  have ok: "kc_quantity c \<noteq> 0 \<Longrightarrow> level_ok (kc_side c) (kc_price c, c)"
    using c lexeme_nonneg [of "kc_price_lexeme c"] lexeme_nonneg [of "kc_quantity_lexeme c"] by (auto simp: level_ok_def)
  show ?thesis
    using assms update_levels_sorted update_levels_ok [of "level_ok (kc_side c)" _ c bid_lt]
      update_levels_ok [of "level_ok (kc_side c)" _ c ask_lt] ok
    by (cases "kc_side c") (auto simp: cb_inv_def checksum_apply_iff)
qed

lemma checksum_apply_all_inv: "cb_inv b \<Longrightarrow> checksum_apply_all cs b = Inr b' \<Longrightarrow> cb_inv b'"
  by (induction cs arbitrary: b) (auto simp: bind_exn_eq_Inr dest: checksum_apply_inv)

lemma snapshot_loop_inv: "cb_inv b \<Longrightarrow> snapshot_loop cs seen b = Inr b' \<Longrightarrow> cb_inv b'"
  by (induction cs arbitrary: b seen) (auto simp: bind_exn_eq_Inr split: if_splits dest: checksum_apply_inv)

lemma truncate_inv: "cb_inv b \<Longrightarrow> cb_inv (truncate_book depth b)"
  by (auto simp: cb_inv_def truncate_book_def trim_levels_take om_sorted_take list_all_iff dest: in_set_takeD)

lemma next_checksum_book_inv:
  assumes "cb_inv b" and "next_checksum_book depth m b = Inr nxt"
  shows "cb_inv nxt" and "length (cb_bids nxt) \<le> depth" and "length (cb_asks nxt) \<le> depth"
proof -
  obtain b' where run: "(if km_type m = KrakenSnapshot then replace_snapshot (km_changes m) else checksum_apply_all (km_changes m) b) = Inr b'"
    and nxt: "nxt = truncate_book depth b'"
    using assms(2) by (auto simp: next_checksum_book_def bind_exn_eq_Inr)
  have b': "cb_inv b'"
    using run snapshot_loop_inv [OF cb_inv_empty] checksum_apply_all_inv [OF assms(1)]
    by (cases "km_type m = KrakenSnapshot") (auto simp: replace_snapshot_def)
  show "cb_inv nxt" using truncate_inv [OF b'] by (simp add: nxt)
  show "length (cb_bids nxt) \<le> depth" "length (cb_asks nxt) \<le> depth" by (simp_all add: nxt truncate_book_def trim_levels_take)
qed

section \<open>The canonical book of a checksum book\<close>

context key_order
begin

lemma insert_above: "\<forall>k' \<in> fst ` set m. lt k' k \<Longrightarrow> om_insert_or_assign lt k v m = m @ [(k, v)]"
proof (induction m)
  case (Cons kv m)
  obtain k' v' where kv: "kv = (k', v')" by (cases kv)
  have "lt k' k" using Cons.prems by (simp add: kv)
  then have "\<not> lt k k'" using lt_irrefl lt_trans by blast
  then show ?case using Cons \<open>lt k' k\<close> by (simp add: kv)
qed simp

end

lemma stage_side_sorted:
  assumes "key_order lt" and "om_sorted lt (m @ map (\<lambda>(p, c). (p, kc_quantity c)) xs)" and "list_all (level_ok s) xs"
  shows "stage_side lt s (side_book_levels xs) m = m @ map (\<lambda>(p, c). (p, kc_quantity c)) xs"
  using assms(2,3)
proof (induction xs arbitrary: m)
  case (Cons pc xs)
  obtain p c where pc: "pc = (p, c)" by (cases pc)
  have "om_insert_or_assign lt p (kc_quantity c) m = m @ [(p, kc_quantity c)]"
    using Cons.prems(1) by (intro key_order.insert_above [OF assms(1)]) (auto simp: pc om_sorted_def sorted_wrt_append)
  then show ?case using Cons.IH [of "m @ [(p, kc_quantity c)]"] Cons.prems by (simp add: pc side_book_levels_def level_ok_def)
qed (simp add: side_book_levels_def)

lemma stage_side_other:
  "list_all (level_ok s') xs \<Longrightarrow> s' \<noteq> s \<Longrightarrow> stage_side lt s (side_book_levels xs) m = m"
  by (induction xs) (auto simp: side_book_levels_def level_ok_def)

end
