(* ===== verification/KrakenChecked.thy ===== *)
theory KrakenChecked
  imports KrakenBook
begin

text \<open>
  What the Kraken book processor guarantees: the published book is the checksummed book, limited
  to the subscribed depth, and a message that is rejected leaves no trace in it. The abstract
  book of a side is the quantity per price, as in the order book.
\<close>

section \<open>The abstract book of a checksum book\<close>

fun cb_side :: "checksum_book \<Rightarrow> side \<Rightarrow> kraken_levels" where
  "cb_side b Bid = cb_bids b"
| "cb_side b Ask = cb_asks b"

definition cb_abs :: "checksum_book \<Rightarrow> abstract_book" where
  "cb_abs b s p = map_option kc_quantity (om_find p (cb_side b s))"

definition change_level :: "kraken_level_change \<Rightarrow> book_level" where
  "change_level c = \<lparr>lv_side = kc_side c, lv_price = kc_price c, lv_quantity = kc_quantity c\<rparr>"

lemma update_levels_find:
  "om_find p (update_levels bid_lt c m) = (if p = kc_price c then if kc_quantity c = 0 then None else Some c else om_find p m)"
  "om_find p (update_levels ask_lt c m) = (if p = kc_price c then if kc_quantity c = 0 then None else Some c else om_find p m)"
  by (simp_all add: update_levels_def om_find_erase descending.find_insert ascending.find_insert)

lemma checksum_apply_abs:
  assumes "checksum_apply c b = Inr b'"
  shows "cb_abs b' = set_level (change_level c) (cb_abs b)"
proof (intro ext)
  fix s p
  show "cb_abs b' s p = set_level (change_level c) (cb_abs b) s p"
    using assms
    by (cases s; cases "kc_side c")
      (auto simp: checksum_apply_iff cb_abs_def set_level_def change_level_def update_levels_find)
qed

lemma checksum_apply_all_abs:
  "checksum_apply_all cs b = Inr b' \<Longrightarrow> cb_abs b' = fold set_level (map change_level cs) (cb_abs b)"
  by (induction cs arbitrary: b) (auto simp: bind_exn_eq_Inr checksum_apply_abs)

lemma snapshot_loop_abs:
  "snapshot_loop cs seen b = Inr b' \<Longrightarrow> cb_abs b' = fold set_level (map change_level cs) (cb_abs b)"
  by (induction cs arbitrary: b seen) (auto simp: bind_exn_eq_Inr checksum_apply_abs split: if_splits)

lemma cb_abs_empty [simp]: "cb_abs KrakenChecksumBook = (\<lambda>_ _. None)"
proof (intro ext)
  fix s p
  show "cb_abs KrakenChecksumBook s p = None" by (cases s) (simp_all add: cb_abs_def KrakenChecksumBook_def om_find_def)
qed

text \<open>Keeping the first levels of a sorted side keeps the prices with few better ones.\<close>

context key_order
begin

lemma find_take:
  assumes "om_sorted lt m"
  shows "om_find p (take n m) = (if card {p'. om_find p' m \<noteq> None \<and> lt p' p} < n then om_find p m else None)"
  using assms
proof (induction m arbitrary: n)
  case Nil
  then show ?case by (simp add: om_find_def)
next
  case (Cons kv m)
  obtain k v where kv: "kv = (k, v)" by (cases kv)
  have above: "\<forall>p'. om_find p' m \<noteq> None \<longrightarrow> lt k p'" 
    using Cons.prems unfolding kv om_sorted_Cons by (metis om_find_dom)
  have fin: "finite {p'. om_find p' m \<noteq> None \<and> lt p' p}"
    by (rule finite_subset [of _ "fst ` set m"]) (auto simp: om_find_dom)
  show ?case
  proof (cases n)
    case (Suc n')
    show ?thesis
    proof (cases "p = k \<or> om_find p m = None")
      case True
      have "card {p'. om_find p' (kv # m) \<noteq> None \<and> lt p' p} = 0" if "p = k"
      proof -
        have "{p'. om_find p' (kv # m) \<noteq> None \<and> lt p' p} = {}"
          using above that lt_irrefl lt_trans by (force simp: kv om_find_def split: if_splits)
        then show ?thesis by (simp only: card.empty)
      qed
      moreover have "om_find p (take n' m) = None" if "om_find p m = None"
        using that unfolding om_find_def map_of_eq_None_iff by (auto dest: in_set_takeD)
      moreover have "om_find p (take n (kv # m)) = (if p = k then Some v else om_find p (take n' m))"
        "om_find p (kv # m) = (if p = k then Some v else om_find p m)"
        using Suc by (simp_all add: kv om_find_def)
      ultimately show ?thesis using True Suc by (cases "p = k") simp_all
    next
      case False
      then have "lt k p" using above by blast
      then have "{p'. om_find p' (kv # m) \<noteq> None \<and> lt p' p} = insert k {p'. om_find p' m \<noteq> None \<and> lt p' p}"
        by (auto simp: kv om_find_def)
      moreover have "k \<notin> {p'. om_find p' m \<noteq> None \<and> lt p' p}" using above lt_irrefl by blast
      ultimately have "card {p'. om_find p' (kv # m) \<noteq> None \<and> lt p' p} = Suc (card {p'. om_find p' m \<noteq> None \<and> lt p' p})"
        using fin by simp
      moreover have "om_find p (take n (kv # m)) = om_find p (take n' m)" "om_find p (kv # m) = om_find p m"
        using False Suc by (auto simp: kv om_find_def)
      ultimately show ?thesis using Cons.IH [of n'] Cons.prems Suc by (simp add: kv)
    qed
  qed (simp add: om_find_def)
qed

end

text \<open>The levels of a side that are among the best \<open>depth\<close>.\<close>

definition best_levels :: "nat \<Rightarrow> abstract_book \<Rightarrow> abstract_book" where
  "best_levels depth f s p = (if card {p'. f s p' \<noteq> None \<and> side_lt s p' p} < depth then f s p else None)"

lemma truncate_abs:
  assumes "cb_inv b"
  shows "cb_abs (truncate_book depth b) = best_levels depth (cb_abs b)"
proof (intro ext)
  fix s p
  show "cb_abs (truncate_book depth b) s p = best_levels depth (cb_abs b) s p"
    using assms descending.find_take [of "cb_bids b" p depth] ascending.find_take [of "cb_asks b" p depth]
    by (cases s) (simp_all add: cb_abs_def best_levels_def truncate_book_def trim_levels_take cb_inv_def)
qed

definition message_book :: "kraken_book_message \<Rightarrow> abstract_book \<Rightarrow> abstract_book" where
  "message_book m f = fold set_level (map change_level (km_changes m)) (if km_type m = KrakenSnapshot then (\<lambda>_ _. None) else f)"

lemma next_checksum_book_abs:
  assumes "cb_inv b" and "next_checksum_book depth m b = Inr nxt"
  shows "cb_abs nxt = best_levels depth (message_book m (cb_abs b))"
proof -
  obtain b' where run: "(if km_type m = KrakenSnapshot then replace_snapshot (km_changes m) else checksum_apply_all (km_changes m) b) = Inr b'"
    and nxt: "nxt = truncate_book depth b'"
    using assms(2) by (auto simp: next_checksum_book_def bind_exn_eq_Inr)
  have "cb_inv b'"
    using run snapshot_loop_inv [OF cb_inv_empty] checksum_apply_all_inv [OF assms(1)]
    by (cases "km_type m = KrakenSnapshot") (auto simp: replace_snapshot_def)
  moreover have "cb_abs b' = message_book m (cb_abs b)"
    using run by (auto simp: message_book_def replace_snapshot_def dest: checksum_apply_all_abs snapshot_loop_abs split: if_splits)
  ultimately show ?thesis by (simp add: nxt truncate_abs)
qed

section \<open>The candidate book\<close>

definition quantities :: "kraken_levels \<Rightarrow> levels" where
  "quantities = map (\<lambda>(p, c). (p, kc_quantity c))"

definition canonical_book :: "checksum_book \<Rightarrow> order_book" where
  "canonical_book b = (OrderBook Kraken BTC_USD)\<lparr>ob_bids := quantities (cb_bids b), ob_asks := quantities (cb_asks b), ob_state := Valid\<rparr>"

lemma om_sorted_quantities: "om_sorted lt (quantities m) = om_sorted lt m"
  by (simp add: om_sorted_def quantities_def comp_def case_prod_beta)

lemma find_quantities: "om_find p (quantities m) = map_option kc_quantity (om_find p m)"
  unfolding om_find_def quantities_def by (induction m) auto

lemma map_key_levels:
  "list_all (level_ok s) xs \<Longrightarrow> map level_key (side_book_levels xs) = map (Pair s) (map fst xs)"
  by (induction xs) (auto simp: side_book_levels_def level_ok_def level_key_def)

lemma valid_side_levels: "list_all (level_ok s) xs \<Longrightarrow> list_all (\<lambda>l. valid_level l True) (side_book_levels xs)"
  by (cases s) (auto simp: side_book_levels_def level_ok_def valid_level_def list_all_iff)

lemma checksum_levels_fit:
  assumes "cb_inv b"
  shows "list_all (\<lambda>l. valid_level l True) (checksum_levels b)" and "distinct (map level_key (checksum_levels b))"
proof -
  have ok: "list_all (level_ok Bid) (cb_bids b)" "list_all (level_ok Ask) (cb_asks b)" using assms by (simp_all add: cb_inv_def)
  have "distinct (map fst (cb_bids b))" "distinct (map fst (cb_asks b))"
    using assms descending.om_sorted_distinct ascending.om_sorted_distinct by (auto simp: cb_inv_def)
  then show "distinct (map level_key (checksum_levels b))"
    using ok by (auto simp: checksum_levels_def map_key_levels distinct_map inj_on_def simp del: map_map)
  show "list_all (\<lambda>l. valid_level l True) (checksum_levels b)"
    using ok by (simp add: checksum_levels_def valid_side_levels)
qed

lemma candidate_book_eq:
  assumes "cb_inv nxt" and "km_instrument m = BTC_USD"
  shows "candidate_book m nxt =
    (if crossed (canonical_book nxt) then Inl (InvalidArgument ''crossed Kraken book'') else Inr (canonical_book nxt))"
proof -
  have ok: "list_all (level_ok Bid) (cb_bids nxt)" "list_all (level_ok Ask) (cb_asks nxt)" using assms(1) by (simp_all add: cb_inv_def)
  have "stage_side bid_lt Bid (checksum_levels nxt) [] = quantities (cb_bids nxt)"
    "stage_side ask_lt Ask (checksum_levels nxt) [] = quantities (cb_asks nxt)"
    using ok assms(1) stage_side_sorted [OF descending.key_order_axioms, of "[]" "cb_bids nxt" Bid]
      stage_side_sorted [OF ascending.key_order_axioms, of "[]" "cb_asks nxt" Ask]
    by (simp_all add: checksum_levels_def stage_side_append stage_side_other cb_inv_def om_sorted_quantities flip: quantities_def)
  then show ?thesis
    using checksum_levels_fit [OF assms(1)] assms(2)
    by (simp add: candidate_book_def apply_snapshot_eq snapshot_fits_def snapshot_book_def canonical_book_def OrderBook_def)
qed

section \<open>The processor\<close>

lemma set_metric_frame [simp]:
  "kp_depth (set_metric key v k) = kp_depth k" "kp_checksum_book (set_metric key v k) = kp_checksum_book k"
  "kp_book (set_metric key v k) = kp_book k" "kp_checksum (set_metric key v k) = kp_checksum k"
  "kp_had_snapshot (set_metric key v k) = kp_had_snapshot k"
  by (simp_all add: set_metric_def)

lemma inc_frame [simp]:
  "kp_depth (inc key k) = kp_depth k" "kp_checksum_book (inc key k) = kp_checksum_book k"
  "kp_book (inc key k) = kp_book k" "kp_checksum (inc key k) = kp_checksum k"
  "kp_had_snapshot (inc key k) = kp_had_snapshot k"
  by (simp_all add: inc_def)

lemma advance_frame [simp]:
  "kp_depth (advance now k) = kp_depth k" "kp_checksum_book (advance now k) = kp_checksum_book k"
  "kp_book (advance now k) = kp_book k" "kp_checksum (advance now k) = kp_checksum k"
  "kp_had_snapshot (advance now k) = kp_had_snapshot k"
  by (simp_all add: advance_def Let_def split: option.split)

text \<open>A book up to its state.\<close>

definition unmarked :: "order_book \<Rightarrow> order_book" where
  "unmarked b = b\<lparr>ob_state := Initializing\<rparr>"

lemma unmarked_state [simp]: "unmarked (b\<lparr>ob_state := st\<rparr>) = unmarked b"
  by (simp add: unmarked_def)

lemma unmarked_eqD:
  assumes "unmarked b = unmarked b'"
  shows "ob_bids b = ob_bids b'" "ob_asks b = ob_asks b'" "ob_state b = ob_state b' \<Longrightarrow> b = b'"
proof -
  have eq: "ob_venue b = ob_venue b'" "ob_instrument b = ob_instrument b'" "ob_bids b = ob_bids b'" "ob_asks b = ob_asks b'"
    "ob_last_sequence b = ob_last_sequence b'"
    using assms by (cases b, cases b', simp add: unmarked_def)+
  then show "ob_bids b = ob_bids b'" "ob_asks b = ob_asks b'" "ob_state b = ob_state b' \<Longrightarrow> b = b'"
    by (auto intro: order_book.equality)
qed

text \<open>The part of the processor that is published, and the two ways a message can leave it.\<close>

definition same_levels :: "kraken_processor \<Rightarrow> kraken_processor \<Rightarrow> bool" where
  "same_levels k k' \<longleftrightarrow> kp_checksum_book k' = kp_checksum_book k \<and> kp_checksum k' = kp_checksum k \<and>
     kp_depth k' = kp_depth k \<and> kp_had_snapshot k' = kp_had_snapshot k \<and>
     unmarked (kp_book k') = unmarked (kp_book k)"

definition accepts :: "(string \<Rightarrow> uint32) \<Rightarrow> kraken_book_message \<Rightarrow> kraken_processor \<Rightarrow> kraken_processor \<Rightarrow> bool" where
  "accepts crc m k k' \<longleftrightarrow> km_instrument m = BTC_USD \<and> (km_type m = KrakenUpdate \<longrightarrow> ob_state (kp_book k) = Valid) \<and>
     next_checksum_book (kp_depth k) m (kp_checksum_book k) = Inr (kp_checksum_book k') \<and>
     book_checksum crc (kp_checksum_book k') = Inr (km_checksum m) \<and>
     candidate_book m (kp_checksum_book k') = Inr (kp_book k') \<and>
     kp_checksum k' = km_checksum m \<and> kp_depth k' = kp_depth k \<and> kp_had_snapshot k'"

lemma not_snapshot: "km_type m \<noteq> KrakenSnapshot \<longleftrightarrow> km_type m = KrakenUpdate"
  by (cases "km_type m") auto

lemma kraken_apply_cases:
  assumes "kraken_apply crc m k = (ok, k')"
  shows "if ok then accepts crc m k k' else same_levels k k' \<and> ob_state (kp_book k') \<noteq> Valid"
  using assms
  unfolding kraken_apply_def Let_def not_snapshot
  by (auto simp: apply_error_def same_levels_def accepts_def bind_exn_eq_Inr invalidate_def not_snapshot
      split: if_splits sum.splits)

lemma same_levels_refl: "same_levels k k"
  by (simp add: same_levels_def)

text \<open>One message: a book is accepted, or the levels stay and a failure leaves no valid book.\<close>

lemma kraken_process_cases:
  assumes "kraken_process crc raw wall monotonic k = (ok, k')"
  shows "(ok \<and> (\<exists>m. kr_book (kraken_parse raw wall monotonic) = Some m \<and> accepts crc m k k')) \<or>
         same_levels k k' \<and> (if ok then kp_book k' = kp_book k else ob_state (kp_book k') \<noteq> Valid)"
proof (cases "kr_kind (kraken_parse raw wall monotonic) = BookMessage")
  case True
  let ?r = "kraken_parse raw wall monotonic"
  let ?k = "(inc ''kraken_messages'' ((advance monotonic k)\<lparr>kp_last_message := Some monotonic\<rparr>))\<lparr>kp_error := []\<rparr>"
  have "\<exists>m. kr_book ?r = Some m"
    using True by (auto simp: kraken_parse_def kraken_message_def subscription_reply_def bind_exn_eq_Inr split: sum.splits if_splits)
  then obtain m where m: "kr_book ?r = Some m" by blast
  have "kraken_apply crc m ?k = (ok, k')" using assms True m by (simp add: kraken_process_def Let_def)
  from kraken_apply_cases [OF this] m show ?thesis by (auto simp: same_levels_def accepts_def split: if_splits)
next
  case False
  then show ?thesis using assms
    by (auto simp: kraken_process_def Let_def same_levels_def invalidate_def split: parse_kind.splits)
qed

section \<open>The invariant of the processor\<close>

definition kraken_inv :: "(string \<Rightarrow> uint32) \<Rightarrow> nat \<Rightarrow> kraken_processor \<Rightarrow> bool" where
  "kraken_inv crc depth k \<longleftrightarrow> kp_depth k = depth \<and> cb_inv (kp_checksum_book k) \<and>
     length (cb_bids (kp_checksum_book k)) \<le> depth \<and> length (cb_asks (kp_checksum_book k)) \<le> depth \<and>
     unmarked (kp_book k) = unmarked (canonical_book (kp_checksum_book k)) \<and>
     (ob_state (kp_book k) = Valid \<longrightarrow>
        book_checksum crc (kp_checksum_book k) = Inr (kp_checksum k) \<and> \<not> crossed (canonical_book (kp_checksum_book k)))"

lemma kraken_inv_levels:
  assumes "kraken_inv crc depth k" and "same_levels k k'" and "ob_state (kp_book k') = Valid \<Longrightarrow> ob_state (kp_book k) = Valid"
  shows "kraken_inv crc depth k'"
  using assms by (auto simp: kraken_inv_def same_levels_def)

lemma kraken_inv_accepts:
  assumes "kraken_inv crc depth k" and "accepts crc m k k'"
  shows "kraken_inv crc depth k' \<and> ob_state (kp_book k') = Valid \<and>
    cb_abs (kp_checksum_book k') = best_levels depth (message_book m (cb_abs (kp_checksum_book k)))"
proof -
  have inv: "cb_inv (kp_checksum_book k)" and nxt: "next_checksum_book depth m (kp_checksum_book k) = Inr (kp_checksum_book k')"
    and cand: "candidate_book m (kp_checksum_book k') = Inr (kp_book k')" and i: "km_instrument m = BTC_USD"
    using assms by (auto simp: kraken_inv_def accepts_def)
  note facts = next_checksum_book_inv [OF inv nxt]
  have "kp_book k' = canonical_book (kp_checksum_book k')" "\<not> crossed (canonical_book (kp_checksum_book k'))"
    using cand by (simp_all add: candidate_book_eq [OF facts(1) i] split: if_splits)
  moreover from this have "ob_state (kp_book k') = Valid" by (simp add: canonical_book_def)
  ultimately show ?thesis
    using facts assms next_checksum_book_abs [OF inv nxt] by (auto simp: kraken_inv_def accepts_def)
qed

datatype kraken_op = Process string receive_wall_timestamp receive_monotonic_timestamp | Apply kraken_book_message
  | Advance receive_monotonic_timestamp | ResetConnection | MarkStale | MarkInvalid | Disconnect

fun kraken_step :: "(string \<Rightarrow> uint32) \<Rightarrow> kraken_op \<Rightarrow> kraken_processor \<Rightarrow> kraken_processor" where
  "kraken_step crc (Process raw wall monotonic) k = snd (kraken_process crc raw wall monotonic k)"
| "kraken_step crc (Apply m) k = snd (kraken_apply crc m k)"
| "kraken_step crc (Advance now) k = advance now k"
| "kraken_step crc ResetConnection k = kraken_reset_connection k"
| "kraken_step crc MarkStale k = kraken_stale k"
| "kraken_step crc MarkInvalid k = kraken_invalidate k"
| "kraken_step crc Disconnect k = kraken_disconnect k"

inductive kraken_reach :: "(string \<Rightarrow> uint32) \<Rightarrow> nat \<Rightarrow> kraken_processor \<Rightarrow> bool" for crc depth where
  start: "KrakenBookProcessor depth = Inr k \<Longrightarrow> kraken_reach crc depth k"
| step: "kraken_reach crc depth k \<Longrightarrow> kraken_reach crc depth (kraken_step crc op k)"

lemma metrics_frame:
  "kp_book (fold (\<lambda>key. set_metric (f key) 0) names k) = kp_book k"
  "kp_checksum_book (fold (\<lambda>key. set_metric (f key) 0) names k) = kp_checksum_book k"
  "kp_depth (fold (\<lambda>key. set_metric (f key) 0) names k) = kp_depth k"
  by (induction names arbitrary: k) simp_all

lemma kraken_inv_start: "KrakenBookProcessor depth = Inr k \<Longrightarrow> kraken_inv crc depth k"
  by (auto simp: KrakenBookProcessor_def bind_exn_eq_Inr kraken_inv_def metrics_frame canonical_book_def OrderBook_def
      quantities_def KrakenChecksumBook_def cb_inv_def unmarked_def)

lemma kraken_step_cases:
  "same_levels k (kraken_step crc op k) \<and> (ob_state (kp_book (kraken_step crc op k)) = Valid \<longrightarrow> ob_state (kp_book k) = Valid) \<or>
   (\<exists>m. accepts crc m k (kraken_step crc op k))"
proof (cases op)
  case (Process raw wall monotonic)
  obtain ok k' where run: "kraken_process crc raw wall monotonic k = (ok, k')" by force
  then have "kraken_step crc op k = k'" by (simp add: Process)
  then show ?thesis using kraken_process_cases [OF run] by (cases ok) auto
next
  case (Apply m)
  obtain ok k' where run: "kraken_apply crc m k = (ok, k')" by force
  then have "kraken_step crc op k = k'" by (simp add: Apply)
  then show ?thesis using kraken_apply_cases [OF run] by (cases ok) auto
qed (simp_all add: same_levels_def kraken_reset_connection_def kraken_stale_def kraken_invalidate_def kraken_disconnect_def mark_defs)

lemma kraken_reach_inv: "kraken_reach crc depth k \<Longrightarrow> kraken_inv crc depth k"
proof (induction rule: kraken_reach.induct)
  case (step k op)
  then show ?case using kraken_step_cases [of k crc op] kraken_inv_levels kraken_inv_accepts by blast
qed (rule kraken_inv_start)

lemma kraken_inv_abs:
  assumes "kraken_inv crc depth k"
  shows "book_abs (kp_book k) = cb_abs (kp_checksum_book k)"
proof (intro ext)
  fix s p
  have "ob_bids (kp_book k) = quantities (cb_bids (kp_checksum_book k))" "ob_asks (kp_book k) = quantities (cb_asks (kp_checksum_book k))"
    using assms unmarked_eqD [of "kp_book k" "canonical_book (kp_checksum_book k)"] by (simp_all add: kraken_inv_def canonical_book_def)
  then show "book_abs (kp_book k) s p = cb_abs (kp_checksum_book k) s p"
    by (cases s) (simp_all add: book_abs_def cb_abs_def find_quantities)
qed

lemma kraken_inv_valid:
  assumes "kraken_inv crc depth k" and "ob_state (kp_book k) = Valid"
  shows "kp_book k = canonical_book (kp_checksum_book k)"
  using assms unmarked_eqD(3) [of "kp_book k" "canonical_book (kp_checksum_book k)"] by (simp add: kraken_inv_def canonical_book_def)

lemma not_crossed:
  assumes "\<not> crossed b" and "ob_state b = Valid" and "book_sorted b"
    and "book_abs b Bid bid = Some q" and "book_abs b Ask ask = Some q'"
  shows "bid < ask"
proof -
  have find: "om_find bid (ob_bids b) \<noteq> None" "om_find ask (ob_asks b) \<noteq> None" using assms(4,5) by (simp_all add: book_abs_def)
  then obtain p v p' v' where bs: "om_begin (ob_bids b) = Some (p, v)" "om_begin (ob_asks b) = Some (p', v')"
    by (cases "ob_bids b"; cases "ob_asks b") (auto simp: om_begin_def om_find_def)
  then have "ob_bids b \<noteq> []" "ob_asks b \<noteq> []" by (auto simp: om_begin_def)
  then have "p < p'" using assms(1,2) bs by (auto simp: crossed_def has_two_sided_market_def best_bid_def best_ask_def)
  moreover have "bid \<le> p" using descending.om_begin_least [OF _ bs(1) find(1)] assms(3) by (auto simp: book_sorted_def std_greater_def)
  moreover have "p' \<le> ask" using ascending.om_begin_least [OF _ bs(2) find(2)] assms(3) by (auto simp: book_sorted_def std_less_def)
  ultimately show ?thesis by linarith
qed

section \<open>The properties\<close>

text \<open>A snapshot of one bid and one ask, for a toy checksum that counts bytes.\<close>

definition byte_count :: "string \<Rightarrow> uint32" where
  "byte_count s = of_nat (length s)"

definition sample_change :: "side \<Rightarrow> price_ticks \<Rightarrow> quantity_atoms \<Rightarrow> string \<Rightarrow> string \<Rightarrow> kraken_level_change" where
  "sample_change s p q ps qs = \<lparr>kc_side = s, kc_price = p, kc_quantity = q, kc_price_lexeme = ps, kc_quantity_lexeme = qs\<rparr>"

definition sample_book_message :: "kraken_book_message_type \<Rightarrow> kraken_level_change list \<Rightarrow> uint32 \<Rightarrow> kraken_book_message" where
  "sample_book_message t cs crc = \<lparr>km_type = t, km_instrument = BTC_USD, km_changes = cs, km_checksum = crc,
     km_exchange_time = 0, km_receive_wall_time = 0, km_receive_monotonic_time = 0\<rparr>"

definition sample_kraken_snapshot :: kraken_book_message where
  "sample_kraken_snapshot = sample_book_message KrakenSnapshot
     [sample_change Bid 10050 150000000 ''100.50'' ''1.5'', sample_change Ask 10100 200000000 ''101.0'' ''2.00''] 14"

definition sample_kraken_update :: kraken_book_message where
  "sample_kraken_update = sample_book_message KrakenUpdate
     [sample_change Bid 10050 0 ''100.5'' ''0.0'', sample_change Bid 10000 25000000 ''100'' ''2.5e-1''] 12"

definition kraken_start :: kraken_processor where
  "kraken_start = (case KrakenBookProcessor 10 of Inr k \<Rightarrow> k)"

definition kraken_after_snapshot :: kraken_processor where
  "kraken_after_snapshot = kraken_step byte_count (Apply sample_kraken_snapshot) kraken_start"

lemma kraken_after_snapshot_reach: "kraken_reach byte_count 10 kraken_after_snapshot"
  unfolding kraken_after_snapshot_def
  by (intro kraken_reach.step kraken_reach.start) (simp add: kraken_start_def KrakenBookProcessor_def validate_depth_def)

lemma kraken_after_snapshot_valid: "ob_state (kp_book kraken_after_snapshot) = Valid"
  by code_simp

lemma sample_kraken_update_accepted: "fst (kraken_apply byte_count sample_kraken_update kraken_after_snapshot)"
  by code_simp



text \<open>C15. The Kraken processor implements the abstract book with a depth limit: an accepted message sets
  the quantity of each of its prices, or deletes the price for quantity zero, starting from
  nothing for a snapshot and from the previous book for an update, and then keeps exactly the
  prices that have fewer than \<open>depth\<close> better prices on their side.\<close>

theorem kraken_apply_refines:
  assumes "kraken_reach crc depth k" and "kraken_apply crc m k = (True, k')"
  shows "ob_state (kp_book k') = Valid \<and> book_abs (kp_book k') =
    best_levels depth (fold set_level (map change_level (km_changes m))
      (if km_type m = KrakenSnapshot then (\<lambda>_ _. None) else book_abs (kp_book k)))"
proof -
  note inv = kraken_reach_inv [OF assms(1)]
  have "accepts crc m k k'" using kraken_apply_cases [OF assms(2)] by simp
  from kraken_inv_accepts [OF inv this] show ?thesis
    using kraken_inv_abs [OF inv] kraken_inv_abs [of crc depth k'] by (simp add: message_book_def)
qed

theorem kraken_apply_refines_witness:
  "book_abs (kp_book (snd (kraken_apply byte_count sample_kraken_update kraken_after_snapshot))) =
     best_levels 10 (fold set_level (map change_level (km_changes sample_kraken_update)) (book_abs (kp_book kraken_after_snapshot)))"
  using kraken_apply_refines [OF kraken_after_snapshot_reach, of sample_kraken_update] sample_kraken_update_accepted
  by (cases "kraken_apply byte_count sample_kraken_update kraken_after_snapshot")
    (simp add: sample_kraken_update_def sample_book_message_def)

text \<open>C6. Processing one Kraken message is all or nothing: when \<open>process\<close> reports success, either the book
  is untouched or the message was a book message for BTC/USD, applied to a valid book or a
  snapshot, whose checksum equals the checksum of the resulting levels; when it reports failure
  the levels, the checksum book and the recorded checksum are what they were, and no valid book
  is left.\<close>

theorem kraken_process_transactional:
  "case kraken_process crc raw wall monotonic k of
     (True, k') \<Rightarrow> kp_book k' = kp_book k \<and> kp_checksum_book k' = kp_checksum_book k \<or>
       (\<exists>m. kr_book (kraken_parse raw wall monotonic) = Some m \<and> km_instrument m = BTC_USD \<and>
          (km_type m = KrakenSnapshot \<or> ob_state (kp_book k) = Valid) \<and>
          next_checksum_book (kp_depth k) m (kp_checksum_book k) = Inr (kp_checksum_book k') \<and>
          book_checksum crc (kp_checksum_book k') = Inr (km_checksum m) \<and> kp_checksum k' = km_checksum m)
   | (False, k') \<Rightarrow> ob_state (kp_book k') \<noteq> Valid \<and> ob_bids (kp_book k') = ob_bids (kp_book k) \<and>
       ob_asks (kp_book k') = ob_asks (kp_book k) \<and> kp_checksum_book k' = kp_checksum_book k \<and> kp_checksum k' = kp_checksum k"
proof -
  obtain ok k' where run: "kraken_process crc raw wall monotonic k = (ok, k')" by force
  show ?thesis
  proof (cases ok)
    case True
    have "km_type m = KrakenSnapshot \<or> km_type m = KrakenUpdate" for m by (cases "km_type m") auto
    then show ?thesis
      using kraken_process_cases [OF run] True unfolding run by (auto simp: accepts_def same_levels_def)
  next
    case False
    then show ?thesis
      using kraken_process_cases [OF run] unmarked_eqD [of "kp_book k'" "kp_book k"] unfolding run by (auto simp: same_levels_def)
  qed
qed

section \<open>Parsed messages are consistent\<close>

definition consistent_change :: "side \<Rightarrow> kraken_book_message_type \<Rightarrow> kraken_level_change \<Rightarrow> bool" where
  "consistent_change s t c \<longleftrightarrow> kc_side c = s \<and> 0 < kc_price c \<and> 0 \<le> kc_quantity c \<and> (t = KrakenSnapshot \<longrightarrow> kc_quantity c \<noteq> 0) \<and>
     lexeme_price (kc_price_lexeme c) = Inr (kc_price c) \<and> lexeme_quantity (kc_quantity_lexeme c) = Inr (kc_quantity c)"

lemma kraken_level_consistent: "kraken_level t s j = Inr c \<Longrightarrow> consistent_change s t c"
proof -
  assume "kraken_level t s j = Inr c"
  then have c: "lexeme_price (kc_price_lexeme c) = Inr (kc_price c) \<and> lexeme_quantity (kc_quantity_lexeme c) = Inr (kc_quantity c) \<and>
    kc_side c = s \<and> kc_price c \<noteq> 0 \<and> (t = KrakenSnapshot \<longrightarrow> kc_quantity c \<noteq> 0)"
    by (auto simp: kraken_level_def bind_exn_eq_Inr lexeme_price_def lexeme_quantity_def split: if_splits)
  then show ?thesis using lexeme_nonneg [of "kc_price_lexeme c"] lexeme_nonneg [of "kc_quantity_lexeme c"]
    by (auto simp: consistent_change_def)
qed

lemma traverse_set: "traverse f xs = Inr ys \<Longrightarrow> y \<in> set ys \<Longrightarrow> \<exists>x. f x = Inr y"
  by (induction xs arbitrary: ys) (auto simp: bind_exn_eq_Inr)

lemma kraken_side_consistent: "kraken_side t b s = Inr cs \<Longrightarrow> list_all (consistent_change s t) cs"
  unfolding list_all_iff kraken_side_def Let_def bind_exn_eq_Inr
  by (auto simp: bind_exn_eq_Inr kraken_level_consistent split: if_splits dest!: traverse_set)

lemma map_symbol_instrument: "map_symbol s = Inr i \<Longrightarrow> i = BTC_USD"
  by (auto simp: map_symbol_def split: if_splits)

lemma kraken_book_consistent:
  assumes "kraken_book wall monotonic j = Inr m"
  shows "km_instrument m = BTC_USD \<and> (\<exists>bids asks. km_changes m = bids @ asks \<and>
    list_all (consistent_change Bid (km_type m)) bids \<and> list_all (consistent_change Ask (km_type m)) asks)"
proof -
  obtain kind b where "kraken_book_entry wall monotonic kind b = Inr m"
    using assms by (auto simp: kraken_book_def bind_exn_eq_Inr split: if_splits)
  then obtain i bids asks s where "map_symbol s = Inr i" "kraken_side kind b Bid = Inr bids" "kraken_side kind b Ask = Inr asks"
    "km_type m = kind" "km_instrument m = i" "km_changes m = bids @ asks"
    by (auto simp: kraken_book_entry_def bind_exn_eq_Inr)
  then show ?thesis using kraken_side_consistent map_symbol_instrument by blast
qed

lemma kraken_parse_consistent:
  assumes "kr_book (kraken_parse raw wall monotonic) = Some m"
  shows "km_instrument m = BTC_USD \<and> list_all (\<lambda>c. consistent_change (kc_side c) (km_type m) c) (km_changes m)"
proof -
  from assms obtain j where "kraken_book wall monotonic j = Inr m"
    by (auto simp: kraken_parse_def kraken_message_def subscription_reply_def bind_exn_eq_Inr split: sum.splits if_splits)
  from kraken_book_consistent [OF this] show ?thesis by (auto simp: list_all_iff consistent_change_def)
qed

lemma checksum_apply_total:
  "consistent_change (kc_side c) t c \<Longrightarrow> \<exists>b'. checksum_apply c b = Inr b'"
  by (auto simp: checksum_apply_iff consistent_change_def)

lemma checksum_apply_all_total:
  "list_all (\<lambda>c. consistent_change (kc_side c) t c) cs \<Longrightarrow> \<exists>b'. checksum_apply_all cs b = Inr b'"
proof (induction cs arbitrary: b)
  case (Cons c cs)
  then obtain b1 where "checksum_apply c b = Inr b1" using checksum_apply_total by fastforce
  moreover obtain b2 where "checksum_apply_all cs b1 = Inr b2" using Cons by fastforce
  ultimately show ?case by simp
qed simp

lemma snapshot_loop_total:
  "list_all (\<lambda>c. consistent_change (kc_side c) KrakenSnapshot c) cs \<Longrightarrow>
     (\<exists>b'. snapshot_loop cs seen b = Inr b') \<longleftrightarrow>
     distinct (map (\<lambda>c. (kc_side c, kc_price c)) cs) \<and> (\<lambda>c. (kc_side c, kc_price c)) ` set cs \<inter> set seen = {}"
proof (induction cs arbitrary: b seen)
  case (Cons c cs)
  then obtain b1 where b1: "checksum_apply c b = Inr b1" using checksum_apply_total by fastforce
  have "kc_quantity c \<noteq> 0" using Cons.prems by (simp add: consistent_change_def)
  then show ?case using Cons.IH [of "(kc_side c, kc_price c) # seen" b1] Cons.prems b1 by auto
qed simp

text \<open>C23. A book message the Kraken parser returns is well typed for the checksum book: it is for BTC/USD,
  its prices are positive and its quantities not negative, and the decimals kept for the
  checksum denote exactly the prices and quantities stored beside them; so every update can be
  applied to every checksum book, and a snapshot can be applied exactly when no side names a
  price twice.\<close>

theorem parsed_book_consistent:
  assumes "kr_book (kraken_parse raw wall monotonic) = Some m"
  shows "km_instrument m = BTC_USD \<and>
    (\<forall>c \<in> set (km_changes m). 0 < kc_price c \<and> 0 \<le> kc_quantity c \<and>
       lexeme_price (kc_price_lexeme c) = Inr (kc_price c) \<and> lexeme_quantity (kc_quantity_lexeme c) = Inr (kc_quantity c)) \<and>
    (\<exists>b'. checksum_apply_all (km_changes m) b = Inr b') \<and>
    (km_type m = KrakenSnapshot \<longrightarrow>
       ((\<exists>b'. replace_snapshot (km_changes m) = Inr b') \<longleftrightarrow> distinct (map (\<lambda>c. (kc_side c, kc_price c)) (km_changes m))))"
proof -
  note c = kraken_parse_consistent [OF assms]
  show ?thesis
    using c checksum_apply_all_total [of "km_type m" "km_changes m" b] snapshot_loop_total [of "km_changes m" "[]" KrakenChecksumBook]
    by (auto simp: replace_snapshot_def list_all_iff consistent_change_def)
qed

definition sample_entry :: json where
  "sample_entry = JObject [
     (''asks'', JArray [JObject [(''price'', tagged_number ''101.0''), (''qty'', tagged_number ''2.00'')]]),
     (''bids'', JArray [JObject [(''price'', tagged_number ''100.50''), (''qty'', tagged_number ''1.5'')]]),
     (''checksum'', tagged_number ''14''), (''symbol'', JString ''BTC/USD''),
     (''timestamp'', JString ''1970-01-01T00:00:00.000000Z'')]"

definition sample_kraken_json :: json where
  "sample_kraken_json = JObject [(''channel'', JString ''book''), (''data'', JArray [sample_entry]), (''type'', JString ''snapshot'')]"

definition sample_kraken_raw :: string where
  "sample_kraken_raw = (case lexeme_text sample_kraken_json of Inr raw \<Rightarrow> raw)"

lemma sample_exact: "exact_json sample_kraken_raw = Inr sample_kraken_json"
proof (rule exact_json_lexemes)
  have "json_ascii sample_kraken_json" by code_simp
  then show "lexeme_text sample_kraken_json = Inr sample_kraken_raw"
    using lexeme_text_ascii(1) by (force simp: sample_kraken_raw_def)
qed code_simp+

lemma sample_checksum: "checksum_field (tagged_number ''14'') = Inr 14"
  by (simp add: checksum_field_def number_of_def tagged_number_def is_digit_def digits_val_Cons digit_val_def)

lemma sample_entry_parsed: "kraken_book_entry 0 0 KrakenSnapshot sample_entry = Inr sample_kraken_snapshot"
proof -
  have "json_at sample_entry ''checksum'' = Inr (tagged_number ''14'')"
    "bind_exn (get_string_at sample_entry ''symbol'') map_symbol = Inr BTC_USD"
    "bind_exn (get_string_at sample_entry ''timestamp'') kraken_timestamp = Inr 0"
    "kraken_side KrakenSnapshot sample_entry Bid = Inr [sample_change Bid 10050 150000000 ''100.50'' ''1.5'']"
    "kraken_side KrakenSnapshot sample_entry Ask = Inr [sample_change Ask 10100 200000000 ''101.0'' ''2.00'']" by code_simp+
  then show ?thesis
    by (simp add: kraken_book_entry_def sample_checksum sample_kraken_snapshot_def sample_book_message_def)
qed

lemma sample_kraken_parse: "kr_book (kraken_parse sample_kraken_raw 0 0) = Some sample_kraken_snapshot"
proof -
  have "is_object sample_kraken_json" "value_string sample_kraken_json ''method'' [] = Inr []"
    "get_string_at sample_kraken_json ''channel'' = Inr ''book''" "get_string_at sample_kraken_json ''type'' = Inr ''snapshot''"
    "bind_exn (json_at sample_kraken_json ''data'') sole_book = Inr sample_entry" by code_simp+
  then show ?thesis
    by (auto simp: kraken_parse_def kraken_message_def kraken_book_def sample_exact sample_entry_parsed bind_exn_eq_Inr)
qed

theorem parsed_book_consistent_witness:
  "kr_book (kraken_parse sample_kraken_raw 0 0) = Some sample_kraken_snapshot \<and> km_instrument sample_kraken_snapshot = BTC_USD"
  using parsed_book_consistent [OF sample_kraken_parse] sample_kraken_parse by blast

end
