(* ===== verification/RawWriter.thy ===== *)
theory RawWriter
  imports CoinbaseConnection RecordingQueue
begin

text \<open>
  The shared runtime status and the raw writer thread: \<open>include/pipeline/runtime_status.hpp\<close> and
  \<open>src/pipeline/runtime_status.cpp\<close>. The thread body \<open>write_raw\<close> is cut at the points where
  other threads can act: opening the file, one \<open>wait_pop\<close>, and writing the envelope it
  returned. What the file system answers is an argument of the step that asks.
\<close>

section \<open>Status\<close>

datatype runtime_state = Starting | Running | Stopping | Stopped | StoppedRecordingError | StoppedQueueFull
  | StoppedProcessingError

record runtime_status =
  rs_lifecycle_events :: "lifecycle_event list"
  rs_runtime_state :: runtime_state
  rs_connected :: bool
  rs_book_state :: book_state
  rs_received_messages :: uint64
  rs_enqueued_messages :: uint64
  rs_written_messages :: uint64
  rs_processed_messages :: uint64
  rs_bid_levels :: nat
  rs_ask_levels :: nat
  rs_recording_queue_messages :: nat
  rs_recording_queue_bytes :: uint64
  rs_last_sequence :: "uint64 option"
  rs_best_bid :: "price_ticks option"
  rs_best_ask :: "price_ticks option"
  rs_fatal_error :: "string option"
  rs_progress :: runtime_progress

definition RuntimeStatus :: runtime_status where
  "RuntimeStatus = \<lparr>rs_lifecycle_events = [], rs_runtime_state = Starting, rs_connected = False,
     rs_book_state = Initializing, rs_received_messages = 0, rs_enqueued_messages = 0, rs_written_messages = 0,
     rs_processed_messages = 0, rs_bid_levels = 0, rs_ask_levels = 0, rs_recording_queue_messages = 0,
     rs_recording_queue_bytes = 0, rs_last_sequence = None, rs_best_bid = None, rs_best_ask = None,
     rs_fatal_error = None,
     rs_progress = \<lparr>rp_last_received_index = None, rp_last_enqueued_index = None,
       rp_last_written_index = None, rp_last_processed_index = None\<rparr>\<rparr>"

text \<open>
  \<open>post_recording_failure\<close> only posts the error to the market thread: \<open>sh_hook\<close> says whether it
  is set and \<open>sh_posted\<close> holds what has been posted.
\<close>

record shared_runtime =
  sh_status :: runtime_status
  sh_writer_ready :: bool
  sh_writer_done :: bool
  sh_market_done :: bool
  sh_hook :: bool
  sh_posted :: "string list"

definition SharedRuntime :: shared_runtime where
  "SharedRuntime = \<lparr>sh_status = RuntimeStatus, sh_writer_ready = False, sh_writer_done = False,
     sh_market_done = False, sh_hook = False, sh_posted = []\<rparr>"

definition recording_failed :: "string \<Rightarrow> shared_runtime \<Rightarrow> shared_runtime" where
  "recording_failed error sh =
     (let sh = (if rs_fatal_error (sh_status sh) = None
                then sh\<lparr>sh_status := (sh_status sh)\<lparr>rs_fatal_error := Some error, rs_runtime_state := StoppedRecordingError\<rparr>\<rparr>
                else sh)
      in if sh_hook sh then sh\<lparr>sh_posted := sh_posted sh @ [error]\<rparr> else sh)"

definition unpersisted_processed_range :: "runtime_status \<Rightarrow> string" where
  "unpersisted_processed_range s =
     (let p = rs_progress s in
      case rp_last_processed_index p of
        None \<Rightarrow> []
      | Some processed \<Rightarrow>
          if (case rp_last_written_index p of None \<Rightarrow> False | Some written \<Rightarrow> written \<ge> processed) then []
          else ''unpersisted_processed_range='' @
            nat_digits (case rp_last_written_index p of None \<Rightarrow> 0 | Some written \<Rightarrow> unat (written + 1)) @ ''-'' @
            nat_digits (unat processed))"

section \<open>The writer thread\<close>

text \<open>The state the threads share, the writer's recorder, and the envelope it has popped.\<close>

record runtime =
  rt_queue :: raw_queue
  rt_shared :: shared_runtime
  rt_recorder :: "recorder option"
  rt_current :: "raw_message option"

definition new_runtime :: "raw_queue_config \<Rightarrow> runtime" where
  "new_runtime config = \<lparr>rt_queue = RawRecordingQueue config, rt_shared = SharedRuntime, rt_recorder = None, rt_current = None\<rparr>"

text \<open>
  What the file system does when the writer opens its file: \<open>create_directories\<close> and \<open>space\<close>
  may throw, the file may exist already, may not open, and its first flush may fail.
\<close>

record open_answers =
  oa_create_directories :: "unit result"
  oa_available :: "uint64 result"
  oa_file_exists :: bool
  oa_opens :: bool
  oa_flush :: fault

definition open_recording :: "open_answers \<Rightarrow> uint64 \<Rightarrow> recorder result" where
  "open_recording fs minimum_free_disk_bytes =
     bind_exn (oa_create_directories fs) (\<lambda>_.
     bind_exn (oa_available fs) (\<lambda>available.
       if available < minimum_free_disk_bytes then Inl (RuntimeError ''Insufficient disk space'')
       else case recorder_flush (oa_flush fs) (RawEventRecorder (oa_file_exists fs) (oa_opens fs)) of
           (False, _) \<Rightarrow> Inl (RuntimeError ''cannot open a new recording file'')
         | (True, recorder) \<Rightarrow> Inr recorder))"

definition set_shared :: "(shared_runtime \<Rightarrow> shared_runtime) \<Rightarrow> runtime \<Rightarrow> runtime" where
  "set_shared f rt = rt\<lparr>rt_shared := f (rt_shared rt)\<rparr>"

definition writer_exit :: "runtime \<Rightarrow> runtime" where
  "writer_exit = set_shared (\<lambda>sh. sh\<lparr>sh_writer_done := True\<rparr>)"

definition writer_catch :: "exn \<Rightarrow> runtime \<Rightarrow> runtime" where
  "writer_catch e rt =
     (let rt = set_shared (recording_failed (what e)) rt
      in writer_exit (rt\<lparr>rt_queue := queue_close (rt_queue rt)\<rparr>))"

definition writer_start :: "open_answers \<Rightarrow> uint64 \<Rightarrow> runtime \<Rightarrow> runtime" where
  "writer_start fs minimum_free_disk_bytes rt =
     (case open_recording fs minimum_free_disk_bytes of
        Inl e \<Rightarrow> writer_catch e rt
      | Inr recorder \<Rightarrow> (set_shared (\<lambda>sh. sh\<lparr>sh_writer_ready := True\<rparr>) rt)\<lparr>rt_recorder := Some recorder\<rparr>)"

text \<open>The default of the \<open>append\<close> argument; four stream operations may meet a fault.\<close>

type_synonym write_faults = "fault \<times> fault \<times> fault \<times> fault"

definition append_raw :: "(double \<Rightarrow> string) \<Rightarrow> write_faults \<Rightarrow> raw_message \<Rightarrow> recorder \<Rightarrow> bool result \<times> recorder" where
  "append_raw fl f e r =
     (case f of (f_line, f_newline, f_append, f_flush) \<Rightarrow>
        case recorder_append fl f_line f_newline f_append e r of
          (Inr True, r) \<Rightarrow> map_prod Inr id (recorder_flush f_flush r)
        | (answer, r) \<Rightarrow> (answer, r))"

text \<open>The loop condition; a drained queue ends the loop and closes the file.\<close>

definition writer_pop :: "fault \<times> fault \<Rightarrow> runtime \<Rightarrow> runtime" where
  "writer_pop f rt =
     (case rt_recorder rt of
        None \<Rightarrow> rt
      | Some recorder \<Rightarrow>
          if sh_writer_done (rt_shared rt) \<or> rt_current rt \<noteq> None then rt
          else case wait_pop (rt_queue rt) of
              (Blocked, _) \<Rightarrow> rt
            | (Popped e, queue) \<Rightarrow> rt\<lparr>rt_queue := queue, rt_current := Some e\<rparr>
            | (Drained, _) \<Rightarrow>
                (case recorder_close (fst f) (snd f) recorder of
                   (ok, recorder) \<Rightarrow>
                     let rt = rt\<lparr>rt_recorder := Some recorder\<rparr> in
                     if \<not> ok then writer_catch (RuntimeError ''raw recording final flush/close failed'') rt
                     else writer_exit rt))"

definition count_written :: "uint64 \<Rightarrow> shared_runtime \<Rightarrow> shared_runtime" where
  "count_written index sh =
     sh\<lparr>sh_status := (sh_status sh)\<lparr>rs_written_messages := rs_written_messages (sh_status sh) + 1,
       rs_progress := (rs_progress (sh_status sh))\<lparr>rp_last_written_index := Some index\<rparr>\<rparr>\<rparr>"

text \<open>The loop body.\<close>

definition writer_write :: "(double \<Rightarrow> string) \<Rightarrow> write_faults \<Rightarrow> runtime \<Rightarrow> runtime" where
  "writer_write fl f rt =
     (case (rt_recorder rt, rt_current rt) of
        (Some recorder, Some e) \<Rightarrow>
          if sh_writer_done (rt_shared rt) then rt
          else
            let failed = RuntimeError (''raw recording write/flush failed at index '' @ nat_digits (unat (rm_record_index e))) in
            if rm_record_index e \<noteq> rc_next_record_index recorder then writer_catch failed rt
            else case append_raw fl f e recorder of
                (Inl x, recorder) \<Rightarrow> writer_catch x (rt\<lparr>rt_recorder := Some recorder\<rparr>)
              | (Inr False, recorder) \<Rightarrow> writer_catch failed (rt\<lparr>rt_recorder := Some recorder\<rparr>)
              | (Inr True, recorder) \<Rightarrow>
                  set_shared (count_written (rm_record_index e)) (rt\<lparr>rt_recorder := Some recorder, rt_current := None\<rparr>)
      | _ \<Rightarrow> rt)"

section \<open>What the writer keeps\<close>

lemma recorder_flush_inv:
  assumes "recorder_inv fl ms r" and "recorder_flush f r = (ok, r')" and "os_good (rc_output r)"
  shows "if ok then recorder_inv fl ms r' \<and> r' = r \<and> os_open (rc_output r)
    else rc_output r' = (rc_output r)\<lparr>os_good := False\<rparr> \<or> r' = r \<and> \<not> os_open (rc_output r)"
  using assms by (auto simp: recorder_flush_def os_flush_def Let_def split: if_splits)

lemma recorder_append_good:
  assumes "recorder_append fl f1 f2 f3 m r = (Inr True, r')"
  shows "os_open (rc_output r) \<and> os_open (rc_output r') \<and> os_good (rc_output r')"
  using assms by (auto simp: recorder_append_def os_write_def os_flush_def Let_def split: if_splits sum.splits fault.splits)

lemma append_raw_inv:
  assumes inv: "recorder_inv fl ms r" and ok: "message_ok m" and run: "append_raw fl f m r = (res, r')"
  shows "recorder_inv fl (if res = Inr True then ms @ [m\<lparr>rm_record_index := rc_next_record_index r\<rparr>] else ms) r' \<and>
    (res = Inr True \<longrightarrow> os_open (rc_output r') \<and> os_good (rc_output r'))"
proof -
  let ?m = "m\<lparr>rm_record_index := rc_next_record_index r\<rparr>"
  obtain f1 f2 f3 f4 where f: "f = (f1, f2, f3, f4)" by (cases f) auto
  obtain res1 r1 where a: "recorder_append fl f1 f2 f3 m r = (res1, r1)" by force
  note inv1 = recorder_append_inv [OF inv ok a]
  show ?thesis
  proof (cases "res1 = Inr True")
    case False
    then have "res = res1" "r' = r1" using run a by (auto simp: f append_raw_def split: sum.splits bool.splits)
    then show ?thesis using inv1 False by simp
  next
    case True
    note good = recorder_append_good [OF a [unfolded True]]
    obtain ok' r2 where fl: "recorder_flush f4 r1 = (ok', r2)" by force
    then have res: "res = Inr ok'" "r' = r2" using run a True by (auto simp: f append_raw_def)
    have inv1': "recorder_inv fl (ms @ [?m]) r1" using inv1 True by simp
    show ?thesis
    proof (cases ok')
      case True
      then show ?thesis using recorder_flush_inv [OF inv1' fl] good res inv1' by auto
    next
      case False
      then have out: "rc_output r2 = (rc_output r1)\<lparr>os_good := False\<rparr>"
        using recorder_flush_inv [OF inv1' fl] good by auto
      have rec: "recordable fl ?m" "rm_record_index ?m = of_nat (length ms)" "os_bytes (rc_output r1) = file_of fl ms @ record_line fl ?m"
        "list_all (recordable fl) ms" "indexed_from 0 ms"
        using inv1' good by (auto simp: recorder_inv_def indexed_from_append)
      have "recorder_inv fl ms r2" unfolding recorder_inv_def out
        using rec by (auto intro!: exI [of _ ?m] exI [of _ "length (record_line fl ?m)"])
      then show ?thesis using res False by simp
    qed
  qed
qed

definition waiting :: "runtime \<Rightarrow> raw_message list" where
  "waiting rt = (case rt_current rt of None \<Rightarrow> [] | Some e \<Rightarrow> [e]) @ rq_messages (rt_queue rt)"

abbreviation written_of :: "runtime \<Rightarrow> uint64 \<times> uint64 option" where
  "written_of rt \<equiv> (rs_written_messages (sh_status (rt_shared rt)), rp_last_written_index (rs_progress (sh_status (rt_shared rt))))"

definition written_counts :: "raw_message list \<Rightarrow> uint64 \<times> uint64 option" where
  "written_counts ms = (of_nat (length ms), if ms = [] then None else Some (rm_record_index (last ms)))"

text \<open>
  The accepted messages are the written ones followed by the waiting ones; a failure leaves a
  fatal error, and after a clean end nothing is waiting.
\<close>

definition writer_rel :: "(double \<Rightarrow> string) \<Rightarrow> raw_message list \<Rightarrow> raw_message list \<Rightarrow> runtime \<Rightarrow> bool" where
  "writer_rel fl ms rest rt \<longleftrightarrow> list_all message_ok (ms @ rest) \<and> written_of rt = written_counts ms \<and>
     (rt_recorder rt = None \<longrightarrow> ms = [] \<and> rt_current rt = None) \<and>
     (\<forall>r. rt_recorder rt = Some r \<longrightarrow> recorder_inv fl ms r) \<and>
     (if sh_writer_done (rt_shared rt)
      then rq_closed (rt_queue rt) \<and> (rs_fatal_error (sh_status (rt_shared rt)) = None \<longrightarrow>
        rest = [] \<and> (\<exists>r. rt_recorder rt = Some r \<and> os_good (rc_output r)))
      else rest = waiting rt \<and> (\<forall>r. rt_recorder rt = Some r \<longrightarrow> os_open (rc_output r) \<and> os_good (rc_output r)))"

definition writer_inv :: "(double \<Rightarrow> string) \<Rightarrow> raw_message list \<Rightarrow> runtime \<Rightarrow> bool" where
  "writer_inv fl acc rt \<longleftrightarrow> (\<exists>ms rest. acc = ms @ rest \<and> writer_rel fl ms rest rt)"

lemma writer_inv_new: "writer_inv fl [] (new_runtime config)"
  by (simp add: writer_inv_def writer_rel_def new_runtime_def written_counts_def SharedRuntime_def RuntimeStatus_def
      waiting_def RawRecordingQueue_def)

lemma writer_inv_push:
  assumes "writer_inv fl acc rt" and "try_push m (rt_queue rt) = (r, q)" and "message_ok m"
  shows "writer_inv fl (if r = Accepted then acc @ [m] else acc) (rt\<lparr>rt_queue := q\<rparr>)"
proof (cases "r = Accepted")
  case True
  obtain ms rest where rel: "acc = ms @ rest" "writer_rel fl ms rest rt" using assms(1) by (auto simp: writer_inv_def)
  have q: "rq_messages q = rq_messages (rt_queue rt) @ [m]" "\<not> rq_closed (rt_queue rt)"
    using assms(2) True by (auto simp: try_push_def split: if_splits)
  then have "\<not> sh_writer_done (rt_shared rt)" using rel by (auto simp: writer_rel_def)
  then have "writer_rel fl ms (rest @ [m]) (rt\<lparr>rt_queue := q\<rparr>)"
    using rel assms(3) q by (auto simp: writer_rel_def waiting_def)
  then show ?thesis using True rel by (auto simp: writer_inv_def)
next
  case False
  then have "q = rt_queue rt" using assms(2) by (auto simp: try_push_def split: if_splits)
  then show ?thesis using assms(1) False by simp
qed

lemma writer_rel_close: "writer_rel fl ms rest rt \<Longrightarrow> writer_rel fl ms rest (rt\<lparr>rt_queue := queue_close (rt_queue rt)\<rparr>)"
  by (auto simp: writer_rel_def waiting_def queue_close_def)

lemma writer_inv_close: "writer_inv fl acc rt \<Longrightarrow> writer_inv fl acc (rt\<lparr>rt_queue := queue_close (rt_queue rt)\<rparr>)"
  unfolding writer_inv_def using writer_rel_close by blast

text \<open>What the other threads may do to the shared state.\<close>

definition status_grows :: "shared_runtime \<Rightarrow> shared_runtime \<Rightarrow> bool" where
  "status_grows sh sh' \<longleftrightarrow> rs_written_messages (sh_status sh') = rs_written_messages (sh_status sh) \<and>
     rp_last_written_index (rs_progress (sh_status sh')) = rp_last_written_index (rs_progress (sh_status sh)) \<and>
     sh_writer_done sh' = sh_writer_done sh \<and> (rs_fatal_error (sh_status sh') = None \<longrightarrow> rs_fatal_error (sh_status sh) = None)"

lemma writer_inv_status:
  assumes "writer_inv fl acc rt" and "status_grows (rt_shared rt) sh"
  shows "writer_inv fl acc (rt\<lparr>rt_shared := sh\<rparr>)"
proof -
  obtain ms rest where rel: "acc = ms @ rest" "writer_rel fl ms rest rt" using assms(1) by (auto simp: writer_inv_def)
  have "writer_rel fl ms rest (rt\<lparr>rt_shared := sh\<rparr>)"
    using rel(2) assms(2) by (auto simp: writer_rel_def status_grows_def waiting_def)
  then show ?thesis using rel by (auto simp: writer_inv_def)
qed

lemma recording_failed_fields [simp]:
  "rs_fatal_error (sh_status (recording_failed e sh)) \<noteq> None"
  "rs_written_messages (sh_status (recording_failed e sh)) = rs_written_messages (sh_status sh)"
  "rs_progress (sh_status (recording_failed e sh)) = rs_progress (sh_status sh)"
  by (auto simp: recording_failed_def Let_def)

lemma writer_catch_inv:
  assumes "list_all message_ok (ms @ rest)" and "written_of rt = written_counts ms"
    and "rt_recorder rt = None \<longrightarrow> ms = [] \<and> rt_current rt = None"
    and "\<forall>r. rt_recorder rt = Some r \<longrightarrow> recorder_inv fl ms r"
  shows "writer_inv fl (ms @ rest) (writer_catch e rt)"
proof -
  have "writer_rel fl ms rest (writer_catch e rt)"
    using assms by (simp add: writer_rel_def writer_catch_def writer_exit_def set_shared_def queue_close_def Let_def)
  then show ?thesis by (auto simp: writer_inv_def)
qed

lemma open_recording_inv:
  "open_recording fs minimum = Inr r \<Longrightarrow> recorder_inv fl [] r \<and> os_open (rc_output r) \<and> os_good (rc_output r)"
  by (auto simp: open_recording_def bind_exn_eq_Inr recorder_flush_def RawEventRecorder_def os_flush_def recorder_inv_def Let_def
      split: if_splits)

lemma writer_start_inv:
  assumes "writer_inv fl acc rt" and "rt_recorder rt = None" and "\<not> sh_writer_done (rt_shared rt)"
  shows "writer_inv fl acc (writer_start fs minimum rt)"
proof -
  have rel: "writer_rel fl [] acc rt" using assms by (auto simp: writer_inv_def writer_rel_def)
  show ?thesis
  proof (cases "open_recording fs minimum")
    case (Inl e)
    then show ?thesis using writer_catch_inv [of "[]" acc rt fl e] rel by (simp add: writer_start_def writer_rel_def)
  next
    case (Inr r)
    then have "writer_rel fl [] acc (writer_start fs minimum rt)"
      using rel open_recording_inv [OF Inr] assms(3) by (auto simp: writer_start_def writer_rel_def set_shared_def waiting_def)
    then show ?thesis by (auto simp: writer_inv_def)
  qed
qed

lemma wait_pop_cases:
  "wait_pop q = (Blocked, q) \<or> wait_pop q = (Drained, q) \<and> rq_messages q = [] \<and> rq_closed q \<or>
   (\<exists>e q'. wait_pop q = (Popped e, q') \<and> rq_messages q = e # rq_messages q' \<and> rq_closed q' = rq_closed q)"
  by (cases "rq_messages q") (auto simp: wait_pop_def)

text \<open>A stream that goes bad keeps the records written before.\<close>

lemma recorder_inv_bad:
  assumes "recorder_inv fl ms r" and "os_bytes (rc_output r') = os_bytes (rc_output r)" and "\<not> os_good (rc_output r')"
  shows "recorder_inv fl ms r'"
proof (cases "os_good (rc_output r)")
  case True
  let ?m = "(sample_message [])\<lparr>rm_record_index := of_nat (length ms)\<rparr>"
  obtain out where "dump_escaped (rm_payload ?m) = Inr out" using dump_ascii [of "[]"] by (auto simp: sample_message_def)
  then have "recordable fl ?m"
    using dump_record [of ?m "Inr out" fl] by (auto simp: recordable_def message_ok_def sample_message_def int_limits)
  then show ?thesis
    using assms True by (auto simp: recorder_inv_def intro!: exI [of _ ?m] exI [of _ 0])
qed (use assms in \<open>auto simp: recorder_inv_def\<close>)

lemma recorder_close_inv:
  assumes "recorder_inv fl ms r" and "recorder_close f f' r = (ok, r')" and "os_open (rc_output r)"
  shows "recorder_inv fl ms r' \<and> (ok \<longrightarrow> os_good (rc_output r'))"
proof (cases "os_good (rc_output r')")
  case True
  then have "rc_next_record_index r' = rc_next_record_index r" "os_bytes (rc_output r') = os_bytes (rc_output r)" "os_good (rc_output r)"
    using assms by (auto simp: recorder_close_def os_flush_def Let_def split: if_splits)
  then show ?thesis using assms(1) True by (simp add: recorder_inv_def)
next
  case False
  then show ?thesis
    using assms recorder_inv_bad [OF assms(1), of r'] by (auto simp: recorder_close_def os_flush_def Let_def split: if_splits)
qed

lemma writer_pop_inv:
  assumes "writer_inv fl acc rt"
  shows "writer_inv fl acc (writer_pop f rt)"
proof -
  obtain ms rest where acc: "acc = ms @ rest" and rel: "writer_rel fl ms rest rt" using assms by (auto simp: writer_inv_def)
  show ?thesis
  proof (cases "\<exists>r. rt_recorder rt = Some r \<and> \<not> sh_writer_done (rt_shared rt) \<and> rt_current rt = None")
    case False
    then have "writer_pop f rt = rt" by (auto simp: writer_pop_def split: option.split)
    then show ?thesis using assms by simp
  next
    case True
    then obtain r where r: "rt_recorder rt = Some r" "\<not> sh_writer_done (rt_shared rt)" "rt_current rt = None" by blast
    have inv: "recorder_inv fl ms r" "os_open (rc_output r)" "os_good (rc_output r)" "rest = rq_messages (rt_queue rt)"
      using rel r by (auto simp: writer_rel_def waiting_def)
    consider (blocked) "wait_pop (rt_queue rt) = (Blocked, rt_queue rt)"
      | (drained) "wait_pop (rt_queue rt) = (Drained, rt_queue rt)" "rq_messages (rt_queue rt) = []" "rq_closed (rt_queue rt)"
      | (popped) e q where "wait_pop (rt_queue rt) = (Popped e, q)" "rq_messages (rt_queue rt) = e # rq_messages q"
      using wait_pop_cases [of "rt_queue rt"] by metis
    then show ?thesis
    proof cases
      case blocked
      then show ?thesis using assms r by (simp add: writer_pop_def)
    next
      case (popped e q)
      then have "writer_pop f rt = rt\<lparr>rt_queue := q, rt_current := Some e\<rparr>" using r by (simp add: writer_pop_def)
      moreover have "writer_rel fl ms rest (rt\<lparr>rt_queue := q, rt_current := Some e\<rparr>)"
        using rel r popped inv by (simp add: writer_rel_def waiting_def)
      ultimately show ?thesis using acc by (auto simp: writer_inv_def)
    next
      case drained
      obtain ok r' where c: "recorder_close (fst f) (snd f) r = (ok, r')" by force
      note close = recorder_close_inv [OF inv(1) c inv(2)]
      have pop: "writer_pop f rt = (if ok then writer_exit (rt\<lparr>rt_recorder := Some r'\<rparr>)
          else writer_catch (RuntimeError ''raw recording final flush/close failed'') (rt\<lparr>rt_recorder := Some r'\<rparr>))"
        using r drained c by (simp add: writer_pop_def Let_def)
      show ?thesis
      proof (cases ok)
        case True
        then have "writer_rel fl ms rest (writer_pop f rt)"
          unfolding pop using rel r inv drained close by (simp add: writer_rel_def writer_exit_def set_shared_def)
        then show ?thesis using acc by (auto simp: writer_inv_def)
      next
        case False
        then show ?thesis using rel writer_catch_inv [of ms rest "rt\<lparr>rt_recorder := Some r'\<rparr>" fl] close
          by (simp add: pop acc writer_rel_def)
      qed
    qed
  qed
qed

lemma append_raw_index:
  "append_raw fl f m r = (Inr True, r') \<Longrightarrow> rc_next_record_index r' = rc_next_record_index r + 1"
  by (auto simp: append_raw_def recorder_append_def recorder_flush_def Let_def map_prod_def
      split: prod.splits if_splits sum.splits bool.splits)

lemma writer_write_inv:
  assumes "writer_inv fl acc rt"
  shows "writer_inv fl acc (writer_write fl f rt)"
proof -
  obtain ms rest where acc: "acc = ms @ rest" and rel: "writer_rel fl ms rest rt" using assms by (auto simp: writer_inv_def)
  show ?thesis
  proof (cases "\<exists>r e. rt_recorder rt = Some r \<and> rt_current rt = Some e \<and> \<not> sh_writer_done (rt_shared rt)")
    case False
    then have "writer_write fl f rt = rt" by (auto simp: writer_write_def split: option.split)
    then show ?thesis using assms by simp
  next
    case True
    then obtain r e where r: "rt_recorder rt = Some r" "rt_current rt = Some e" "\<not> sh_writer_done (rt_shared rt)" by blast
    have inv: "recorder_inv fl ms r" "os_open (rc_output r)" "os_good (rc_output r)" "rest = e # rq_messages (rt_queue rt)" "message_ok e"
      "list_all message_ok (ms @ rest)"
      using rel r by (auto simp: writer_rel_def waiting_def)
    have catch: "writer_inv fl acc (writer_catch x (rt\<lparr>rt_recorder := Some r'\<rparr>))" if "recorder_inv fl ms r'" for x r'
      using writer_catch_inv [of ms rest "rt\<lparr>rt_recorder := Some r'\<rparr>" fl x] that rel inv(6) by (simp add: acc writer_rel_def)
    show ?thesis
    proof (cases "rm_record_index e = rc_next_record_index r")
      case False
      have "writer_inv fl acc (writer_catch x rt)" for x
        using writer_catch_inv [of ms rest rt fl x] rel inv(6) by (simp add: acc writer_rel_def)
      then show ?thesis using False r by (simp add: writer_write_def Let_def)
    next
      case True
      obtain res r' where a: "append_raw fl f e r = (res, r')" by force
      note a' = append_raw_inv [OF inv(1,5) a]
      have e: "e\<lparr>rm_record_index := rc_next_record_index r\<rparr> = e" using True by simp
      show ?thesis
      proof (cases "res = Inr True")
        case False
        then show ?thesis using a a' True r catch [of r']
          by (auto simp: writer_write_def Let_def split: sum.splits bool.splits)
      next
        case ok: True
        then have w: "writer_write fl f rt =
            set_shared (count_written (rm_record_index e)) (rt\<lparr>rt_recorder := Some r', rt_current := None\<rparr>)"
          using a True r by (simp add: writer_write_def Let_def)
        have "writer_rel fl (ms @ [e]) (rq_messages (rt_queue rt)) (writer_write fl f rt)"
          unfolding w using rel r inv a' ok e
          by (auto simp: writer_rel_def set_shared_def count_written_def waiting_def written_counts_def)
        moreover have "acc = (ms @ [e]) @ rq_messages (rt_queue rt)" using acc inv(4) by simp
        ultimately show ?thesis unfolding writer_inv_def by blast
      qed
    qed
  qed
qed

section \<open>Steps of the writer thread\<close>

datatype writer_op = OpenFile open_answers uint64 | PopNext "fault \<times> fault" | WriteNext write_faults

text \<open>The file is opened once, before anything else.\<close>

fun writer_step :: "(double \<Rightarrow> string) \<Rightarrow> writer_op \<Rightarrow> runtime \<Rightarrow> runtime" where
  "writer_step fl (OpenFile fs minimum) rt =
     (if rt_recorder rt \<noteq> None \<or> sh_writer_done (rt_shared rt) then rt else writer_start fs minimum rt)"
| "writer_step fl (PopNext f) rt = writer_pop f rt"
| "writer_step fl (WriteNext f) rt = writer_write fl f rt"

lemma writer_step_inv: "writer_inv fl acc rt \<Longrightarrow> writer_inv fl acc (writer_step fl op rt)"
  by (cases op) (simp_all add: writer_start_inv writer_pop_inv writer_write_inv)

end
