(* ===== verification/RecordingSession.thy ===== *)
theory RecordingSession
  imports RawWriter
begin

text \<open>
  The contract between the market thread of a runtime and its raw writer thread. A market thread
  only pushes messages with consecutive indices and only adds to the shared status; the writer
  only takes messages and records what it wrote. The locale proves once, for every interleaving
  of the two, what the recording holds when both have ended.
\<close>

section \<open>The writer thread alone\<close>

text \<open>One turn of the loop: the condition and, where an envelope was popped, the body.\<close>

definition writer_turn :: "(double \<Rightarrow> string) \<Rightarrow> (fault \<times> fault) \<times> write_faults \<Rightarrow> runtime \<Rightarrow> runtime" where
  "writer_turn fl f rt = writer_write fl (snd f) (writer_pop (fst f) rt)"

text \<open>\<open>write_raw\<close> without interference: the turns run until the thread has ended.\<close>

definition write_raw ::
  "(double \<Rightarrow> string) \<Rightarrow> open_answers \<Rightarrow> uint64 \<Rightarrow> ((fault \<times> fault) \<times> write_faults) list \<Rightarrow> runtime \<Rightarrow> runtime" where
  "write_raw fl fs minimum_free_disk_bytes turns rt =
     fold (writer_turn fl) turns (writer_start fs minimum_free_disk_bytes rt)"

lemma writer_done_stays:
  assumes "sh_writer_done (rt_shared rt)"
  shows "writer_pop f rt = rt" "writer_write fl f' rt = rt"
  using assms by (simp_all add: writer_pop_def writer_write_def split: option.split)

lemma writer_catch_fields [simp]:
  "sh_writer_done (rt_shared (writer_catch e rt))" "rt_recorder (writer_catch e rt) = rt_recorder rt"
  "rq_closed (rt_queue (writer_catch e rt))" "rq_messages (rt_queue (writer_catch e rt)) = rq_messages (rt_queue rt)"
  "rs_fatal_error (sh_status (rt_shared (writer_catch e rt))) \<noteq> None"
  using recording_failed_fields(1) [of "what e" "rt_shared rt"]
  by (auto simp: writer_catch_def writer_exit_def set_shared_def queue_close_def Let_def)

text \<open>On a closed queue a turn ends the thread or takes one envelope.\<close>

definition draining :: "runtime \<Rightarrow> bool" where
  "draining rt \<longleftrightarrow> sh_writer_done (rt_shared rt) \<or> rq_closed (rt_queue rt) \<and> rt_recorder rt \<noteq> None \<and> rt_current rt = None"

lemma writer_write_draining:
  assumes "rt_recorder rt \<noteq> None" and "rt_current rt \<noteq> None" and "rq_closed (rt_queue rt)"
  shows "draining (writer_write fl f rt) \<and>
    (sh_writer_done (rt_shared (writer_write fl f rt)) \<or> rq_messages (rt_queue (writer_write fl f rt)) = rq_messages (rt_queue rt))"
proof -
  obtain r e where r: "rt_recorder rt = Some r" "rt_current rt = Some e" using assms by auto
  obtain res r' where a: "append_raw fl f e r = (res, r')" by force
  show ?thesis
    by (cases res; cases "res = Inr True")
      (use r a assms in \<open>auto simp: writer_write_def draining_def set_shared_def count_written_def Let_def split: bool.splits\<close>)
qed

lemma writer_turn_draining:
  assumes "draining rt"
  shows "draining (writer_turn fl f rt) \<and>
    (sh_writer_done (rt_shared (writer_turn fl f rt)) \<or>
     length (rq_messages (rt_queue (writer_turn fl f rt))) < length (rq_messages (rt_queue rt)))"
proof (cases "sh_writer_done (rt_shared rt)")
  case True
  then show ?thesis using assms by (simp add: writer_turn_def writer_done_stays)
next
  case False
  then obtain r where r: "rq_closed (rt_queue rt)" "rt_recorder rt = Some r" "rt_current rt = None"
    using assms by (auto simp: draining_def)
  show ?thesis
  proof (cases "rq_messages (rt_queue rt)")
    case Nil
    then have "wait_pop (rt_queue rt) = (Drained, rt_queue rt)" using r by (simp add: wait_pop_def)
    then have "sh_writer_done (rt_shared (writer_pop (fst f) rt))"
      using r False by (auto simp: writer_pop_def writer_exit_def set_shared_def Let_def split: prod.splits)
    then show ?thesis by (simp add: writer_turn_def writer_done_stays draining_def)
  next
    case (Cons e es)
    obtain q where "wait_pop (rt_queue rt) = (Popped e, q)" and q: "rq_messages q = es" "rq_closed q"
      using r Cons by (simp add: wait_pop_def)
    then have "writer_pop (fst f) rt = rt\<lparr>rt_queue := q, rt_current := Some e\<rparr>" using r False by (simp add: writer_pop_def)
    then show ?thesis
      using writer_write_draining [of "rt\<lparr>rt_queue := q, rt_current := Some e\<rparr>" fl "snd f"] r q Cons by (auto simp: writer_turn_def)
  qed
qed

lemma writer_turns_end:
  "draining rt \<Longrightarrow> length (rq_messages (rt_queue rt)) < length turns \<Longrightarrow>
     sh_writer_done (rt_shared (fold (writer_turn fl) turns rt))"
proof (induction turns arbitrary: rt)
  case (Cons f turns)
  have ended: "sh_writer_done (rt_shared (fold (writer_turn fl) ts rt'))" if "sh_writer_done (rt_shared rt')" for ts rt'
    using that by (induction ts arbitrary: rt') (simp_all add: writer_turn_def writer_done_stays)
  show ?case using writer_turn_draining [OF Cons.prems(1), of fl f] Cons.IH [of "writer_turn fl f rt"] Cons.prems(2) ended by fastforce
qed simp

lemma writer_turns_inv: "writer_inv fl acc rt \<Longrightarrow> writer_inv fl acc (fold (writer_turn fl) turns rt)"
  by (induction turns arbitrary: rt) (simp_all add: writer_turn_def writer_pop_inv writer_write_inv)

section \<open>What each thread does to the other's view\<close>

definition market_effect :: "raw_message list \<Rightarrow> runtime \<Rightarrow> runtime \<Rightarrow> bool" where
  "market_effect new rt rt' \<longleftrightarrow> rt_recorder rt' = rt_recorder rt \<and> rt_current rt' = rt_current rt \<and>
     status_grows (rt_shared rt) (rt_shared rt') \<and> rq_messages (rt_queue rt') = rq_messages (rt_queue rt) @ new \<and>
     (new \<noteq> [] \<longrightarrow> \<not> rq_closed (rt_queue rt)) \<and> (rq_closed (rt_queue rt) \<longrightarrow> rq_closed (rt_queue rt')) \<and> list_all message_ok new"

lemma market_effect_refl [simp]: "market_effect [] rt rt"
  by (simp add: market_effect_def status_grows_def)

lemma market_effect_trans: "market_effect new rt rt1 \<Longrightarrow> market_effect new' rt1 rt2 \<Longrightarrow> market_effect (new @ new') rt rt2"
  by (auto simp: market_effect_def status_grows_def)

lemma writer_inv_market:
  assumes "writer_inv fl acc rt" and "market_effect new rt rt'"
  shows "writer_inv fl (acc @ new) rt'"
proof -
  obtain ms rest where acc: "acc = ms @ rest" and rel: "writer_rel fl ms rest rt" using assms(1) by (auto simp: writer_inv_def)
  have "writer_rel fl ms (rest @ new) rt'"
  proof (cases "sh_writer_done (rt_shared rt)")
    case True
    then have "new = []" using rel assms(2) by (auto simp: writer_rel_def market_effect_def)
    then show ?thesis using True rel assms(2) by (auto simp: writer_rel_def market_effect_def status_grows_def)
  next
    case False
    then show ?thesis using rel assms(2) by (auto simp: writer_rel_def market_effect_def status_grows_def waiting_def)
  qed
  then show ?thesis unfolding writer_inv_def acc by (metis append_assoc)
qed

text \<open>The part of the status the market thread owns.\<close>

definition market_view :: "runtime \<Rightarrow> (uint64 \<times> uint64 \<times> uint64) \<times> uint64 option \<times> uint64 option \<times> uint64 option" where
  "market_view rt = (let s = sh_status (rt_shared rt); p = rs_progress s in
     ((rs_received_messages s, rs_enqueued_messages s, rs_processed_messages s),
      rp_last_received_index p, rp_last_enqueued_index p, rp_last_processed_index p))"

abbreviation recorded_events :: "runtime \<Rightarrow> lifecycle_event list" where
  "recorded_events rt \<equiv> rs_lifecycle_events (sh_status (rt_shared rt))"

abbreviation fatal :: "runtime \<Rightarrow> string option" where
  "fatal rt \<equiv> rs_fatal_error (sh_status (rt_shared rt))"

definition writer_effect :: "runtime \<Rightarrow> runtime \<Rightarrow> bool" where
  "writer_effect rt rt' \<longleftrightarrow> market_view rt' = market_view rt \<and> recorded_events rt' = recorded_events rt \<and>
     (fatal rt' = None \<longrightarrow> fatal rt = None)"

lemma writer_effect_refl [simp]: "writer_effect rt rt"
  by (simp add: writer_effect_def)

lemma writer_catch_effect [simp]: "writer_effect rt (writer_catch e rt)"
  using writer_catch_fields(5) [of e rt]
  by (auto simp: writer_effect_def market_view_def writer_catch_def writer_exit_def set_shared_def recording_failed_def Let_def)

lemma writer_step_effect: "writer_effect rt (writer_step fl op rt)"
proof -
  have recorder: "writer_effect rt (writer_catch e (rt\<lparr>rt_recorder := r\<rparr>))" for e r
    using writer_catch_effect [of "rt\<lparr>rt_recorder := r\<rparr>" e] by (simp add: writer_effect_def market_view_def)
  have exit: "writer_effect rt (writer_exit (rt\<lparr>rt_recorder := r\<rparr>))" for r
    by (simp add: writer_effect_def market_view_def writer_exit_def set_shared_def)
  have count: "writer_effect rt (set_shared (count_written i) (rt\<lparr>rt_recorder := r, rt_current := c\<rparr>))" for i r c
    by (simp add: writer_effect_def market_view_def set_shared_def count_written_def Let_def)
  show ?thesis
  proof (cases op)
    case (OpenFile fs minimum)
    then show ?thesis
      by (auto simp: writer_start_def split: sum.split) (simp add: writer_effect_def market_view_def set_shared_def)
  next
    case (PopNext f)
    then show ?thesis using recorder exit
      by (auto simp: writer_pop_def Let_def split: option.split prod.split pop_result.split)
        (simp_all add: writer_effect_def market_view_def)
  next
    case (WriteNext f)
    then show ?thesis using recorder count
      by (auto simp: writer_write_def Let_def split: option.split prod.split sum.split bool.split)
  qed
qed

section \<open>Both threads\<close>

type_synonym received = "string \<times> receive_wall_timestamp \<times> receive_monotonic_timestamp"

definition contents_of :: "raw_message \<Rightarrow> received" where
  "contents_of m = (rm_payload m, rm_receive_wall_time m, rm_receive_monotonic_time m)"

text \<open>The counters and indices of a status that has seen exactly the messages \<open>ms\<close>.\<close>

definition counts_agree :: "raw_message list \<Rightarrow> runtime \<Rightarrow> bool" where
  "counts_agree ms rt \<longleftrightarrow> (let n = of_nat (length ms); i = (if ms = [] then None else Some (rm_record_index (last ms))) in
     market_view rt = ((n, n, n), i, i, i))"

text \<open>
  An interleaving: steps of the market thread (\<open>Inl\<close>) and of the writer thread (\<open>Inr\<close>), with
  the messages the market thread received.
\<close>

fun run_threads ::
  "('op \<Rightarrow> 'c \<Rightarrow> 'c) \<Rightarrow> ('op \<Rightarrow> 'c \<Rightarrow> received list) \<Rightarrow> ('c \<Rightarrow> runtime) \<Rightarrow> (runtime \<Rightarrow> 'c \<Rightarrow> 'c) \<Rightarrow> (double \<Rightarrow> string) \<Rightarrow>
   ('op + writer_op) list \<Rightarrow> 'c \<Rightarrow> received list \<times> 'c" where
  "run_threads step recv get put fl [] c = ([], c)"
| "run_threads step recv get put fl (Inl op # ops) c =
     (case run_threads step recv get put fl ops (step op c) of (ms, c') \<Rightarrow> (recv op c @ ms, c'))"
| "run_threads step recv get put fl (Inr w # ops) c =
     run_threads step recv get put fl ops (put (writer_step fl w (get c)) c)"

definition market_ops_ok :: "('op \<Rightarrow> bool) \<Rightarrow> ('op + writer_op) list \<Rightarrow> bool" where
  "market_ops_ok ok ops \<longleftrightarrow> list_all (\<lambda>op. case op of Inl m \<Rightarrow> ok m | Inr _ \<Rightarrow> True) ops"

text \<open>What a recording holds that is complete.\<close>

definition complete_recording :: "received list \<Rightarrow> runtime \<Rightarrow> bool" where
  "complete_recording recv rt \<longleftrightarrow> (\<exists>r ms rd. rt_recorder rt = Some r \<and>
     read_all (RawEventReader (Some (os_bytes (rc_output r)))) = (ms, rd) \<and> \<not> has_error rd \<and>
     map contents_of ms = recv \<and> indexed_from 0 ms \<and> counts_agree ms rt \<and> written_of rt = written_counts ms)"

locale recording_client =
  fixes step :: "'op \<Rightarrow> 'c \<Rightarrow> 'c"
    and recv :: "'op \<Rightarrow> 'c \<Rightarrow> received list"
    and get :: "'c \<Rightarrow> runtime"
    and put :: "runtime \<Rightarrow> 'c \<Rightarrow> 'c"
    and inv :: "raw_message list \<Rightarrow> 'c \<Rightarrow> bool"
    and ok :: "'op \<Rightarrow> bool"
  assumes get_put: "get (put rt c) = rt"
    and step_inv: "inv acc c \<Longrightarrow> ok op \<Longrightarrow> \<exists>new. market_effect new (get c) (get (step op c)) \<and> inv (acc @ new) (step op c) \<and>
      (fatal (get (step op c)) = None \<longrightarrow> map contents_of new = recv op c)"
    and put_inv: "inv acc c \<Longrightarrow> writer_effect (get c) rt \<Longrightarrow> inv acc (put rt c)"
    and inv_counts: "inv acc c \<Longrightarrow> fatal (get c) = None \<Longrightarrow> counts_agree acc (get c)"
begin

lemma threads_inv:
  assumes "inv acc c" and "writer_inv fl acc (get c)" and "market_ops_ok ok ops"
    and "run_threads step recv get put fl ops c = (ms, c')"
  shows "(fatal (get c') = None \<longrightarrow> fatal (get c) = None) \<and>
    (\<exists>new. inv (acc @ new) c' \<and> writer_inv fl (acc @ new) (get c') \<and> (fatal (get c') = None \<longrightarrow> map contents_of new = ms))"
  using assms
proof (induction ops arbitrary: acc c ms)
  case Nil
  then show ?case by (auto intro!: exI [of _ "[]"])
next
  case (Cons op ops)
  show ?case
  proof (cases op)
    case (Inl m)
    obtain new where new: "market_effect new (get c) (get (step m c))" "inv (acc @ new) (step m c)"
      "fatal (get (step m c)) = None \<longrightarrow> map contents_of new = recv m c"
      using step_inv [OF Cons.prems(1), of m] Cons.prems(3) Inl by (auto simp: market_ops_ok_def)
    obtain ms' where ms': "run_threads step recv get put fl ops (step m c) = (ms', c')" "ms = recv m c @ ms'"
      using Cons.prems(4) Inl by (auto split: prod.splits)
    have ok': "market_ops_ok ok ops" using Cons.prems(3) by (simp add: market_ops_ok_def)
    have grow: "fatal (get (step m c)) = None \<longrightarrow> fatal (get c) = None" using new(1) by (auto simp: market_effect_def status_grows_def)
    from Cons.IH [OF new(2) writer_inv_market [OF Cons.prems(2) new(1)] ok' ms'(1)] obtain new' where
      f: "fatal (get c') = None \<longrightarrow> fatal (get (step m c)) = None" and
      r: "inv ((acc @ new) @ new') c'" "writer_inv fl ((acc @ new) @ new') (get c')" "fatal (get c') = None \<longrightarrow> map contents_of new' = ms'"
      by (elim conjE exE) (rule that)
    have "inv (acc @ new @ new') c' \<and> writer_inv fl (acc @ new @ new') (get c') \<and> (fatal (get c') = None \<longrightarrow> map contents_of (new @ new') = ms)"
      using r f new(3) ms'(2) by auto
    then show ?thesis using f grow by (intro conjI) (simp, rule exI [of _ "new @ new'"])
  next
    case (Inr w)
    let ?c = "put (writer_step fl w (get c)) c"
    have ok': "market_ops_ok ok ops" using Cons.prems(3) by (simp add: market_ops_ok_def)
    have "inv acc ?c" by (rule put_inv [OF Cons.prems(1) writer_step_effect])
    moreover have "writer_inv fl acc (get ?c)" using writer_step_inv [OF Cons.prems(2)] by (simp add: get_put)
    ultimately show ?thesis
      using Cons.IH [OF _ _ ok', of acc ?c ms] Cons.prems(4) Inr writer_step_effect [of "get c" fl w] by (auto simp: get_put writer_effect_def)
  qed
qed

text \<open>Both threads have ended without an error: the file holds exactly the accepted messages.\<close>

lemma ended_recording:
  assumes "inv [] c" and "writer_inv fl [] (get c)" and "market_ops_ok ok ops"
    and "run_threads step recv get put fl ops c = (ms, c')" and "sh_writer_done (rt_shared (get c'))" and "fatal (get c') = None"
  shows "\<exists>acc r rd. inv acc c' \<and> map contents_of acc = ms \<and> rt_recorder (get c') = Some r \<and>
    read_all (RawEventReader (Some (os_bytes (rc_output r)))) = (acc, rd) \<and> \<not> has_error rd \<and> indexed_from 0 acc \<and>
    written_of (get c') = written_counts acc"
proof -
  obtain acc where acc: "inv acc c'" "writer_inv fl acc (get c')" "map contents_of acc = ms"
    using threads_inv [OF assms(1-4)] assms(6) by auto
  then obtain old rest where rel: "acc = old @ rest" "writer_rel fl old rest (get c')" by (auto simp: writer_inv_def)
  then obtain r where r: "rest = []" "rt_recorder (get c') = Some r" "os_good (rc_output r)"
    using assms(5,6) by (auto simp: writer_rel_def)
  have rinv: "recorder_inv fl acc r" and w: "written_of (get c') = written_counts acc" using rel r by (auto simp: writer_rel_def)
  obtain rd where "read_all (RawEventReader (Some (os_bytes (rc_output r)))) = (acc, rd)" "\<not> has_error rd"
    using recorder_inv_read [OF rinv] r(3) by auto
  moreover have "indexed_from 0 acc" using rinv by (simp add: recorder_inv_def)
  ultimately show ?thesis using acc r(2) w by blast
qed

lemma ended_complete:
  assumes "inv [] c" and "writer_inv fl [] (get c)" and "market_ops_ok ok ops"
    and "run_threads step recv get put fl ops c = (ms, c')" and "sh_writer_done (rt_shared (get c'))" and "fatal (get c') = None"
  shows "complete_recording ms (get c')"
  using ended_recording [OF assms] inv_counts [OF _ assms(6)] by (auto simp: complete_recording_def)

end

section \<open>Property\<close>

lemma writer_start_draining:
  assumes "rq_closed (rt_queue rt)" and "rt_current rt = None"
  shows "draining (writer_start fs minimum rt) \<and> rq_messages (rt_queue (writer_start fs minimum rt)) = rq_messages (rt_queue rt)"
  using assms by (auto simp: writer_start_def draining_def set_shared_def split: sum.split)

definition good_disk :: open_answers where
  "good_disk = \<lparr>oa_create_directories = Inr (), oa_available = Inr (2 ^ 40), oa_file_exists = False, oa_opens = True, oa_flush = NoFault\<rparr>"

text \<open>C31. The raw writer thread terminates: once the queue is closed, \<open>write_raw\<close> ends after at most one turn of its
  loop more than there are messages waiting, whatever the file system and the stream do; and if
  it reported no fatal error, the file reads back as exactly the messages that were waiting.\<close>

theorem write_raw_terminates:
  assumes "rq_closed q" and "length (rq_messages q) < length turns" and "list_all message_ok (rq_messages q)"
    and "rt = write_raw fl fs minimum turns ((new_runtime config)\<lparr>rt_queue := q\<rparr>)"
  shows "sh_writer_done (rt_shared rt) \<and>
    (fatal rt = None \<longrightarrow> (\<exists>r rd. rt_recorder rt = Some r \<and>
       read_all (RawEventReader (Some (os_bytes (rc_output r)))) = (rq_messages q, rd) \<and> \<not> has_error rd))"
proof -
  let ?rt = "(new_runtime config)\<lparr>rt_queue := q\<rparr>"
  have "writer_inv fl (rq_messages q) ?rt"
    using assms(3) by (auto simp: writer_inv_def writer_rel_def new_runtime_def written_counts_def SharedRuntime_def RuntimeStatus_def waiting_def
        intro!: exI [of _ "[]"])
  then have "writer_inv fl (rq_messages q) (writer_start fs minimum ?rt)"
    by (rule writer_start_inv) (simp_all add: new_runtime_def SharedRuntime_def)
  then have inv: "writer_inv fl (rq_messages q) rt" unfolding assms(4) write_raw_def by (rule writer_turns_inv)
  have ended: "sh_writer_done (rt_shared rt)"
    unfolding assms(4) write_raw_def using writer_start_draining [of ?rt fs minimum] assms(1,2)
    by (intro writer_turns_end) (simp_all add: new_runtime_def)
  obtain ms rest where rel: "rq_messages q = ms @ rest" "writer_rel fl ms rest rt" using inv by (auto simp: writer_inv_def)
  have "\<exists>r rd. rt_recorder rt = Some r \<and> read_all (RawEventReader (Some (os_bytes (rc_output r)))) = (rq_messages q, rd) \<and> \<not> has_error rd"
    if none: "fatal rt = None"
  proof -
    obtain r where r: "rt_recorder rt = Some r" "os_good (rc_output r)" "recorder_inv fl (rq_messages q) r"
      using rel ended none by (auto simp: writer_rel_def)
    then show ?thesis using recorder_inv_read [OF r(3)] by auto
  qed
  then show ?thesis using ended by blast
qed

theorem write_raw_terminates_witness:
  "sh_writer_done (rt_shared (write_raw (\<lambda>_. []) good_disk 0 [((NoFault, NoFault), NoFault, NoFault, NoFault, NoFault), ((NoFault, NoFault), NoFault, NoFault, NoFault, NoFault)]
     ((new_runtime default_queue_config)\<lparr>rt_queue := queue_close (snd (try_push (sample_message ''a'')
        (RawRecordingQueue \<lparr>maximum_messages = 2, maximum_bytes = 4\<rparr>)))\<rparr>)))"
  by (rule write_raw_terminates [THEN conjunct1, OF _ _ _ refl])
    (simp_all add: queue_close_def try_push_def RawRecordingQueue_def sample_message_def message_ok_def int_limits)

end
