(* ===== verification/LiveRuntime.thy ===== *)
theory LiveRuntime
  imports RecordingSession
begin

text \<open>
  The live Coinbase runtime: \<open>src/pipeline/live_runtime.cpp\<close>. The market thread owns the connection
  manager, whose environment is the shared runtime: the envelope sink pushes to the recording
  queue and the publish callback updates the status. The io_context runs one handler at a time,
  so the market thread is a sequence of whole handlers: callbacks of transport and timers,
  errors posted by the writer and the 50 ms tick. The signal flag is an argument of the step
  that reads it.
\<close>

section \<open>Names and the status line\<close>

fun state_name :: "runtime_state \<Rightarrow> string" where
  "state_name Starting = ''Starting''"
| "state_name Running = ''Running''"
| "state_name Stopping = ''Stopping''"
| "state_name Stopped = ''Stopped''"
| "state_name StoppedRecordingError = ''StoppedRecordingError''"
| "state_name StoppedQueueFull = ''StoppedQueueFull''"
| "state_name StoppedProcessingError = ''StoppedProcessingError''"

fun book_name :: "book_state \<Rightarrow> string" where
  "book_name Initializing = ''INITIALIZING''"
| "book_name Valid = ''VALID''"
| "book_name Stale = ''STALE''"
| "book_name Resyncing = ''RESYNCING''"
| "book_name Disconnected = ''DISCONNECTED''"
| "book_name Invalid = ''INVALID''"

definition int_text :: "int \<Rightarrow> string" where
  "int_text i = (if i < 0 then CHR ''-'' # nat_digits (nat (- i)) else nat_digits (nat i))"

definition word_text :: "uint64 \<Rightarrow> string" where
  "word_text w = nat_digits (unat w)"

definition index_text :: "uint64 option \<Rightarrow> string" where
  "index_text value = (case value of None \<Rightarrow> ''NA'' | Some i \<Rightarrow> word_text i)"

definition price_text :: "price_ticks option \<Rightarrow> string" where
  "price_text value = (case value of None \<Rightarrow> ''NA'' | Some p \<Rightarrow> int_text p)"

definition display_status :: "runtime_status \<Rightarrow> string" where
  "display_status s =
     (let p = rs_progress s; tail = unpersisted_processed_range s in
      concat [''runtime='', state_name (rs_runtime_state s),
        '' connection='', if rs_connected s then ''CONNECTED'' else ''DISCONNECTED'',
        '' book='', book_name (rs_book_state s), '' sequence='', index_text (rs_last_sequence s),
        '' best_bid_ticks='', price_text (rs_best_bid s), '' best_ask_ticks='', price_text (rs_best_ask s),
        '' received='', word_text (rs_received_messages s), '' enqueued='', word_text (rs_enqueued_messages s),
        '' written='', word_text (rs_written_messages s), '' processed='', word_text (rs_processed_messages s),
        '' queue_messages='', nat_digits (rs_recording_queue_messages s),
        '' queue_bytes='', word_text (rs_recording_queue_bytes s),
        '' last_received_index='', index_text (rp_last_received_index p),
        '' last_enqueued_index='', index_text (rp_last_enqueued_index p),
        '' last_written_index='', index_text (rp_last_written_index p),
        '' last_processed_index='', index_text (rp_last_processed_index p),
        case rs_fatal_error s of None \<Rightarrow> [] | Some e \<Rightarrow> '' fatal_error='' @ e,
        if tail = [] then [] else CHR '' '' # tail, [CHR 0x0A]])"

section \<open>The callbacks of the manager\<close>

definition live_sink :: "raw_message \<Rightarrow> runtime \<Rightarrow> push_result result \<times> runtime" where
  "live_sink envelope rt = (case try_push envelope (rt_queue rt) of (r, q) \<Rightarrow> (Inr r, rt\<lparr>rt_queue := q\<rparr>))"

definition set_status :: "(runtime_status \<Rightarrow> runtime_status) \<Rightarrow> runtime \<Rightarrow> runtime" where
  "set_status f = set_shared (\<lambda>sh. sh\<lparr>sh_status := f (sh_status sh)\<rparr>)"

text \<open>The fields both publish functions copy from the manager and the queue.\<close>

definition publish_market :: "bool \<Rightarrow> market_state \<Rightarrow> runtime \<Rightarrow> runtime" where
  "publish_market connected market rt =
     set_status (\<lambda>s. s\<lparr>rs_connected := connected, rs_book_state := ob_state (ms_book market),
       rs_bid_levels := length (ob_bids (ms_book market)), rs_ask_levels := length (ob_asks (ms_book market)),
       rs_last_sequence := ms_sequence market,
       rs_best_bid := map_option lv_price (best_bid (ms_book market)),
       rs_best_ask := map_option lv_price (best_ask (ms_book market)),
       rs_recording_queue_messages := message_count (rt_queue rt),
       rs_recording_queue_bytes := payload_bytes (rt_queue rt)\<rparr>) rt"

definition count_message :: "process_result \<Rightarrow> runtime_progress \<Rightarrow> runtime_status \<Rightarrow> runtime_status" where
  "count_message result progress s =
     (let s = s\<lparr>rs_received_messages := rs_received_messages s + 1\<rparr>;
          s = (if pr_outcome result \<noteq> RecordingRejected
               then s\<lparr>rs_enqueued_messages := rs_enqueued_messages s + 1, rs_processed_messages := rs_processed_messages s + 1\<rparr>
               else if rs_fatal_error s = None
               then s\<lparr>rs_fatal_error := Some (pr_error result),
                      rs_runtime_state := (if pr_error result = ''RAW_RECORDING_QUEUE_FULL'' then StoppedQueueFull
                                           else StoppedRecordingError)\<rparr>
               else s)
      in s\<lparr>rs_progress := (rs_progress s)\<lparr>rp_last_received_index := rp_last_received_index progress,
             rp_last_enqueued_index := rp_last_enqueued_index progress,
             rp_last_processed_index := rp_last_processed_index progress\<rparr>\<rparr>)"

definition publish_message :: "bool \<Rightarrow> process_result \<Rightarrow> runtime_progress \<Rightarrow> market_state \<Rightarrow> runtime \<Rightarrow> runtime" where
  "publish_message connected result progress market rt =
     set_status (count_message result progress) (publish_market connected market rt)"

section \<open>The market thread\<close>

record live =
  lv_manager :: "runtime manager"
  lv_begun :: bool
  lv_stopping :: bool
  lv_tick_armed :: bool
  lv_fault_armed :: bool

definition live_runtime :: "live \<Rightarrow> runtime" where
  "live_runtime l = mg_env (lv_manager l)"

definition put_live_runtime :: "runtime \<Rightarrow> live \<Rightarrow> live" where
  "put_live_runtime rt l = l\<lparr>lv_manager := (lv_manager l)\<lparr>mg_env := rt\<rparr>\<rparr>"

definition live_publish :: "live \<Rightarrow> live" where
  "live_publish l = put_live_runtime (publish_market (mg_connected (lv_manager l)) (mg_market (lv_manager l)) (live_runtime l)) l"

text \<open>The observer of lifecycle events appends each of them to the status.\<close>

fun lifecycle_of :: "effect \<Rightarrow> lifecycle_event list" where
  "lifecycle_of (Lifecycle ev) = [ev]"
| "lifecycle_of _ = []"

definition observe_lifecycle :: "runtime manager \<Rightarrow> runtime manager" where
  "observe_lifecycle g = g\<lparr>mg_env := set_status (\<lambda>s. s\<lparr>rs_lifecycle_events := concat (map lifecycle_of (mg_effects g))\<rparr>) (mg_env g)\<rparr>"

definition with_manager :: "(runtime manager \<Rightarrow> runtime manager) \<Rightarrow> live \<Rightarrow> live" where
  "with_manager f l = l\<lparr>lv_manager := observe_lifecycle (f (lv_manager l))\<rparr>"

definition close_queue :: "runtime \<Rightarrow> runtime" where
  "close_queue rt = rt\<lparr>rt_queue := queue_close (rt_queue rt)\<rparr>"

definition live_stop :: "clock \<Rightarrow> string \<Rightarrow> live \<Rightarrow> live" where
  "live_stop clock error l =
     (let l = (if error \<noteq> [] then with_manager (terminal_recording_failure clock error) l
               else if \<not> lv_stopping l then with_manager (manager_stop clock) l else l);
          l = (if \<not> lv_stopping l then put_live_runtime (close_queue (live_runtime l)) (l\<lparr>lv_stopping := True\<rparr>) else l)
      in live_publish l)"

definition live_status :: "live \<Rightarrow> runtime_status" where
  "live_status l = sh_status (rt_shared (live_runtime l))"

definition live_set_state :: "runtime_state \<Rightarrow> live \<Rightarrow> live" where
  "live_set_state st l = put_live_runtime (set_status (\<lambda>s. s\<lparr>rs_runtime_state := st\<rparr>) (live_runtime l)) l"

definition error_text :: "string option \<Rightarrow> string" where
  "error_text e = (case e of None \<Rightarrow> [] | Some s \<Rightarrow> s)"

definition live_tick :: "clock \<Rightarrow> bool \<Rightarrow> live \<Rightarrow> live" where
  "live_tick clock stop_requested l =
     (let fatal_error = rs_fatal_error (live_status l);
          l = (if stop_requested \<or> fatal_error \<noteq> None \<or> mg_terminal (lv_manager l)
               then live_stop clock (error_text fatal_error) l else l);
          l = (if lv_stopping l then l\<lparr>lv_fault_armed := False\<rparr> else l)
      in if lv_stopping l \<and> sh_writer_done (rt_shared (live_runtime l)) then l\<lparr>lv_tick_armed := False\<rparr>
         else
           let l = (if lv_stopping l \<and> rs_fatal_error (live_status l) = None then live_set_state Stopping l else l)
           in (live_publish l)\<lparr>lv_tick_armed := True\<rparr>)"

text \<open>
  From the wait for the writer to the first tick; the wait blocks until the writer has opened its
  file or ended.
\<close>

definition live_begin :: "clock \<Rightarrow> nat \<Rightarrow> bool \<Rightarrow> bool \<Rightarrow> live \<Rightarrow> live" where
  "live_begin clock force_seconds stop_requested stop_at_tick l =
     (let sh = rt_shared (live_runtime l) in
      if lv_begun l \<or> \<not> (sh_writer_ready sh \<or> sh_writer_done sh) then l
      else
        let l = put_live_runtime (set_shared (\<lambda>sh. sh\<lparr>sh_hook := True\<rparr>) (live_runtime l)) (l\<lparr>lv_begun := True\<rparr>);
            l = (case rs_fatal_error (live_status l) of
                   Some e \<Rightarrow> live_stop clock e l
                 | None \<Rightarrow> if stop_requested then live_stop clock [] l
                           else with_manager (manager_start clock) (live_set_state Running l));
            l = l\<lparr>lv_fault_armed := (force_seconds \<noteq> 0 \<and> \<not> lv_stopping l)\<rparr>
        in live_tick clock stop_at_tick l)"

text \<open>An error the writer has posted runs \<open>stop\<close>.\<close>

definition live_posted :: "clock \<Rightarrow> live \<Rightarrow> live" where
  "live_posted clock l =
     (case sh_posted (rt_shared (live_runtime l)) of
        [] \<Rightarrow> l
      | e # es \<Rightarrow> live_stop clock e (put_live_runtime (set_shared (\<lambda>sh. sh\<lparr>sh_posted := es\<rparr>) (live_runtime l)) l))"

definition live_fault :: "clock \<Rightarrow> live \<Rightarrow> live" where
  "live_fault clock l =
     (if lv_fault_armed l then with_manager (force_disconnect_for_test clock) (l\<lparr>lv_fault_armed := False\<rparr>) else l)"

text \<open>The end of the thread, after an exception or after the io_context has run out of work.\<close>

definition market_exit :: "live \<Rightarrow> live" where
  "market_exit l = put_live_runtime
     (set_shared (\<lambda>sh. sh\<lparr>sh_hook := False, sh_market_done := True\<rparr>) (close_queue (live_runtime l))) l"

definition live_exception :: "exn \<Rightarrow> live \<Rightarrow> live" where
  "live_exception e l =
     market_exit (put_live_runtime (set_status (\<lambda>s.
       (if rs_fatal_error s = None
        then s\<lparr>rs_fatal_error := Some (what e), rs_runtime_state := StoppedProcessingError\<rparr> else s)
       \<lparr>rs_connected := False, rs_book_state := Invalid, rs_best_bid := None, rs_best_ask := None\<rparr>) (live_runtime l)) l)"

definition live_end :: "live \<Rightarrow> live" where
  "live_end l = market_exit (live_publish l)"

section \<open>Runs\<close>

datatype live_op = LiveBegin nat bool bool | LiveTick bool | LivePosted | LiveFault | LiveManager manager_op
  | LiveException exn | LiveEnd

text \<open>The handlers the transport and the manager's own timers run.\<close>

fun is_callback :: "manager_op \<Rightarrow> bool" where
  "is_callback (OpMessage _ _ _ _ _) = True"
| "is_callback (OpError _ _) = True"
| "is_callback (OpConnected _) = True"
| "is_callback (OpResume _) = True"
| "is_callback (OpHealthTimer _) = True"
| "is_callback _ = False"

fun live_handler :: "clock \<Rightarrow> live_op \<Rightarrow> live \<Rightarrow> live" where
  "live_handler clock (LiveBegin force_seconds stop_requested stop_at_tick) l =
     live_begin clock force_seconds stop_requested stop_at_tick l"
| "live_handler clock (LiveTick stop_requested) l = (if lv_tick_armed l then live_tick clock stop_requested l else l)"
| "live_handler clock LivePosted l = live_posted clock l"
| "live_handler clock LiveFault l = live_fault clock l"
| "live_handler clock (LiveManager op) l =
     (if is_callback op then with_manager (manager_step live_sink publish_message clock op) l else l)"
| "live_handler clock (LiveException e) l = live_exception e l"
| "live_handler clock LiveEnd l = (if lv_tick_armed l then l else live_end l)"

abbreviation market_done :: "live \<Rightarrow> bool" where
  "market_done l \<equiv> sh_market_done (rt_shared (live_runtime l))"

definition live_step :: "clock \<Rightarrow> live_op \<Rightarrow> live \<Rightarrow> live" where
  "live_step clock op l = (if market_done l then l else live_handler clock op l)"

text \<open>The messages a step hands to the message handler.\<close>

fun live_received :: "live_op \<Rightarrow> live \<Rightarrow> received list" where
  "live_received (LiveManager (OpMessage generation now raw w m)) l =
     (if \<not> market_done l \<and> callback_live generation (lv_manager l) \<and> mg_connected (lv_manager l) then [(raw, w, m)] else [])"
| "live_received _ _ = []"

text \<open>Timestamps are 64 bit integers.\<close>

fun live_op_ok :: "live_op \<Rightarrow> bool" where
  "live_op_ok (LiveManager (OpMessage generation now raw w m)) = (fits_int64 w \<and> fits_int64 m)"
| "live_op_ok _ = True"

definition new_live :: "clock \<Rightarrow> bool \<Rightarrow> raw_queue_config \<Rightarrow> live" where
  "new_live clock capture config =
     (case CoinbaseConnectionManager clock default_health_config capture (new_runtime config) of
        Inr g \<Rightarrow> \<lparr>lv_manager = g, lv_begun = False, lv_stopping = False, lv_tick_armed = False, lv_fault_armed = False\<rparr>)"

text \<open>The main thread after both threads have been joined: final status and exit code.\<close>

definition live_finish :: "runtime \<Rightarrow> runtime" where
  "live_finish rt =
     set_status (\<lambda>s. (if rs_fatal_error s = None then s\<lparr>rs_runtime_state := Stopped\<rparr> else s)
       \<lparr>rs_recording_queue_messages := message_count (rt_queue rt), rs_recording_queue_bytes := payload_bytes (rt_queue rt)\<rparr>) rt"

definition exit_code :: "runtime_status \<Rightarrow> int" where
  "exit_code s = (if rs_fatal_error s = None then 0 else 1)"

definition run_live ::
  "clock \<Rightarrow> bool \<Rightarrow> raw_queue_config \<Rightarrow> (double \<Rightarrow> string) \<Rightarrow> (live_op + writer_op) list \<Rightarrow> received list \<times> live" where
  "run_live clock capture config fl ops =
     (case run_threads (live_step clock) live_received live_runtime put_live_runtime fl ops (new_live clock capture config) of
        (ms, l) \<Rightarrow> (ms, put_live_runtime (live_finish (live_runtime l)) l))"

section \<open>What the handlers do to the runtime\<close>

lemma live_runtime_simps [simp]:
  "live_runtime (put_live_runtime rt l) = rt" "lv_manager (put_live_runtime rt l) = (lv_manager l)\<lparr>mg_env := rt\<rparr>"
  "live_runtime (l\<lparr>lv_stopping := b\<rparr>) = live_runtime l" "live_runtime (l\<lparr>lv_tick_armed := b\<rparr>) = live_runtime l"
  "live_runtime (l\<lparr>lv_fault_armed := b\<rparr>) = live_runtime l" "live_runtime (l\<lparr>lv_begun := b\<rparr>) = live_runtime l"
  by (simp_all add: live_runtime_def put_live_runtime_def)

definition status_frame :: "(runtime_status \<Rightarrow> runtime_status) \<Rightarrow> bool" where
  "status_frame f \<longleftrightarrow> (\<forall>s. rs_written_messages (f s) = rs_written_messages s \<and>
     rp_last_written_index (rs_progress (f s)) = rp_last_written_index (rs_progress s) \<and>
     (rs_fatal_error (f s) = None \<longrightarrow> rs_fatal_error s = None))"

lemma market_effect_status: "status_frame f \<Longrightarrow> market_effect [] rt (set_status f rt)"
  by (simp add: status_frame_def market_effect_def set_status_def set_shared_def status_grows_def)

text \<open>
  The client's share of the invariant: the counters agree with the accepted messages as long as
  there is no fatal error, and the handler numbers the next message correctly unless it will
  never see one.
\<close>

definition handler_agrees :: "raw_message list \<Rightarrow> message_handler \<Rightarrow> bool" where
  "handler_agrees acc h \<longleftrightarrow> (let p = mh_progress h; i = (if acc = [] then None else Some (rm_record_index (last acc))) in
     mh_next_index h = of_nat (length acc) \<and> rp_last_received_index p = i \<and> rp_last_enqueued_index p = i \<and>
     rp_last_processed_index p = i)"

definition client_inv :: "raw_message list \<Rightarrow> runtime manager \<Rightarrow> bool" where
  "client_inv acc g \<longleftrightarrow> (fatal (mg_env g) = None \<longrightarrow> counts_agree acc (mg_env g)) \<and>
     (mg_terminal g \<and> mg_stopping g \<or> handler_agrees acc (mg_handler g))"

text \<open>A step that neither accepts a message nor counts one.\<close>

definition quiet :: "runtime manager \<Rightarrow> runtime manager \<Rightarrow> bool" where
  "quiet g g' \<longleftrightarrow> market_effect [] (mg_env g) (mg_env g') \<and> market_view (mg_env g') = market_view (mg_env g) \<and>
     mg_handler g' = mg_handler g \<and> (mg_terminal g \<and> mg_stopping g \<longrightarrow> mg_terminal g' \<and> mg_stopping g')"

lemma quiet_refl [simp]: "quiet g g"
  by (simp add: quiet_def)

lemma quiet_trans: "quiet g g1 \<Longrightarrow> quiet g1 g2 \<Longrightarrow> quiet g g2"
  using market_effect_trans [of "[]" _ _ "[]"] by (auto simp: quiet_def)

lemma quiet_inv: "quiet g g' \<Longrightarrow> client_inv acc g \<Longrightarrow> client_inv acc g'"
  by (auto simp: quiet_def client_inv_def market_effect_def status_grows_def counts_agree_def)

lemma quiet_control:
  assumes "ct_env (control g') = ct_env (control g)" and "ct_handler (control g') = ct_handler (control g)"
    and "ct_terminal (control g) \<and> ct_stopping (control g) \<longrightarrow> ct_terminal (control g') \<and> ct_stopping (control g')"
  shows "quiet g g'"
  using assms by (simp add: quiet_def control_def)

lemma quiet_start: "quiet g (manager_start clock g)"
  by (rule quiet_control)
    (auto simp: manager_start_def arm_tick_def emit_def control_def begin_connection_def manager_helpers)

lemma quiet_stop: "quiet g (manager_stop clock g)"
  using manager_stop_eq(2) [of g clock] by (cases "mg_stopping g") (auto intro!: quiet_control simp: manager_stop_def control_def)

lemma quiet_recover: "quiet g (recover clock reason st g)"
  using recover_eq(2) [of g clock reason st]
  by (cases "mg_stopping g \<or> mg_recovery_pending g") (auto intro!: quiet_control simp: recover_def control_def)

lemma quiet_terminal: "quiet g (terminal_recording_failure clock e g)"
proof -
  let ?g = "g\<lparr>mg_terminal := True\<rparr>"
  have 1: "quiet g ?g" by (rule quiet_control) (simp_all add: control_def)
  have "quiet (manager_stop clock ?g) (terminal_recording_failure clock e g)"
    by (rule quiet_control) (simp_all add: terminal_recording_failure_def Let_def control_def)
  then show ?thesis using quiet_trans [OF quiet_trans [OF 1 quiet_stop]] by blast
qed

lemma quiet_callbacks:
  "quiet g (force_disconnect_for_test clock g)" "quiet g (on_error clock n reason g)" "quiet g (on_connected clock n g)"
  "quiet g (on_resume clock n g)" "quiet g (check_health clock g)" "quiet g (on_health_timer clock cancelled g)"
proof -
  show "quiet g (force_disconnect_for_test clock g)" "quiet g (on_error clock n reason g)"
    by (simp_all add: force_disconnect_for_test_def on_error_def quiet_recover)
  show "quiet g (on_connected clock n g)"
    using handle_connected_eq(2) [of g clock]
    by (cases "mg_connected g") (auto simp: on_connected_def handle_connected_def intro!: quiet_control simp: control_def)
  show "quiet g (on_resume clock n g)"
    using begin_connection_eq(2) [of g clock]
    by (cases "mg_stopping g") (auto simp: on_resume_def begin_connection_def callback_live_def intro!: quiet_control simp: control_def)
  have read: "quiet g (g\<lparr>mg_reads := n\<rparr>)" for n by (rule quiet_control) (simp_all add: control_def tags_def)
  have tr: "quiet g (transition clock st [] (g\<lparr>mg_reads := n\<rparr>))" for n st by (rule quiet_control) (simp_all add: control_def tags_def)
  have rec: "quiet g (recover clock reason st (g\<lparr>mg_reads := n\<rparr>))" for reason st n
    by (rule quiet_trans [OF read quiet_recover])
  have market: "quiet g (g\<lparr>mg_reads := n, mg_market := m\<rparr>)" for n m by (rule quiet_control) (simp_all add: control_def tags_def)
  have rec': "quiet g (recover clock reason st (g\<lparr>mg_reads := n, mg_market := m\<rparr>))" for reason st n m
    by (rule quiet_trans [OF market quiet_recover])
  show health: "quiet g (check_health clock g)"
    using read tr rec rec' by (auto simp: check_health_def read_clock_def Let_def)
  have "quiet (check_health clock g) (arm_tick (check_health clock g))"
    by (rule quiet_control) (simp_all add: arm_tick_def emit_def control_def)
  then show "quiet g (on_health_timer clock cancelled g)" using quiet_trans [OF health] by (simp add: on_health_timer_def)
qed

section \<open>A message\<close>

lemma count_message_frame: "status_frame (count_message r p)"
  by (auto simp: status_frame_def count_message_def Let_def)

lemma publish_market_effect: "market_effect [] rt (publish_market con s rt)"
  unfolding publish_market_def by (rule market_effect_status) (simp add: status_frame_def)

lemma publish_market_view [simp]:
  "market_view (publish_market con s rt) = market_view rt" "rt_queue (publish_market con s rt) = rt_queue rt"
  "fatal (publish_market con s rt) = fatal rt"
  by (simp_all add: publish_market_def market_view_def set_status_def set_shared_def Let_def)

lemma publish_message_effect: "market_effect [] rt (publish_message con r p s rt)"
  unfolding publish_message_def
  using market_effect_trans [OF publish_market_effect market_effect_status [OF count_message_frame]] by simp

lemma push_effect:
  assumes "try_push m (rt_queue rt) = (r, q)" and "message_ok m"
  shows "market_effect (if r = Accepted then [m] else []) rt (rt\<lparr>rt_queue := q\<rparr>)"
  using assms by (auto simp: market_effect_def try_push_def status_grows_def split: if_splits)

lemma process_not_rejected: "coinbase_process symbols now m s = (Inr r, s') \<Longrightarrow> pr_outcome r \<noteq> RecordingRejected"
proof -
  assume run: "coinbase_process symbols now m s = (Inr r, s')"
  have out: "pr_outcome (fold count_event es ProcessResult\<lparr>pr_canonical_event_count := n\<rparr>) = IgnoredMessage"
    for es n by (simp add: ProcessResult_def)
  show ?thesis using run
    by (auto simp: coinbase_process_def process_fail_def process_accepted_def process_heartbeat_def process_l2_def Let_def out
        ProcessResult_def split: sum.splits if_splits option.splits prod.splits sequence_result.splits bool.splits)
qed

lemma live_handle:
  fixes h payload w m con
  defines "msg \<equiv> handled_envelope h payload w m"
  assumes "coinbase_handle live_sink (publish_message con) now payload w m h s rt = (r, h', s', rt')"
    and "try_push msg (rt_queue rt) = (a, q)"
  shows "rt' = publish_message con r (mh_progress h') s' (rt\<lparr>rt_queue := q\<rparr>) \<and> (pr_outcome r = RecordingRejected \<longleftrightarrow> a \<noteq> Accepted) \<and>
    mh_next_index h' = mh_next_index h + 1 \<and>
    (a = Accepted \<longrightarrow> rp_last_received_index (mh_progress h') = Some (mh_next_index h) \<and>
       rp_last_enqueued_index (mh_progress h') = Some (mh_next_index h) \<and> rp_last_processed_index (mh_progress h') = Some (mh_next_index h))"
proof -
  obtain o' s1 where process: "coinbase_process default_products now msg s = (o', s1)" by fastforce
  have sink: "live_sink msg rt = (Inr a, rt\<lparr>rt_queue := q\<rparr>)" using assms(3) by (simp add: live_sink_def)
  show ?thesis
  proof (cases a)
    case Accepted
    then show ?thesis using assms(2) sink process process_not_rejected [of default_products now msg s]
      by (cases o') (auto simp: coinbase_handle_def try_handle_def msg_def handled_envelope_def Let_def)
  qed (use assms(2) sink in \<open>auto simp: coinbase_handle_def try_handle_def msg_def handled_envelope_def Let_def\<close>)
qed

lemma terminal_stops: "mg_terminal (terminal_recording_failure clock e g) \<and> mg_stopping (terminal_recording_failure clock e g)"
proof -
  let ?g = "g\<lparr>mg_terminal := True\<rparr>"
  have "mg_stopping (manager_stop clock ?g) \<and> mg_terminal (manager_stop clock ?g)"
    using control_dest [OF manager_stop_eq(2) [of ?g clock]] by (cases "mg_stopping g") (auto simp: manager_stop_def control_def)
  then show ?thesis by (simp add: terminal_recording_failure_def Let_def)
qed

lemma handle_message_quiet:
  assumes "mg_connected g"
    and "coinbase_handle sink (publish (mg_connected g)) now raw w m ((mg_handler g)\<lparr>mh_connection_id := mg_connection_id g\<rparr>)
      (mg_market g) (mg_env g) = (r, h, s, env)"
    and "g' = snd (handle_message sink publish clock now raw w m g)"
  shows "quiet (g\<lparr>mg_handler := h, mg_market := s, mg_env := env\<rparr>) g'"
    and "pr_outcome r = RecordingRejected \<Longrightarrow> mg_terminal g' \<and> mg_stopping g'"
proof -
  let ?g = "g\<lparr>mg_handler := h, mg_market := s, mg_env := env\<rparr>"
  define g1 where "g1 = (if ob_state (mg_book ?g) \<noteq> ob_state (mg_book g) then account_time clock (ob_state (mg_book g)) ?g else ?g)"
  have q1: "quiet ?g g1" using account_time_frame(2) [of clock "ob_state (mg_book g)" ?g]
    by (auto simp: g1_def intro!: quiet_control)
  have metrics: "quiet g1 (g1\<lparr>mg_metrics := x\<rparr>)" for x by (rule quiet_control) (simp_all add: control_def)
  have rec: "quiet g1 (recover clock reason st (g1\<lparr>mg_metrics := x\<rparr>))" for reason st x
    by (rule quiet_trans [OF metrics quiet_recover])
  have rcv: "quiet g1 (recovered clock (g1\<lparr>mg_metrics := x\<rparr>))" for x
    by (rule quiet_trans [OF metrics]) (rule quiet_control; simp)
  have g': "g' = snd (if pr_outcome r = RecordingRejected then (False, terminal_recording_failure clock (pr_error r) g1)
     else if pr_error r \<noteq> [] then
       (False, recover clock (pr_error r) Invalid (if pr_error r = ''L2 update before snapshot''
         then g1\<lparr>mg_metrics := (mg_metrics g1)\<lparr>rm_updates_before_snapshot := rm_updates_before_snapshot (mg_metrics g1) + 1\<rparr>\<rparr> else g1))
     else (True, if ob_state (mg_book g) \<noteq> Valid \<and> pr_outcome r = BookUpdated \<and> pr_snapshots r \<noteq> 0
       then recovered clock (g1\<lparr>mg_metrics := (mg_metrics g1)\<lparr>rm_snapshots_received := rm_snapshots_received (mg_metrics g1) + of_nat (pr_snapshots r),
              rm_updates_received := rm_updates_received (mg_metrics g1) + of_nat (pr_updates r)\<rparr>\<rparr>)
       else g1\<lparr>mg_metrics := (mg_metrics g1)\<lparr>rm_snapshots_received := rm_snapshots_received (mg_metrics g1) + of_nat (pr_snapshots r),
              rm_updates_received := rm_updates_received (mg_metrics g1) + of_nat (pr_updates r)\<rparr>\<rparr>))"
    unfolding assms(3) handle_message_def
    by (simp only: Let_def assms(1) assms(2) [unfolded eqTrueI [OF assms(1)]] prod.case g1_def simp_thms if_True if_False)
  have "quiet g1 g'" unfolding g' using quiet_terminal quiet_recover rec metrics rcv by auto
  then show "quiet ?g g'" by (rule quiet_trans [OF q1])
  show "pr_outcome r = RecordingRejected \<Longrightarrow> mg_terminal g' \<and> mg_stopping g'" unfolding g' using terminal_stops by simp
qed

lemma market_view_count_message:
  "market_view (set_status (count_message r p) rt) =
     (let s = sh_status (rt_shared rt); d = (if pr_outcome r = RecordingRejected then 0 else 1) in
      ((rs_received_messages s + 1, rs_enqueued_messages s + d, rs_processed_messages s + d),
       rp_last_received_index p, rp_last_enqueued_index p, rp_last_processed_index p))"
  by (simp add: market_view_def set_status_def set_shared_def count_message_def Let_def)

lemma fatal_count_message:
  "pr_outcome r = RecordingRejected \<Longrightarrow> fatal (set_status (count_message r p) rt) \<noteq> None"
  "pr_outcome r \<noteq> RecordingRejected \<Longrightarrow> fatal (set_status (count_message r p) rt) = fatal rt"
  by (auto simp: set_status_def set_shared_def count_message_def Let_def)

lemma message_step_inv:
  assumes inv: "client_inv acc g" and ok: "fits_int64 w" "fits_int64 m" and con: "mg_connected g" and live: "\<not> mg_stopping g"
    and g': "g' = snd (handle_message live_sink publish_message clock now raw w m g)"
  shows "\<exists>new. market_effect new (mg_env g) (mg_env g') \<and> client_inv (acc @ new) g' \<and>
    (fatal (mg_env g') = None \<longrightarrow> map contents_of new = [(raw, w, m)])"
proof -
  let ?h = "(mg_handler g)\<lparr>mh_connection_id := mg_connection_id g\<rparr>"
  let ?msg = "handled_envelope ?h raw w m"
  obtain r h s env where run: "coinbase_handle live_sink (publish_message (mg_connected g)) now raw w m ?h (mg_market g) (mg_env g) = (r, h, s, env)"
    by (metis prod_cases4)
  obtain a q where push: "try_push ?msg (rt_queue (mg_env g)) = (a, q)" by force
  note H0 = live_handle [OF run push, THEN conjunct1] and H = live_handle [OF run push, THEN conjunct2] and Q = handle_message_quiet [OF con run g']
  let ?g = "g\<lparr>mg_handler := h, mg_market := s, mg_env := env\<rparr>"
  let ?new = "if a = Accepted then [?msg] else []"
  have env: "env = set_status (count_message r (mh_progress h)) (publish_market (mg_connected g) s ((mg_env g)\<lparr>rt_queue := q\<rparr>))"
    using H0 by (simp add: publish_message_def)
  have eff: "market_effect ?new (mg_env g) env"
    using market_effect_trans [OF push_effect [OF push] publish_message_effect] H0 ok by (simp add: message_ok_def handled_envelope_def)
  moreover have "market_effect [] env (mg_env g')" using Q(1) by (simp add: quiet_def)
  ultimately have eff': "market_effect ?new (mg_env g) (mg_env g')" using market_effect_trans [of ?new _ env "[]"] by simp
  have agree: "handler_agrees acc (mg_handler g)" using inv live by (simp add: client_inv_def)
  show ?thesis
  proof (cases "a = Accepted")
    case True
    have idx: "rm_record_index ?msg = of_nat (length acc)" using agree by (simp add: handled_envelope_def handler_agrees_def Let_def)
    have h: "handler_agrees (acc @ [?msg]) h" using H True agree idx by (simp add: handler_agrees_def Let_def handled_envelope_def)
    have f: "fatal env = fatal (mg_env g)" using H True by (simp add: env fatal_count_message)
    have "counts_agree (acc @ [?msg]) env" if "fatal env = None"
    proof -
      have c: "counts_agree acc (mg_env g)" using inv that f by (simp add: client_inv_def)
      have st: "rs_received_messages (sh_status (rt_shared (publish_market b s rt))) = rs_received_messages (sh_status (rt_shared rt))"
        "rs_enqueued_messages (sh_status (rt_shared (publish_market b s rt))) = rs_enqueued_messages (sh_status (rt_shared rt))"
        "rs_processed_messages (sh_status (rt_shared (publish_market b s rt))) = rs_processed_messages (sh_status (rt_shared rt))" for b rt
        by (simp_all add: publish_market_def set_status_def set_shared_def)
      show ?thesis using c H True idx agree
        by (simp add: counts_agree_def env market_view_count_message Let_def st) (simp add: market_view_def handler_agrees_def handled_envelope_def Let_def)
    qed
    then have "client_inv (acc @ [?msg]) ?g" using h by (simp add: client_inv_def)
    then have "client_inv (acc @ [?msg]) g'" by (rule quiet_inv [OF Q(1)])
    then show ?thesis using eff' True by (intro exI [of _ "[?msg]"]) (simp add: contents_of_def handled_envelope_def)
  next
    case False
    then have rej: "pr_outcome r = RecordingRejected" using H by simp
    have "fatal env \<noteq> None" by (simp only: env) (rule fatal_count_message(1) [OF rej])
    then have "fatal (mg_env g') \<noteq> None" using Q(1) by (auto simp: quiet_def market_effect_def status_grows_def)
    then have "client_inv acc g'" using Q(2) [OF rej] by (auto simp: client_inv_def)
    then show ?thesis using eff' False \<open>fatal (mg_env g') \<noteq> None\<close> by (intro exI [of _ "[]"]) simp
  qed
qed

section \<open>The handlers of the market thread\<close>

definition live_inv :: "raw_message list \<Rightarrow> live \<Rightarrow> bool" where
  "live_inv acc l \<longleftrightarrow> client_inv acc (lv_manager l)"

definition live_quiet :: "live \<Rightarrow> live \<Rightarrow> bool" where
  "live_quiet l l' \<longleftrightarrow> quiet (lv_manager l) (lv_manager l')"

lemma live_quiet_refl [simp]: "live_quiet l l"
  by (simp add: live_quiet_def)

lemma live_quiet_trans: "live_quiet l l1 \<Longrightarrow> live_quiet l1 l2 \<Longrightarrow> live_quiet l l2"
  unfolding live_quiet_def by (rule quiet_trans)

lemma live_quiet_flags [simp]:
  "live_quiet l (l'\<lparr>lv_stopping := b\<rparr>) = live_quiet l l'" "live_quiet l (l'\<lparr>lv_tick_armed := b\<rparr>) = live_quiet l l'"
  "live_quiet l (l'\<lparr>lv_fault_armed := b\<rparr>) = live_quiet l l'" "live_quiet l (l'\<lparr>lv_begun := b\<rparr>) = live_quiet l l'"
  by (simp_all add: live_quiet_def)

lemma live_quiet_put:
  assumes "market_effect [] (live_runtime l) rt" and "market_view rt = market_view (live_runtime l)"
  shows "live_quiet l (put_live_runtime rt l)"
  using assms by (simp add: live_quiet_def quiet_def live_runtime_def put_live_runtime_def)

lemma live_quiet_shared:
  assumes "\<And>sh. sh_status (f sh) = sh_status sh \<and> sh_writer_done (f sh) = sh_writer_done sh"
  shows "live_quiet l (put_live_runtime (set_shared f (live_runtime l)) l)"
  using assms by (intro live_quiet_put) (simp_all add: market_effect_def set_shared_def status_grows_def market_view_def)

lemma live_quiet_close: "live_quiet l (put_live_runtime (close_queue (live_runtime l)) l)"
  by (rule live_quiet_put) (simp_all add: close_queue_def market_effect_def status_grows_def market_view_def queue_close_def)

lemma live_quiet_publish: "live_quiet l (live_publish l)"
  unfolding live_publish_def by (intro live_quiet_put publish_market_effect) simp

lemma live_quiet_state: "live_quiet l (live_set_state st l)"
  unfolding live_set_state_def
  by (intro live_quiet_put market_effect_status) (simp_all add: status_frame_def market_view_def set_status_def set_shared_def Let_def)

lemma observe_quiet: "quiet g (observe_lifecycle g)"
  by (simp add: quiet_def observe_lifecycle_def market_effect_def status_grows_def set_status_def set_shared_def market_view_def Let_def)

lemma live_quiet_manager: "quiet (lv_manager l) (f (lv_manager l)) \<Longrightarrow> live_quiet l (with_manager f l)"
  using quiet_trans [OF _ observe_quiet] by (simp add: live_quiet_def with_manager_def)

text \<open>Composition: each rule says what a quiet prefix may be followed by.\<close>

lemma live_quiet_let:
  "live_quiet l a \<Longrightarrow> (\<And>l'. live_quiet l l' \<Longrightarrow> live_quiet l (f l')) \<Longrightarrow> live_quiet l (let l' = a in f l')"
  by (simp add: Let_def)

lemma live_quiet_let_other: "(\<And>x. live_quiet l (f x)) \<Longrightarrow> live_quiet l (let x = a in f x)"
  by (simp add: Let_def)

lemma live_quiet_if: "(c \<Longrightarrow> live_quiet l a) \<Longrightarrow> (\<not> c \<Longrightarrow> live_quiet l b) \<Longrightarrow> live_quiet l (if c then a else b)"
  by simp

lemma live_quiet_flag:
  "live_quiet l l' \<Longrightarrow> live_quiet l (l'\<lparr>lv_stopping := b\<rparr>)" "live_quiet l l' \<Longrightarrow> live_quiet l (l'\<lparr>lv_tick_armed := b\<rparr>)"
  "live_quiet l l' \<Longrightarrow> live_quiet l (l'\<lparr>lv_fault_armed := b\<rparr>)" "live_quiet l l' \<Longrightarrow> live_quiet l (l'\<lparr>lv_begun := b\<rparr>)"
  by simp_all

lemma live_quiet_then:
  "live_quiet l l' \<Longrightarrow> live_quiet l (live_publish l')"
  "live_quiet l l' \<Longrightarrow> live_quiet l (live_set_state st l')"
  "live_quiet l l' \<Longrightarrow> live_quiet l (with_manager (terminal_recording_failure clock e) l')"
  "live_quiet l l' \<Longrightarrow> live_quiet l (with_manager (manager_stop clock) l')"
  "live_quiet l l' \<Longrightarrow> live_quiet l (with_manager (manager_start clock) l')"
  "live_quiet l l' \<Longrightarrow> live_quiet l (with_manager (force_disconnect_for_test clock) l')"
  using live_quiet_trans live_quiet_publish live_quiet_state
    live_quiet_manager [of l' "terminal_recording_failure clock e", OF quiet_terminal]
    live_quiet_manager [of l' "manager_stop clock", OF quiet_stop] live_quiet_manager [of l' "manager_start clock", OF quiet_start]
    live_quiet_manager [of l' "force_disconnect_for_test clock", OF quiet_callbacks(1)]
  by blast+

lemma live_quiet_close_then: "live_quiet l l' \<Longrightarrow> live_quiet l (put_live_runtime (close_queue (live_runtime l')) (l'\<lparr>lv_stopping := b\<rparr>))"
  using quiet_trans live_quiet_close [of "l'\<lparr>lv_stopping := b\<rparr>"] by (simp add: live_quiet_def)

lemma live_quiet_hook_then:
  "live_quiet l l' \<Longrightarrow> live_quiet l (put_live_runtime (set_shared (\<lambda>sh. sh\<lparr>sh_hook := h\<rparr>) (live_runtime l')) (l'\<lparr>lv_begun := b\<rparr>))"
  using quiet_trans live_quiet_shared [of "\<lambda>sh. sh\<lparr>sh_hook := h\<rparr>" "l'\<lparr>lv_begun := b\<rparr>"] by (simp add: live_quiet_def)

lemmas live_quiet_rules = live_quiet_refl live_quiet_let live_quiet_let_other live_quiet_if live_quiet_flag live_quiet_then
  live_quiet_close_then live_quiet_hook_then

lemma live_quiet_stop: "live_quiet l l' \<Longrightarrow> live_quiet l (live_stop clock e l')"
  unfolding live_stop_def by (intro live_quiet_rules)

lemma live_quiet_tick: "live_quiet l l' \<Longrightarrow> live_quiet l (live_tick clock b l')"
  unfolding live_tick_def by (intro live_quiet_rules live_quiet_stop)

lemma live_quiet_begin: "live_quiet l (live_begin clock n b b' l)"
  unfolding live_begin_def
  by (intro live_quiet_rules live_quiet_tick) (auto intro!: live_quiet_rules live_quiet_stop split: option.split)

lemma live_quiet_posted: "live_quiet l (live_posted clock l)"
  using live_quiet_shared [of "\<lambda>sh. sh\<lparr>sh_posted := es\<rparr>" for es] by (auto simp: live_posted_def intro!: live_quiet_stop split: list.split)

lemma live_quiet_exit: "live_quiet l (market_exit l)"
proof -
  let ?l = "put_live_runtime (close_queue (live_runtime l)) l"
  have "live_quiet ?l (put_live_runtime (set_shared (\<lambda>sh. sh\<lparr>sh_hook := False, sh_market_done := True\<rparr>) (live_runtime ?l)) ?l)"
    by (rule live_quiet_shared) simp
  then show ?thesis using live_quiet_trans [OF live_quiet_close] by (simp add: market_exit_def) (simp add: put_live_runtime_def)
qed

lemma live_quiet_exception: "live_quiet l (live_exception e l)"
  unfolding live_exception_def
  by (rule live_quiet_trans [OF live_quiet_put live_quiet_exit], rule market_effect_status)
    (simp_all add: status_frame_def market_view_def set_status_def set_shared_def Let_def)

lemma with_manager_quiet: "quiet (lv_manager l) g \<Longrightarrow> f (lv_manager l) = g \<Longrightarrow> live_quiet l (with_manager f l)"
  by (rule live_quiet_manager) simp

lemma live_step_quiet:
  assumes "live_received op l = []" and "\<not> market_done l"
  shows "live_quiet l (live_handler clock op l)"
proof (cases op)
  case (LiveManager mop)
  have "quiet (lv_manager l) (manager_step live_sink publish_message clock mop (lv_manager l))" if "is_callback mop"
    using assms that LiveManager by (cases mop) (auto simp: quiet_callbacks on_message_def handle_message_def split: if_splits)
  then show ?thesis using LiveManager live_quiet_manager [of l "manager_step live_sink publish_message clock mop"] by simp
qed (auto simp: live_quiet_begin live_quiet_tick live_quiet_posted live_fault_def live_quiet_exception live_end_def
    intro: live_quiet_rules live_quiet_trans [OF live_quiet_publish live_quiet_exit])

lemma live_step_inv:
  assumes "live_inv acc l" and "live_op_ok op"
  shows "\<exists>new. market_effect new (live_runtime l) (live_runtime (live_step clock op l)) \<and> live_inv (acc @ new) (live_step clock op l) \<and>
    (fatal (live_runtime (live_step clock op l)) = None \<longrightarrow> map contents_of new = live_received op l)"
proof (cases "live_received op l = []")
  case True
  then have "live_quiet l (live_step clock op l)" using live_step_quiet by (simp add: live_step_def)
  then show ?thesis using True assms(1) quiet_inv
    by (intro exI [of _ "[]"]) (auto simp: live_inv_def live_quiet_def quiet_def live_runtime_def)
next
  case False
  let ?g = "lv_manager l"
  obtain n now raw w m where op: "op = LiveManager (OpMessage n now raw w m)" and c: "\<not> market_done l" "callback_live n ?g" "mg_connected ?g"
    using False by (cases "(op, l)" rule: live_received.cases) (auto split: if_splits)
  let ?g' = "snd (handle_message live_sink publish_message clock now raw w m ?g)"
  have step: "live_step clock op l = l\<lparr>lv_manager := observe_lifecycle ?g'\<rparr>"
    using op c by (simp add: live_step_def with_manager_def on_message_def)
  have stop: "\<not> mg_stopping ?g" using c by (simp add: callback_live_def)
  obtain new where new: "market_effect new (mg_env ?g) (mg_env ?g')" "client_inv (acc @ new) ?g'"
    "fatal (mg_env ?g') = None \<longrightarrow> map contents_of new = [(raw, w, m)]"
    using message_step_inv [OF _ _ _ c(3) stop refl, of acc w m clock now raw] assms op by (auto simp: live_inv_def)
  have q: "quiet ?g' (observe_lifecycle ?g')" by (rule observe_quiet)
  have "market_effect new (mg_env ?g) (mg_env (observe_lifecycle ?g'))"
    using market_effect_trans [OF new(1), of "[]"] q by (simp add: quiet_def)
  moreover have "fatal (mg_env (observe_lifecycle ?g')) = None \<longrightarrow> fatal (mg_env ?g') = None"
    using q by (auto simp: quiet_def market_effect_def status_grows_def)
  ultimately show ?thesis using quiet_inv [OF q new(2)] new(3) c unfolding step
    by (intro exI [of _ new]) (simp add: op live_inv_def live_runtime_def)
qed

lemma live_put_inv: "live_inv acc l \<Longrightarrow> writer_effect (live_runtime l) rt \<Longrightarrow> live_inv acc (put_live_runtime rt l)"
  by (auto simp: live_inv_def client_inv_def writer_effect_def counts_agree_def live_runtime_def)

interpretation live_threads: recording_client "live_step clock" live_received live_runtime put_live_runtime live_inv live_op_ok for clock
  by unfold_locales (use live_step_inv live_put_inv in \<open>auto simp: live_inv_def client_inv_def live_runtime_def\<close>)

section \<open>Properties\<close>

lemma run_live_start: "live_inv [] (new_live clock capture config)" "writer_inv fl [] (live_runtime (new_live clock capture config))"
proof -
  have "lv_manager (new_live clock capture config) = (case CoinbaseConnectionManager clock default_health_config capture (new_runtime config) of Inr g \<Rightarrow> g)"
    by (simp add: new_live_def CoinbaseConnectionManager_def health_config_ok_def default_health_config_def)
  then have g: "mg_env (lv_manager (new_live clock capture config)) = new_runtime config"
    "mg_handler (lv_manager (new_live clock capture config)) = CoinbaseMessageHandler"
    by (simp_all add: CoinbaseConnectionManager_def health_config_ok_def default_health_config_def)
  show "live_inv [] (new_live clock capture config)"
    by (simp add: live_inv_def client_inv_def g counts_agree_def market_view_def new_runtime_def SharedRuntime_def RuntimeStatus_def
        handler_agrees_def CoinbaseMessageHandler_def)
  show "writer_inv fl [] (live_runtime (new_live clock capture config))" using writer_inv_new by (simp add: live_runtime_def g)
qed

lemma live_finish_fields [simp]:
  "rt_recorder (live_finish rt) = rt_recorder rt" "fatal (live_finish rt) = fatal rt" "market_view (live_finish rt) = market_view rt"
  "written_of (live_finish rt) = written_of rt" "sh_writer_done (rt_shared (live_finish rt)) = sh_writer_done (rt_shared rt)"
  by (simp_all add: live_finish_def set_status_def set_shared_def market_view_def Let_def)

lemma live_finish_complete: "complete_recording ms (live_finish rt) = complete_recording ms rt"
  by (simp add: complete_recording_def counts_agree_def)

text \<open>A small configuration for sample runs.\<close>

definition small_queue :: raw_queue_config where
  "small_queue = \<lparr>maximum_messages = 2, maximum_bytes = 4\<rparr>"

end
