(* ===== verification/LiveRecorded.thy ===== *)
theory LiveRecorded
  imports LiveRuntime
begin

text \<open>The property of a whole Coinbase run, with a run that meets its hypotheses.\<close>

text \<open>One message, a requested stop, and the writer's turns; used by the witness.\<close>

definition sample_live_ops :: "(live_op + writer_op) list" where
  "sample_live_ops = [Inr (OpenFile good_disk (2 ^ 26)), Inl (LiveBegin 0 False False), Inl (LiveManager (OpConnected 1)),
     Inl (LiveManager (OpMessage 1 0 [] 5 7)), Inr (PopNext (NoFault, NoFault)), Inl (LiveTick True),
     Inr (WriteNext (NoFault, NoFault, NoFault, NoFault)), Inr (PopNext (NoFault, NoFault)), Inl (LiveTick True), Inl LiveEnd]"

lemma sample_live_run:
  "case run_live (\<lambda>_. 0) True small_queue (\<lambda>_. []) sample_live_ops of (ms, l) \<Rightarrow>
     ms = [([], 5, 7)] \<and> sh_writer_done (rt_shared (live_runtime l)) \<and> fatal (live_runtime l) = None"
  by code_simp

lemma sample_live_ops_ok: "market_ops_ok live_op_ok sample_live_ops"
  by (simp add: market_ops_ok_def sample_live_ops_def int_limits)

text \<open>C3. Completeness of a live recording, for every interleaving of the market thread (callbacks of the
  transport, timers, posted errors, stop requests, exceptions) with the raw writer thread
  (whatever the disk answers): when the writer has ended and no fatal error was reported, the
  file reads back without error as exactly the messages the handler received, in order, byte for
  byte and numbered 0, 1, 2, and so on; and the received, enqueued, processed and written
  counters and last indices of the final status all agree with it.\<close>

theorem live_recording_complete:
  assumes "run_live clock capture config fl ops = (received, l)" and "market_ops_ok live_op_ok ops"
    and "sh_writer_done (rt_shared (live_runtime l))" and "fatal (live_runtime l) = None"
  shows "\<exists>r ms rd. rt_recorder (live_runtime l) = Some r \<and>
    read_all (RawEventReader (Some (os_bytes (rc_output r)))) = (ms, rd) \<and> \<not> has_error rd \<and>
    map contents_of ms = received \<and> indexed_from 0 ms \<and> counts_agree ms (live_runtime l) \<and>
    written_of (live_runtime l) = written_counts ms"
proof -
  obtain l1 where run: "run_threads (live_step clock) live_received live_runtime put_live_runtime fl ops (new_live clock capture config) = (received, l1)"
    and l: "live_runtime l = live_finish (live_runtime l1)"
    using assms(1) by (auto simp: run_live_def split: prod.splits)
  have "complete_recording received (live_runtime l1)"
    using live_threads.ended_complete [OF run_live_start assms(2) run] assms(3,4) by (simp add: l)
  then show ?thesis using live_finish_complete by (simp add: l complete_recording_def)
qed

theorem live_recording_complete_witness:
  "\<exists>r ms rd. rt_recorder (live_runtime (snd (run_live (\<lambda>_. 0) True small_queue (\<lambda>_. []) sample_live_ops))) = Some r \<and>
    read_all (RawEventReader (Some (os_bytes (rc_output r)))) = (ms, rd) \<and> map contents_of ms = [([], 5, 7)]"
proof -
  obtain l where l: "run_live (\<lambda>_. 0) True small_queue (\<lambda>_. []) sample_live_ops = ([([], 5, 7)], l)"
    "sh_writer_done (rt_shared (live_runtime l))" "fatal (live_runtime l) = None"
    using sample_live_run by (auto split: prod.splits)
  from live_recording_complete [OF l(1) sample_live_ops_ok l(2,3)] show ?thesis by (auto simp: l(1))
qed

end
