(* ===== verification/KrakenReplay.thy ===== *)
theory KrakenReplay
  imports RawEvents KrakenChecked
begin

text \<open>
  The Kraken half of the replay of a recorded session: \<open>sessions::replay\<close> in
  \<open>src/session/session.cpp\<close>, from the construction of the processor to the end of the loop over
  the records. The lifecycle events are those of the manifest, decoded by the validation that
  precedes the loop. The lemmas say how the replay of a growing recording grows, which is what a
  simulation of the live runtime needs.
\<close>

section \<open>Names and lifecycle events\<close>

fun session_book_name :: "book_state \<Rightarrow> string" where
  "session_book_name Initializing = ''INITIALIZING''"
| "session_book_name Valid = ''VALID''"
| "session_book_name Stale = ''STALE''"
| "session_book_name Resyncing = ''RESYNCING''"
| "session_book_name Disconnected = ''DISCONNECTED''"
| "session_book_name Invalid = ''INVALID''"

record lifecycle_entry =
  en_index :: uint64
  en_state :: string
  en_reason :: string

definition transition_json :: "uint64 \<Rightarrow> book_state \<Rightarrow> book_state \<Rightarrow> string \<Rightarrow> json" where
  "transition_json index from_state to_state reason = JObject
     [(''from'', JString (session_book_name from_state)), (''reason'', JString reason), (''record_index'', JUInt index),
      (''to'', JString (session_book_name to_state))]"

text \<open>The contents of a book that are hashed.\<close>

definition levels_json :: "levels \<Rightarrow> json" where
  "levels_json levels = JArray (map (\<lambda>(p, q). JArray [JInt p, JInt q]) levels)"

definition optional_json :: "uint64 option \<Rightarrow> json" where
  "optional_json value = (case value of None \<Rightarrow> JNull | Some v \<Rightarrow> JUInt v)"

definition book_contents :: "uint64 option \<Rightarrow> order_book \<Rightarrow> json" where
  "book_contents book_sequence b = JObject [(''asks'', levels_json (ob_asks b)), (''bids'', levels_json (ob_bids b)),
     (''book_sequence'', optional_json book_sequence), (''state'', JString (session_book_name (ob_state b)))]"

section \<open>The loop\<close>

text \<open>\<open>ry_lifecycle\<close> is the part of the event list from \<open>lifecycle_index\<close> on.\<close>

record kraken_replay =
  ry_processor :: kraken_processor
  ry_outcomes :: "(string, uint64) omap"
  ry_transitions :: "json list"
  ry_connection :: "uint64 option"
  ry_count :: uint64
  ry_lifecycle :: "lifecycle_entry list"

abbreviation ry_state :: "kraken_replay \<Rightarrow> book_state" where
  "ry_state s \<equiv> ob_state (kp_book (ry_processor s))"

definition new_kraken_replay :: "kraken_processor \<Rightarrow> lifecycle_entry list \<Rightarrow> kraken_replay" where
  "new_kraken_replay processor events = \<lparr>ry_processor = processor, ry_outcomes = [], ry_transitions = [],
     ry_connection = None, ry_count = 0, ry_lifecycle = events\<rparr>"

definition kraken_transition :: "book_state \<Rightarrow> string \<Rightarrow> kraken_replay \<Rightarrow> kraken_replay" where
  "kraken_transition before reason s =
     (if before \<noteq> ry_state s
      then s\<lparr>ry_transitions := ry_transitions s @ [transition_json (ry_count s) before (ry_state s) reason]\<rparr> else s)"

definition kraken_replay_event :: "lifecycle_entry \<Rightarrow> kraken_replay \<Rightarrow> kraken_replay" where
  "kraken_replay_event event s =
     kraken_transition (ry_state s) (en_reason event)
       (s\<lparr>ry_processor := (if en_state event = ''STALE'' then kraken_stale
          else if en_state event = ''INVALID'' then kraken_invalidate else kraken_disconnect) (ry_processor s)\<rparr>)"

fun kraken_replay_events :: "lifecycle_entry list \<Rightarrow> kraken_replay \<Rightarrow> kraken_replay" where
  "kraken_replay_events [] s = s\<lparr>ry_lifecycle := []\<rparr>"
| "kraken_replay_events (event # events) s =
     (if en_index event = ry_count s then kraken_replay_events events (kraken_replay_event event s)
      else s\<lparr>ry_lifecycle := event # events\<rparr>)"

definition kraken_apply_lifecycle :: "kraken_replay \<Rightarrow> kraken_replay" where
  "kraken_apply_lifecycle s = kraken_replay_events (ry_lifecycle s) s"

definition kraken_replay_connection :: "uint64 \<Rightarrow> kraken_replay \<Rightarrow> kraken_replay" where
  "kraken_replay_connection connection_id s =
     (if ry_connection s \<noteq> Some connection_id
      then
        let before = ry_state s;
            s = (if ry_connection s \<noteq> None then s\<lparr>ry_processor := kraken_reset_connection (ry_processor s)\<rparr> else s)
        in (kraken_transition before ''new_connection'' s)\<lparr>ry_connection := Some connection_id\<rparr>
      else s)"

definition count_outcome :: "string \<Rightarrow> (string, uint64) omap \<Rightarrow> (string, uint64) omap" where
  "count_outcome outcome outcomes =
     om_insert_or_assign str_less outcome (case om_find outcome outcomes of None \<Rightarrow> 1 | Some n \<Rightarrow> n + 1) outcomes"

definition kraken_replay_message :: "(string \<Rightarrow> uint32) \<Rightarrow> raw_message \<Rightarrow> kraken_replay \<Rightarrow> kraken_replay" where
  "kraken_replay_message crc e s =
     (let before = ry_state s;
          processor = snd (kraken_process crc (rm_payload e) (rm_receive_wall_time e) (rm_receive_monotonic_time e) (ry_processor s));
          s = kraken_transition before (kp_outcome processor) (s\<lparr>ry_processor := processor\<rparr>)
      in s\<lparr>ry_outcomes := count_outcome (kp_outcome processor) (ry_outcomes s), ry_count := ry_count s + 1\<rparr>)"

definition kraken_replay_record :: "(string \<Rightarrow> uint32) \<Rightarrow> raw_message \<Rightarrow> kraken_replay \<Rightarrow> kraken_replay result" where
  "kraken_replay_record crc e s =
     (let s = kraken_apply_lifecycle s in
      if (case ry_connection s of None \<Rightarrow> False | Some connection \<Rightarrow> rm_connection_id e < connection)
      then Inl (RuntimeError ''connection order regression'')
      else Inr (kraken_replay_message crc e (kraken_replay_connection (rm_connection_id e) s)))"

fun kraken_replay_records :: "(string \<Rightarrow> uint32) \<Rightarrow> raw_message list \<Rightarrow> kraken_replay \<Rightarrow> kraken_replay result" where
  "kraken_replay_records crc [] s = Inr (kraken_apply_lifecycle s)"
| "kraken_replay_records crc (e # es) s = bind_exn (kraken_replay_record crc e s) (kraken_replay_records crc es)"

section \<open>A growing recording\<close>

lemma kraken_replay_frame [simp]:
  "ry_lifecycle (kraken_transition b r s) = ry_lifecycle s" "ry_count (kraken_transition b r s) = ry_count s"
  "ry_connection (kraken_transition b r s) = ry_connection s" "ry_processor (kraken_transition b r s) = ry_processor s"
  "ry_outcomes (kraken_transition b r s) = ry_outcomes s"
  "ry_lifecycle (kraken_replay_event e s) = ry_lifecycle s" "ry_count (kraken_replay_event e s) = ry_count s"
  "ry_connection (kraken_replay_event e s) = ry_connection s"
  "ry_lifecycle (kraken_replay_connection i s) = ry_lifecycle s" "ry_count (kraken_replay_connection i s) = ry_count s"
  "ry_connection (kraken_replay_connection i s) = Some i"
  "ry_lifecycle (kraken_replay_message crc m s) = ry_lifecycle s" "ry_count (kraken_replay_message crc m s) = ry_count s + 1"
  "ry_connection (kraken_replay_message crc m s) = ry_connection s"
  by (simp_all add: kraken_transition_def kraken_replay_event_def kraken_replay_connection_def kraken_replay_message_def Let_def)

text \<open>The list of pending events does not influence the rest of a step.\<close>

lemma kraken_transition_pending: "kraken_transition b r (s\<lparr>ry_lifecycle := es\<rparr>) = (kraken_transition b r s)\<lparr>ry_lifecycle := es\<rparr>"
  by (simp add: kraken_transition_def)

lemma kraken_event_pending: "kraken_replay_event e (s\<lparr>ry_lifecycle := es\<rparr>) = (kraken_replay_event e s)\<lparr>ry_lifecycle := es\<rparr>"
  by (simp add: kraken_replay_event_def kraken_transition_def)

lemma kraken_connection_pending:
  "kraken_replay_connection i (s\<lparr>ry_lifecycle := es\<rparr>) = (kraken_replay_connection i s)\<lparr>ry_lifecycle := es\<rparr>"
  by (simp add: kraken_replay_connection_def kraken_transition_def Let_def)

lemma kraken_message_pending:
  "kraken_replay_message crc m (s\<lparr>ry_lifecycle := es\<rparr>) = (kraken_replay_message crc m s)\<lparr>ry_lifecycle := es\<rparr>"
  by (simp add: kraken_replay_message_def kraken_transition_def Let_def)

lemma kraken_events_pending: "kraken_replay_events evs (s\<lparr>ry_lifecycle := es\<rparr>) = kraken_replay_events evs s"
  by (induction evs arbitrary: s) (simp_all add: kraken_event_pending)

lemma kraken_events_frame [simp]:
  "ry_count (kraken_replay_events evs s) = ry_count s" "ry_connection (kraken_replay_events evs s) = ry_connection s"
  by (induction evs arbitrary: s) simp_all

lemma kraken_events_append:
  "kraken_replay_events (evs @ [e]) s =
     (let t = kraken_replay_events evs s in
      if ry_lifecycle t = [] then kraken_replay_events [e] t else t\<lparr>ry_lifecycle := ry_lifecycle t @ [e]\<rparr>)"
  by (induction evs arbitrary: s) (simp_all add: Let_def kraken_event_pending)

lemma kraken_apply_lifecycle_frame [simp]:
  "ry_count (kraken_apply_lifecycle s) = ry_count s" "ry_connection (kraken_apply_lifecycle s) = ry_connection s"
  by (simp_all add: kraken_apply_lifecycle_def)

lemma kraken_apply_lifecycle_Nil: "ry_lifecycle s = [] \<Longrightarrow> kraken_apply_lifecycle s = s"
  by (simp add: kraken_apply_lifecycle_def)

text \<open>An event whose index is not the current one stays pending.\<close>

lemma kraken_apply_lifecycle_later:
  assumes "en_index e \<noteq> ry_count s"
  shows "kraken_apply_lifecycle (s\<lparr>ry_lifecycle := evs @ [e]\<rparr>) =
    (kraken_apply_lifecycle (s\<lparr>ry_lifecycle := evs\<rparr>))\<lparr>ry_lifecycle := ry_lifecycle (kraken_apply_lifecycle (s\<lparr>ry_lifecycle := evs\<rparr>)) @ [e]\<rparr>"
  using assms by (simp add: kraken_apply_lifecycle_def kraken_events_pending kraken_events_append Let_def)

lemma same_pending: "s\<lparr>ry_lifecycle := ry_lifecycle s\<rparr> = s"
  by simp

lemma kraken_replay_later_event:
  assumes "kraken_replay_records crc ms (s\<lparr>ry_lifecycle := evs\<rparr>) = Inr t" and "ry_lifecycle t = []"
    and "\<forall>i < length ms. en_index e \<noteq> ry_count s + of_nat i"
  shows "kraken_replay_records crc ms (s\<lparr>ry_lifecycle := evs @ [e]\<rparr>) = Inr (kraken_replay_events [e] t)"
  using assms
proof (induction ms arbitrary: s evs)
  case Nil
  then show ?case by (auto simp: kraken_apply_lifecycle_def kraken_events_pending kraken_events_append Let_def)
next
  case (Cons m ms)
  let ?a = "kraken_apply_lifecycle (s\<lparr>ry_lifecycle := evs\<rparr>)"
  let ?b = "kraken_replay_message crc m (kraken_replay_connection (rm_connection_id m) ?a)"
  have later: "kraken_apply_lifecycle (s\<lparr>ry_lifecycle := evs @ [e]\<rparr>) = ?a\<lparr>ry_lifecycle := ry_lifecycle ?a @ [e]\<rparr>"
    using Cons.prems(3) by (intro kraken_apply_lifecycle_later) force
  have idx: "\<forall>i < length ms. en_index e \<noteq> ry_count ?b + of_nat i"
    using Cons.prems(3) by (auto simp: ac_simps dest: spec [of _ "Suc _"])
  have "kraken_replay_records crc ms (?b\<lparr>ry_lifecycle := ry_lifecycle ?b\<rparr>) = Inr t"
    unfolding same_pending using Cons.prems(1) by (auto simp: kraken_replay_record_def Let_def bind_exn_def split: if_splits)
  from Cons.IH [OF this Cons.prems(2) idx] show ?case
    using Cons.prems(1)
    by (auto simp: kraken_replay_record_def Let_def later kraken_connection_pending kraken_message_pending bind_exn_def split: if_splits)
qed

text \<open>The next record, when every event so far has been applied.\<close>

lemma kraken_replay_next_record:
  assumes "kraken_replay_records crc ms s = Inr t" and "ry_lifecycle t = []"
    and "\<not> (case ry_connection t of None \<Rightarrow> False | Some c \<Rightarrow> rm_connection_id m < c)"
  shows "kraken_replay_records crc (ms @ [m]) s = Inr (kraken_replay_message crc m (kraken_replay_connection (rm_connection_id m) t))"
  using assms
proof (induction ms arbitrary: s)
  case Nil
  then have "t = kraken_apply_lifecycle s" by simp
  then show ?case using Nil by (simp add: kraken_replay_record_def kraken_apply_lifecycle_Nil Let_def bind_exn_def)
next
  case (Cons x ms)
  then show ?case by (auto simp: bind_exn_def split: sum.splits)
qed

end
