(* ===== verification/KrakenRuntime.thy ===== *)
theory KrakenRuntime
  imports LiveRuntime KrakenReplay
begin

text \<open>
  The Kraken runtime: \<open>src/pipeline/kraken_runtime.cpp\<close>. The variables of the market thread are
  one record; each of its handlers is one function, a whole step of the io_context. The values of
  the monotonic clock and the signal flag are arguments of the handler that reads them, and so is
  an error the client reports before its \<open>connect\<close> returns. \<open>crc\<close> is the checksum function of
  the book processor and \<open>sha\<close> the hexadecimal SHA-256 digest.
\<close>

section \<open>The market thread\<close>

record kraken_live =
  kl_processor :: kraken_processor
  kl_runtime :: runtime
  kl_client :: bool
  kl_aborted :: bool
  kl_backoff :: reconnect_policy
  kl_retry :: "int option"
  kl_tick_armed :: bool
  kl_begun :: bool
  kl_index :: uint64
  kl_connection :: uint64
  kl_stopping :: bool
  kl_recovering :: bool
  kl_connected :: bool
  kl_first_record :: bool
  kl_seen_record :: bool
  kl_forced :: bool
  kl_started :: int
  kl_connected_at :: int
  kl_checksum :: uint32
  kl_final_metrics :: "(string, uint64) omap"
  kl_final_book_hash :: string
  kl_duration :: int
  kl_force_seconds :: int

definition new_kraken_live :: "nat \<Rightarrow> int \<Rightarrow> int \<Rightarrow> raw_queue_config \<Rightarrow> int \<Rightarrow> kraken_live result" where
  "new_kraken_live depth duration force_seconds config started =
     bind_exn (KrakenBookProcessor depth) (\<lambda>processor.
       Inr \<lparr>kl_processor = processor, kl_runtime = new_runtime config, kl_client = False, kl_aborted = False,
         kl_backoff = ReconnectPolicy, kl_retry = None, kl_tick_armed = False, kl_begun = False, kl_index = 0, kl_connection = 0,
         kl_stopping = False, kl_recovering = False, kl_connected = False, kl_first_record = True,
         kl_seen_record = False, kl_forced = False, kl_started = started, kl_connected_at = started,
         kl_checksum = 0, kl_final_metrics = [],
         kl_final_book_hash = [], kl_duration = duration, kl_force_seconds = force_seconds\<rparr>)"

abbreviation kl_book :: "kraken_live \<Rightarrow> order_book" where
  "kl_book k \<equiv> kp_book (kl_processor k)"

definition kl_status :: "kraken_live \<Rightarrow> runtime_status" where
  "kl_status k = sh_status (rt_shared (kl_runtime k))"

definition kl_set_status :: "(runtime_status \<Rightarrow> runtime_status) \<Rightarrow> kraken_live \<Rightarrow> kraken_live" where
  "kl_set_status f k = k\<lparr>kl_runtime := set_status f (kl_runtime k)\<rparr>"

definition with_processor :: "(kraken_processor \<Rightarrow> kraken_processor) \<Rightarrow> kraken_live \<Rightarrow> kraken_live" where
  "with_processor f k = k\<lparr>kl_processor := f (kl_processor k)\<rparr>"

definition kraken_publish :: "kraken_live \<Rightarrow> kraken_live" where
  "kraken_publish k =
     (let b = kl_book k in
      (kl_set_status (\<lambda>s. s\<lparr>rs_connected := kl_connected k, rs_book_state := ob_state b,
         rs_bid_levels := length (ob_bids b), rs_ask_levels := length (ob_asks b),
         rs_best_bid := map_option lv_price (best_bid b), rs_best_ask := map_option lv_price (best_ask b)\<rparr>) k)
      \<lparr>kl_checksum := kp_checksum (kl_processor k), kl_final_metrics := kp_metrics (kl_processor k)\<rparr>)"

definition abort_client :: "kraken_live \<Rightarrow> kraken_live" where
  "abort_client k = (if kl_client k then k\<lparr>kl_aborted := True\<rparr> else k)"

definition kraken_stop :: "kraken_live \<Rightarrow> kraken_live" where
  "kraken_stop k =
     (let k = abort_client (k\<lparr>kl_stopping := True, kl_connected := False\<rparr>)
      in k\<lparr>kl_retry := None, kl_runtime := close_queue (kl_runtime k)\<rparr>)"

definition push_lifecycle :: "lifecycle_event \<Rightarrow> runtime_status \<Rightarrow> runtime_status" where
  "push_lifecycle ev s = s\<lparr>rs_lifecycle_events := rs_lifecycle_events s @ [ev]\<rparr>"

definition kraken_recover :: "string \<Rightarrow> bool \<Rightarrow> kraken_live \<Rightarrow> kraken_live" where
  "kraken_recover reason stale k =
     (if kl_stopping k \<or> kl_recovering k then k
      else
        let k = k\<lparr>kl_recovering := True, kl_connected := False\<rparr>;
            k = with_processor (if stale then kraken_stale else kraken_disconnect) k;
            k = kl_set_status (push_lifecycle \<lparr>le_before_record_index = kl_index k, le_state = ob_state (kl_book k), le_reason = reason\<rparr>) k;
            k = abort_client k;
            (delay, backoff) = next_delay (kl_backoff k);
            k = k\<lparr>kl_retry := Some delay, kl_backoff := backoff\<rparr>
        in kraken_publish k)"

definition kraken_connect :: "int \<Rightarrow> string option \<Rightarrow> kraken_live \<Rightarrow> kraken_live" where
  "kraken_connect now failure k =
     (let k = k\<lparr>kl_recovering := False, kl_first_record := True, kl_connection := kl_connection k + 1, kl_connected_at := now,
                kl_client := True, kl_aborted := False\<rparr>
      in case failure of None \<Rightarrow> k | Some error \<Rightarrow> kraken_recover error False k)"

text \<open>The message callback: the push and its count, then the processing.\<close>

definition kraken_envelope :: "string \<Rightarrow> receive_wall_timestamp \<Rightarrow> receive_monotonic_timestamp \<Rightarrow> kraken_live \<Rightarrow> raw_message" where
  "kraken_envelope payload wall monotonic k = \<lparr>rm_record_index = kl_index k, rm_venue = Kraken, rm_connection_id = kl_connection k,
     rm_receive_wall_time = wall, rm_receive_monotonic_time = monotonic, rm_payload = payload\<rparr>"

definition count_push :: "uint64 \<Rightarrow> bool \<Rightarrow> runtime_status \<Rightarrow> runtime_status" where
  "count_push index accepted s =
     (let s = s\<lparr>rs_received_messages := rs_received_messages s + 1,
                rs_progress := (rs_progress s)\<lparr>rp_last_received_index := Some index\<rparr>\<rparr>
      in if \<not> accepted
         then (if rs_fatal_error s = None
               then s\<lparr>rs_fatal_error := Some ''RAW_RECORDING_QUEUE_FULL'', rs_runtime_state := StoppedQueueFull\<rparr> else s)
         else s\<lparr>rs_enqueued_messages := rs_enqueued_messages s + 1,
                rs_progress := (rs_progress s)\<lparr>rp_last_enqueued_index := Some index\<rparr>\<rparr>)"

definition count_processed :: "uint64 \<Rightarrow> runtime_status \<Rightarrow> runtime_status" where
  "count_processed index s = s\<lparr>rs_processed_messages := rs_processed_messages s + 1,
     rs_progress := (rs_progress s)\<lparr>rp_last_processed_index := Some index\<rparr>\<rparr>"

definition begin_record :: "kraken_live \<Rightarrow> kraken_live" where
  "begin_record k =
     (if kl_first_record k
      then (if kl_seen_record k then with_processor kraken_reset_connection k else k)\<lparr>kl_first_record := False, kl_seen_record := True\<rparr>
      else k)"

definition process_record ::
  "(string \<Rightarrow> uint32) \<Rightarrow> string \<Rightarrow> receive_wall_timestamp \<Rightarrow> receive_monotonic_timestamp \<Rightarrow> kraken_live \<Rightarrow> bool \<times> kraken_live" where
  "process_record crc payload wall monotonic k =
     (let k = begin_record k;
          (ok, processor) = kraken_process crc payload wall monotonic (kl_processor k);
          k = kl_set_status (count_processed (kl_index k)) (k\<lparr>kl_processor := processor\<rparr>);
          k = kraken_publish (k\<lparr>kl_index := kl_index k + 1\<rparr>)
      in (ok, if \<not> ok then kraken_recover (if kp_error processor = [] then kp_outcome processor else kp_error processor) False k
              else if ob_state (kp_book processor) = Valid then k\<lparr>kl_backoff := policy_reset (kl_backoff k)\<rparr> else k))"

definition kraken_on_message ::
  "(string \<Rightarrow> uint32) \<Rightarrow> string \<Rightarrow> receive_wall_timestamp \<Rightarrow> receive_monotonic_timestamp \<Rightarrow> kraken_live \<Rightarrow> bool \<times> kraken_live" where
  "kraken_on_message crc payload wall monotonic k =
     (if kl_stopping k then (False, k)
      else
        let e = kraken_envelope payload wall monotonic k;
            (accepted, queue) = try_push e (rt_queue (kl_runtime k));
            k = k\<lparr>kl_runtime := (kl_runtime k)\<lparr>rt_queue := queue\<rparr>\<rparr>;
            k = kl_set_status (count_push (kl_index k) (accepted = Accepted)) k
        in if accepted \<noteq> Accepted then (False, kraken_publish (kraken_stop (with_processor kraken_invalidate k)))
           else process_record crc payload wall monotonic k)"

definition kraken_on_connected :: "int \<Rightarrow> kraken_live \<Rightarrow> kraken_live" where
  "kraken_on_connected now k = k\<lparr>kl_connected := True, kl_connected_at := now\<rparr>"

definition kraken_on_retry :: "int \<Rightarrow> string option \<Rightarrow> kraken_live \<Rightarrow> kraken_live" where
  "kraken_on_retry now failure k =
     (case kl_retry k of None \<Rightarrow> k
      | Some _ \<Rightarrow> if kl_stopping k then k\<lparr>kl_retry := None\<rparr> else kraken_connect now failure (k\<lparr>kl_retry := None\<rparr>))"

text \<open>The checks of a tick on a live connection.\<close>

definition kraken_forced :: "int \<Rightarrow> kraken_live \<Rightarrow> kraken_live" where
  "kraken_forced t k =
     (if \<not> kl_recovering k \<and> kl_force_seconds k \<noteq> 0 \<and> \<not> kl_forced k \<and> t - kl_started k \<ge> kl_force_seconds k * 1000000000
      then kraken_recover ''forced_disconnect'' False (k\<lparr>kl_forced := True\<rparr>) else k)"

definition kraken_timeouts :: "int \<Rightarrow> kraken_live \<Rightarrow> kraken_live" where
  "kraken_timeouts t k =
     (if kl_connected k \<and> \<not> kl_recovering k
      then
        let lst = (if kl_first_record k then kl_connected_at k
                   else case kp_last_message (kl_processor k) of None \<Rightarrow> kl_connected_at k | Some m \<Rightarrow> m)
        in if t - lst > 5000000000 then kraken_recover ''message_timeout'' True k
           else if ob_state (kl_book k) \<noteq> Valid \<and> t - kl_connected_at k > 15000000000
           then kraken_recover ''snapshot_timeout'' False k
           else k
      else k)"

definition kraken_tick :: "int \<Rightarrow> bool \<Rightarrow> kraken_live \<Rightarrow> kraken_live" where
  "kraken_tick t stop_requested k =
     (let fatal_error = rs_fatal_error (kl_status k);
          k = (if fatal_error \<noteq> None then with_processor kraken_invalidate k else k);
          k = (if stop_requested \<or> fatal_error \<noteq> None \<or> (kl_duration k \<noteq> 0 \<and> t - kl_started k \<ge> kl_duration k * 1000000000)
               then kraken_stop k else k)
      in if kl_stopping k then (kraken_publish k)\<lparr>kl_tick_armed := False\<rparr>
         else (kraken_publish (kraken_timeouts t (kraken_forced t k)))\<lparr>kl_tick_armed := True\<rparr>)"

text \<open>The wait for the writer blocks until it has opened its file or ended.\<close>

definition kraken_begin :: "int \<Rightarrow> string option \<Rightarrow> int \<Rightarrow> bool \<Rightarrow> kraken_live \<Rightarrow> kraken_live" where
  "kraken_begin now failure t stop_requested k =
     (let sh = rt_shared (kl_runtime k) in
      if kl_begun k \<or> \<not> (sh_writer_ready sh \<or> sh_writer_done sh) then k
      else
        let k = k\<lparr>kl_begun := True\<rparr>;
            k = (if rs_fatal_error (kl_status k) \<noteq> None then kraken_stop k
                 else kraken_connect now failure (kl_set_status (\<lambda>s. s\<lparr>rs_runtime_state := Running\<rparr>) k))
        in kraken_tick t stop_requested k)"

text \<open>After the io_context has run out of work: the final book and its digest.\<close>

definition final_state_name :: "book_state \<Rightarrow> string" where
  "final_state_name s = (if s = Valid then ''VALID'' else if s = Initializing then ''INITIALIZING''
     else if s = Disconnected then ''DISCONNECTED'' else if s = Stale then ''STALE'' else ''INVALID'')"

definition kraken_contents :: "order_book \<Rightarrow> json" where
  "kraken_contents b = JObject [(''asks'', levels_json (ob_asks b)), (''bids'', levels_json (ob_bids b)),
     (''book_sequence'', JNull), (''state'', JString (final_state_name (ob_state b)))]"

definition kraken_market_exit :: "kraken_live \<Rightarrow> kraken_live" where
  "kraken_market_exit k =
     k\<lparr>kl_runtime := set_shared (\<lambda>sh. sh\<lparr>sh_market_done := True\<rparr>) (close_queue (kl_runtime k))\<rparr>"

definition kraken_exception :: "exn \<Rightarrow> kraken_live \<Rightarrow> kraken_live" where
  "kraken_exception e k =
     kraken_market_exit (kl_set_status (\<lambda>s. s\<lparr>rs_fatal_error := Some (what e), rs_runtime_state := StoppedProcessingError,
       rs_book_state := Invalid\<rparr>) k)"

definition kraken_end :: "(double \<Rightarrow> string) \<Rightarrow> (string \<Rightarrow> string) \<Rightarrow> kraken_live \<Rightarrow> kraken_live" where
  "kraken_end fl sha k =
     (let k = kraken_publish k in
      case json_dump fl None (kraken_contents (kl_book k)) of
        Inl e \<Rightarrow> kraken_exception e k
      | Inr text \<Rightarrow> kraken_market_exit (k\<lparr>kl_final_book_hash := sha text\<rparr>))"

section \<open>Runs\<close>

datatype kraken_live_op = KrakenBegin int "string option" int bool | KrakenTick int bool
  | KrakenMessage string receive_wall_timestamp receive_monotonic_timestamp | KrakenError string
  | KrakenConnected int | KrakenRetry int "string option" | KrakenException exn | KrakenEnd

text \<open>
  A client delivers messages and its connection only while it has not been aborted; the error of
  a closing handshake may come later, even from a client that has been replaced.
\<close>

fun kraken_handler ::
  "(double \<Rightarrow> string) \<Rightarrow> (string \<Rightarrow> string) \<Rightarrow> (string \<Rightarrow> uint32) \<Rightarrow> kraken_live_op \<Rightarrow> kraken_live \<Rightarrow> kraken_live" where
  "kraken_handler fl sha crc (KrakenBegin now failure t stop_requested) k = kraken_begin now failure t stop_requested k"
| "kraken_handler fl sha crc (KrakenTick t stop_requested) k = (if kl_tick_armed k then kraken_tick t stop_requested k else k)"
| "kraken_handler fl sha crc (KrakenMessage payload wall monotonic) k =
     (if kl_client k \<and> \<not> kl_aborted k then snd (kraken_on_message crc payload wall monotonic k) else k)"
| "kraken_handler fl sha crc (KrakenError error) k = (if kl_client k then kraken_recover error False k else k)"
| "kraken_handler fl sha crc (KrakenConnected now) k = (if kl_client k \<and> \<not> kl_aborted k then kraken_on_connected now k else k)"
| "kraken_handler fl sha crc (KrakenRetry now failure) k = kraken_on_retry now failure k"
| "kraken_handler fl sha crc (KrakenException e) k = kraken_exception e k"
| "kraken_handler fl sha crc KrakenEnd k = (if \<not> kl_begun k \<or> kl_tick_armed k then k else kraken_end fl sha k)"

abbreviation kl_done :: "kraken_live \<Rightarrow> bool" where
  "kl_done k \<equiv> sh_market_done (rt_shared (kl_runtime k))"

definition kraken_live_step ::
  "(double \<Rightarrow> string) \<Rightarrow> (string \<Rightarrow> string) \<Rightarrow> (string \<Rightarrow> uint32) \<Rightarrow> kraken_live_op \<Rightarrow> kraken_live \<Rightarrow> kraken_live" where
  "kraken_live_step fl sha crc op k = (if kl_done k then k else kraken_handler fl sha crc op k)"

fun kraken_received :: "kraken_live_op \<Rightarrow> kraken_live \<Rightarrow> received list" where
  "kraken_received (KrakenMessage payload wall monotonic) k =
     (if \<not> kl_done k \<and> kl_client k \<and> \<not> kl_aborted k \<and> \<not> kl_stopping k then [(payload, wall, monotonic)] else [])"
| "kraken_received _ _ = []"

fun kraken_op_ok :: "kraken_live_op \<Rightarrow> bool" where
  "kraken_op_ok (KrakenMessage payload wall monotonic) = (fits_int64 wall \<and> fits_int64 monotonic)"
| "kraken_op_ok _ = True"

definition put_kraken_runtime :: "runtime \<Rightarrow> kraken_live \<Rightarrow> kraken_live" where
  "put_kraken_runtime rt k = k\<lparr>kl_runtime := rt\<rparr>"

text \<open>The line the main thread prints every second.\<close>

definition shown_state_name :: "book_state \<Rightarrow> string" where
  "shown_state_name s = (if s = Valid then ''VALID'' else if s = Stale then ''STALE''
     else if s = Initializing then ''INITIALIZING'' else ''INVALID'')"

definition kraken_display :: "kraken_live \<Rightarrow> string" where
  "kraken_display k =
     (let s = kl_status k in
      concat [''venue=kraken instrument=BTC_USD book='', shown_state_name (rs_book_state s),
        '' checksum='', nat_digits (unat (kl_checksum k)), '' checksum_failures='',
        word_text (case om_find ''kraken_checksum_failures'' (kl_final_metrics k) of None \<Rightarrow> 0 | Some n \<Rightarrow> n),
        '' best_bid='', price_text (rs_best_bid s), '' best_ask='', price_text (rs_best_ask s),
        '' bid_levels='', nat_digits (rs_bid_levels s), '' ask_levels='', nat_digits (rs_ask_levels s), [CHR 0x0A]])"

text \<open>The main thread after both threads have been joined.\<close>

definition kraken_finish :: "kraken_live \<Rightarrow> kraken_live" where
  "kraken_finish k = kl_set_status (\<lambda>s. if rs_fatal_error s = None then s\<lparr>rs_runtime_state := Stopped\<rparr> else s) k"

definition run_kraken ::
  "(double \<Rightarrow> string) \<Rightarrow> (string \<Rightarrow> string) \<Rightarrow> (string \<Rightarrow> uint32) \<Rightarrow> nat \<Rightarrow> int \<Rightarrow> int \<Rightarrow> raw_queue_config \<Rightarrow> int \<Rightarrow>
   (kraken_live_op + writer_op) list \<Rightarrow> (received list \<times> kraken_live) result" where
  "run_kraken fl sha crc depth duration force_seconds config started ops =
     bind_exn (new_kraken_live depth duration force_seconds config started) (\<lambda>k.
       case run_threads (kraken_live_step fl sha crc) kraken_received kl_runtime put_kraken_runtime fl ops k of
         (ms, k) \<Rightarrow> Inr (ms, kraken_finish k))"

section \<open>What the handlers do to the runtime\<close>

lemma kl_set_status_simps [simp]:
  "kl_runtime (kl_set_status f k) = set_status f (kl_runtime k)" "kl_processor (kl_set_status f k) = kl_processor k"
  "kl_index (kl_set_status f k) = kl_index k" "kl_client (kl_set_status f k) = kl_client k"
  "kl_begun (kl_set_status f k) = kl_begun k" "kl_connection (kl_set_status f k) = kl_connection k"
  "kl_retry (kl_set_status f k) = kl_retry k" "kl_first_record (kl_set_status f k) = kl_first_record k"
  "kl_seen_record (kl_set_status f k) = kl_seen_record k" "kl_stopping (kl_set_status f k) = kl_stopping k"
  "kl_recovering (kl_set_status f k) = kl_recovering k" "kl_tick_armed (kl_set_status f k) = kl_tick_armed k"
  by (simp_all add: kl_set_status_def)

lemma set_status_simps [simp]:
  "sh_status (rt_shared (set_status f rt)) = f (sh_status (rt_shared rt))" "rt_queue (set_status f rt) = rt_queue rt"
  "sh_market_done (rt_shared (set_status f rt)) = sh_market_done (rt_shared rt)"
  by (simp_all add: set_status_def set_shared_def)

lemma kl_effects:
  "market_effect [] rt (kl_runtime k) \<Longrightarrow> market_effect [] rt (kl_runtime (kraken_publish k))"
  "market_effect [] rt (kl_runtime k) \<Longrightarrow> market_effect [] rt (kl_runtime (kraken_stop k))"
  "market_effect [] rt (kl_runtime k) \<Longrightarrow> market_effect [] rt (kl_runtime (kraken_recover reason st k))"
  "market_effect [] rt (kl_runtime k) \<Longrightarrow> market_effect [] rt (kl_runtime (kraken_market_exit k))"
proof -
  note trans = market_effect_trans [of "[]" rt _ "[]", simplified]
  have 1: "market_effect [] rt (kl_runtime (kraken_publish k))" if "market_effect [] rt (kl_runtime k)" for k
    unfolding kraken_publish_def Let_def by (simp, rule trans [OF that market_effect_status]) (simp add: status_frame_def)
  have close: "market_effect [] rt' (close_queue rt')" for rt'
    by (simp add: close_queue_def market_effect_def status_grows_def queue_close_def)
  show "market_effect [] rt (kl_runtime k) \<Longrightarrow> market_effect [] rt (kl_runtime (kraken_publish k))" by (rule 1)
  show "market_effect [] rt (kl_runtime k) \<Longrightarrow> market_effect [] rt (kl_runtime (kraken_stop k))"
    using trans [OF _ close] by (simp add: kraken_stop_def abort_client_def Let_def)
  show "market_effect [] rt (kl_runtime k) \<Longrightarrow> market_effect [] rt (kl_runtime (kraken_market_exit k))"
    by (simp add: kraken_market_exit_def close_queue_def queue_close_def market_effect_def set_shared_def status_grows_def)
  assume m: "market_effect [] rt (kl_runtime k)"
  have "market_effect [] rt (set_status (push_lifecycle ev) (kl_runtime k))" for ev
    by (rule trans [OF m market_effect_status]) (simp add: status_frame_def push_lifecycle_def)
  then show "market_effect [] rt (kl_runtime (kraken_recover reason st k))"
    using m by (auto simp: kraken_recover_def with_processor_def abort_client_def Let_def split: prod.split intro!: 1)
qed

end
