(* ===== verification/KrakenSimulation.thy ===== *)
theory KrakenSimulation
  imports KrakenRuntime
begin

text \<open>
  The invariant of the Kraken market thread: its counters agree with the messages it has accepted,
  and its book processor is the one a replay of these messages and of the lifecycle events ends
  with. Every handler keeps it.
\<close>

section \<open>The live processor is the replayed one\<close>

text \<open>A number of records or events that a 64 bit counter holds.\<close>

definition fits_uint64 :: "nat \<Rightarrow> bool" where
  "fits_uint64 n \<longleftrightarrow> n < 2 ^ 64"

lemma fits_uint64_mono: "fits_uint64 n \<Longrightarrow> m \<le> n \<Longrightarrow> fits_uint64 m"
  by (simp add: fits_uint64_def)

lemma unat_of_nat_fits: "fits_uint64 n \<Longrightarrow> unat (of_nat n :: uint64) = n"
  unfolding fits_uint64_def by (simp add: unsigned_of_nat take_bit_nat_eq_self)

lemma of_nat_inj_64: "(of_nat m :: uint64) = of_nat n \<Longrightarrow> fits_uint64 m \<Longrightarrow> fits_uint64 n \<Longrightarrow> m = n"
  unfolding fits_uint64_def by (drule arg_cong [of _ _ unat]) (simp add: unsigned_of_nat take_bit_nat_eq_self)

text \<open>An event of the status as it reaches the replay through the manifest.\<close>

definition entry_of :: "lifecycle_event \<Rightarrow> lifecycle_entry" where
  "entry_of ev = \<lparr>en_index = le_before_record_index ev, en_state = session_book_name (le_state ev), en_reason = le_reason ev\<rparr>"

definition last_connection :: "raw_message list \<Rightarrow> uint64 option" where
  "last_connection acc = (if acc = [] then None else Some (rm_connection_id (last acc)))"

text \<open>The replay of \<open>acc\<close> with the events \<open>evs\<close> applies all of them and ends with the processor \<open>p\<close>.\<close>

definition replays_to ::
  "(string \<Rightarrow> uint32) \<Rightarrow> kraken_processor \<Rightarrow> raw_message list \<Rightarrow> lifecycle_event list \<Rightarrow> kraken_processor \<Rightarrow> bool" where
  "replays_to crc p0 acc evs p \<longleftrightarrow> (\<exists>s. kraken_replay_records crc acc (new_kraken_replay p0 (map entry_of evs)) = Inr s \<and>
     ry_processor s = p \<and> ry_lifecycle s = [] \<and> ry_count s = of_nat (length acc) \<and> ry_connection s = last_connection acc)"

lemma replays_to_start: "replays_to crc p0 [] [] p0"
  by (simp add: replays_to_def new_kraken_replay_def kraken_apply_lifecycle_def last_connection_def)

lemma replays_to_event:
  assumes "replays_to crc p0 acc evs p" and "fits_uint64 (length acc)" and "le_before_record_index ev = of_nat (length acc)"
  shows "replays_to crc p0 acc (evs @ [ev]) ((if le_state ev = Stale then kraken_stale
    else if le_state ev = Invalid then kraken_invalidate else kraken_disconnect) p)"
proof -
  let ?s0 = "new_kraken_replay p0 (map entry_of evs)"
  obtain s where s: "kraken_replay_records crc acc ?s0 = Inr s" "ry_processor s = p" "ry_lifecycle s = []"
    "ry_count s = of_nat (length acc)" "ry_connection s = last_connection acc"
    using assms(1) by (auto simp: replays_to_def)
  have start: "new_kraken_replay p0 es = ?s0\<lparr>ry_lifecycle := es\<rparr>" for es by (simp add: new_kraken_replay_def)
  have "\<forall>i < length acc. en_index (entry_of ev) \<noteq> ry_count ?s0 + of_nat i"
    using assms(2,3) fits_uint64_mono [OF assms(2)] by (auto simp: entry_of_def new_kraken_replay_def dest: of_nat_inj_64)
  from kraken_replay_later_event [OF _ s(3) this, of crc "map entry_of evs"] s(1)
  have run: "kraken_replay_records crc acc (new_kraken_replay p0 (map entry_of (evs @ [ev]))) = Inr (kraken_replay_events [entry_of ev] s)"
    by (simp add: start [of "map entry_of evs @ _"] new_kraken_replay_def)
  have names: "session_book_name (le_state ev) = ''STALE'' \<longleftrightarrow> le_state ev = Stale"
    "session_book_name (le_state ev) = ''INVALID'' \<longleftrightarrow> le_state ev = Invalid"
    by (cases "le_state ev"; simp)+
  show ?thesis unfolding replays_to_def
    by (rule exI [of _ "kraken_replay_events [entry_of ev] s"], intro conjI, rule run)
      (use s assms(3) in \<open>simp_all add: entry_of_def kraken_replay_event_def names\<close>)
qed

lemma replays_to_record:
  assumes "replays_to crc p0 acc evs p" and "\<not> (case last_connection acc of None \<Rightarrow> False | Some c \<Rightarrow> rm_connection_id m < c)"
  shows "replays_to crc p0 (acc @ [m]) evs (snd (kraken_process crc (rm_payload m) (rm_receive_wall_time m) (rm_receive_monotonic_time m)
    (if acc \<noteq> [] \<and> last_connection acc \<noteq> Some (rm_connection_id m) then kraken_reset_connection p else p)))"
proof -
  obtain s where s: "kraken_replay_records crc acc (new_kraken_replay p0 (map entry_of evs)) = Inr s" "ry_processor s = p" "ry_lifecycle s = []"
    "ry_count s = of_nat (length acc)" "ry_connection s = last_connection acc"
    using assms(1) by (auto simp: replays_to_def)
  note run = kraken_replay_next_record [OF s(1,3), of m]
  show ?thesis unfolding replays_to_def using run assms(2) s(2-5)
    by (intro exI [of _ "kraken_replay_message crc m (kraken_replay_connection (rm_connection_id m) s)"])
      (auto simp: kraken_replay_message_def kraken_replay_connection_def last_connection_def Let_def)
qed

section \<open>The invariant of the market thread\<close>

abbreviation kl_events :: "kraken_live \<Rightarrow> lifecycle_event list" where
  "kl_events k \<equiv> recorded_events (kl_runtime k)"

abbreviation kl_fatal :: "kraken_live \<Rightarrow> string option" where
  "kl_fatal k \<equiv> fatal (kl_runtime k)"

text \<open>The events are in the order of the records they precede.\<close>

definition events_ordered :: "nat \<Rightarrow> lifecycle_event list \<Rightarrow> bool" where
  "events_ordered n evs \<longleftrightarrow> sorted (map (\<lambda>ev. unat (le_before_record_index ev)) evs) \<and>
     list_all (\<lambda>ev. unat (le_before_record_index ev) \<le> n \<and> le_state ev \<in> {Stale, Disconnected}) evs"

lemma events_ordered_append:
  assumes "events_ordered n evs" and "unat (le_before_record_index ev) = n" and "le_state ev \<in> {Stale, Disconnected}"
  shows "events_ordered n (evs @ [ev])"
  using assms by (auto simp: events_ordered_def sorted_append list_all_iff)

lemma events_ordered_mono: "events_ordered n evs \<Longrightarrow> n \<le> m \<Longrightarrow> events_ordered m evs"
  by (auto simp: events_ordered_def list_all_iff)

text \<open>
  Every connection but the first follows a lifecycle event, so their number bounds the connection
  identifiers; a connection that has not delivered a record yet is newer than the last record.
\<close>

definition kraken_sim :: "(string \<Rightarrow> uint32) \<Rightarrow> kraken_processor \<Rightarrow> raw_message list \<Rightarrow> kraken_live \<Rightarrow> bool" where
  "kraken_sim crc p0 acc k \<longleftrightarrow>
     unat (kl_connection k) \<le> length (kl_events k) + (if kl_client k \<and> kl_retry k = None then 1 else 0) \<and>
     (kl_seen_record k \<longleftrightarrow> acc \<noteq> []) \<and>
     (if kl_first_record k then \<forall>c. last_connection acc = Some c \<longrightarrow> c < kl_connection k
      else last_connection acc = Some (kl_connection k)) \<and>
     events_ordered (length acc) (kl_events k) \<and> replays_to crc p0 acc (kl_events k) (kl_processor k)"

definition kraken_live_inv :: "(string \<Rightarrow> uint32) \<Rightarrow> kraken_processor \<Rightarrow> raw_message list \<Rightarrow> kraken_live \<Rightarrow> bool" where
  "kraken_live_inv crc p0 acc k \<longleftrightarrow> kl_index k = of_nat (length acc) \<and> (kl_fatal k = None \<longrightarrow> counts_agree acc (kl_runtime k)) \<and>
     (\<not> kl_begun k \<longrightarrow> \<not> kl_client k \<and> kl_retry k = None \<and> \<not> kl_tick_armed k) \<and> (\<not> kl_client k \<longrightarrow> kl_connection k = 0 \<and> acc = []) \<and>
     ob_state (kl_book k) \<noteq> Resyncing \<and> list_all (\<lambda>m. rm_venue m = Kraken) acc \<and>
     (kl_fatal k = None \<and> fits_uint64 (length acc) \<and> fits_uint64 (length (kl_events k) + 1) \<longrightarrow> kraken_sim crc p0 acc k)"

text \<open>A step that accepts no message keeps the invariant if it keeps the simulation.\<close>

lemma kraken_live_inv_step:
  assumes "kraken_live_inv crc p0 acc k" and "kl_index k' = kl_index k" and "ob_state (kl_book k') \<noteq> Resyncing"
    and "kl_fatal k' = None \<longrightarrow> kl_fatal k = None \<and> market_view (kl_runtime k') = market_view (kl_runtime k)"
    and "\<not> kl_begun k' \<longrightarrow> \<not> kl_client k' \<and> kl_retry k' = None \<and> \<not> kl_tick_armed k'"
    and "\<not> kl_client k' \<longrightarrow> \<not> kl_client k \<and> kl_connection k' = kl_connection k"
    and "length (kl_events k) \<le> length (kl_events k')"
    and "kl_fatal k' = None \<Longrightarrow> fits_uint64 (length acc) \<Longrightarrow> fits_uint64 (length (kl_events k') + 1) \<Longrightarrow>
      kraken_sim crc p0 acc k \<Longrightarrow> kraken_sim crc p0 acc k'"
  shows "kraken_live_inv crc p0 acc k'"
proof -
  have "kraken_sim crc p0 acc k'" if "kl_fatal k' = None" "fits_uint64 (length acc)" "fits_uint64 (length (kl_events k') + 1)"
    using assms(1,4,8) that fits_uint64_mono [OF that(3), of "length (kl_events k) + 1"] assms(7) by (simp add: kraken_live_inv_def)
  then show ?thesis using assms(1-6) by (simp add: kraken_live_inv_def counts_agree_def)
qed

text \<open>What the invariant reads of the state, the runtime apart.\<close>

definition kl_control :: "kraken_live \<Rightarrow> (uint64 \<times> uint64 \<times> kraken_processor) \<times> bool \<times> bool \<times> bool \<times> bool \<times> int option" where
  "kl_control k = ((kl_index k, kl_connection k, kl_processor k), kl_begun k, kl_client k, kl_first_record k, kl_seen_record k, kl_retry k)"

lemma kraken_live_inv_frame:
  assumes "kraken_live_inv crc p0 acc k" and "kl_control k' = kl_control k" and "kl_tick_armed k' \<longrightarrow> kl_tick_armed k \<or> kl_begun k"
    and "kl_events k' = kl_events k" and "kl_fatal k' = None \<longrightarrow> kl_fatal k = None \<and> market_view (kl_runtime k') = market_view (kl_runtime k)"
  shows "kraken_live_inv crc p0 acc k'"
  using assms by (intro kraken_live_inv_step [OF assms(1)]) (auto simp: kl_control_def kraken_live_inv_def kraken_sim_def)

lemma kraken_publish_simps [simp]:
  "kl_index (kraken_publish k) = kl_index k" "kl_begun (kraken_publish k) = kl_begun k" "kl_client (kraken_publish k) = kl_client k"
  "kl_retry (kraken_publish k) = kl_retry k" "kl_tick_armed (kraken_publish k) = kl_tick_armed k" "kl_connection (kraken_publish k) = kl_connection k"
  "kl_processor (kraken_publish k) = kl_processor k" "kl_first_record (kraken_publish k) = kl_first_record k"
  "kl_seen_record (kraken_publish k) = kl_seen_record k" "kl_fatal (kraken_publish k) = kl_fatal k" "kl_events (kraken_publish k) = kl_events k"
  "market_view (kl_runtime (kraken_publish k)) = market_view (kl_runtime k)" "kl_stopping (kraken_publish k) = kl_stopping k"
  "kl_recovering (kraken_publish k) = kl_recovering k"
  by (simp_all add: kraken_publish_def kl_set_status_def market_view_def Let_def)

lemma kraken_publish_inv [simp]: "kraken_live_inv crc p0 acc (kraken_publish k) = kraken_live_inv crc p0 acc k"
  by (simp add: kraken_live_inv_def kraken_sim_def counts_agree_def)

lemma kraken_stop_simps [simp]:
  "kl_index (kraken_stop k) = kl_index k" "kl_begun (kraken_stop k) = kl_begun k" "kl_client (kraken_stop k) = kl_client k"
  "kl_retry (kraken_stop k) = None" "kl_tick_armed (kraken_stop k) = kl_tick_armed k" "kl_connection (kraken_stop k) = kl_connection k"
  "kl_processor (kraken_stop k) = kl_processor k" "kl_first_record (kraken_stop k) = kl_first_record k"
  "kl_seen_record (kraken_stop k) = kl_seen_record k" "kl_fatal (kraken_stop k) = kl_fatal k" "kl_events (kraken_stop k) = kl_events k"
  "market_view (kl_runtime (kraken_stop k)) = market_view (kl_runtime k)" "kl_stopping (kraken_stop k)"
  by (simp_all add: kraken_stop_def abort_client_def close_queue_def market_view_def Let_def)

lemma kraken_stop_inv: "kraken_live_inv crc p0 acc k \<Longrightarrow> kraken_live_inv crc p0 acc (kraken_stop k)"
proof (rule kraken_live_inv_step)
  show "kraken_sim crc p0 acc k \<Longrightarrow> kraken_sim crc p0 acc (kraken_stop k)"
    by (cases "kl_client k") (simp_all add: kraken_sim_def split: if_splits)
qed (simp_all add: kraken_live_inv_def)

lemma kraken_recover_begun [simp]:
  "kl_begun (kraken_recover reason st k) = kl_begun k" "kl_tick_armed (kraken_recover reason st k) = kl_tick_armed k"
  by (simp_all add: kraken_recover_def with_processor_def abort_client_def kl_set_status_def Let_def split: prod.split)

lemma kraken_recover_inv:
  assumes "kraken_live_inv crc p0 acc k" and "kl_begun k"
  shows "kraken_live_inv crc p0 acc (kraken_recover reason st k)"
proof (cases "kl_stopping k \<or> kl_recovering k")
  case True
  then show ?thesis using assms(1) by (simp add: kraken_recover_def)
next
  case False
  define p where "p = (if st then kraken_stale else kraken_disconnect) (kl_processor k)"
  define ev where "ev = \<lparr>le_before_record_index = kl_index k, le_state = ob_state (kp_book p), le_reason = reason\<rparr>"
  have state: "ob_state (kp_book p) = (if st then Stale else Disconnected)"
    by (simp add: p_def kraken_stale_def kraken_disconnect_def mark_defs)
  have pe: "p = (if le_state ev = Stale then kraken_stale else if le_state ev = Invalid then kraken_invalidate else kraken_disconnect) (kl_processor k)"
    unfolding ev_def lifecycle_event.simps state by (simp add: p_def)
  obtain delay backoff where d: "next_delay (kl_backoff k) = (delay, backoff)" by force
  have k': "kraken_recover reason st k = kraken_publish ((abort_client (kl_set_status (push_lifecycle ev)
      (k\<lparr>kl_recovering := True, kl_connected := False, kl_processor := p\<rparr>)))\<lparr>kl_retry := Some delay, kl_backoff := backoff\<rparr>)"
    using False by (simp add: kraken_recover_def with_processor_def p_def ev_def Let_def abort_client_def d kl_set_status_def split: prod.split)
  have rep: "replays_to crc p0 acc (kl_events k @ [ev]) p"
    if "replays_to crc p0 acc (kl_events k) (kl_processor k)" "fits_uint64 (length acc)"
    using assms(1) by (subst pe) (rule replays_to_event [OF that], simp add: ev_def kraken_live_inv_def)
  have ordered: "events_ordered (length acc) (kl_events k @ [ev])"
    if "events_ordered (length acc) (kl_events k)" "fits_uint64 (length acc)"
    by (rule events_ordered_append [OF that(1)])
      (use that(2) assms(1) in \<open>simp_all add: ev_def state kraken_live_inv_def unat_of_nat_fits\<close>)
  have view: "market_view (set_status (push_lifecycle ev) rt) = market_view rt" for rt
    by (simp add: market_view_def push_lifecycle_def Let_def)
  have frame: "kl_index (kraken_recover reason st k) = kl_index k" "kl_fatal (kraken_recover reason st k) = kl_fatal k"
    "market_view (kl_runtime (kraken_recover reason st k)) = market_view (kl_runtime k)" "kl_client (kraken_recover reason st k) = kl_client k"
    "kl_retry (kraken_recover reason st k) = Some delay" "kl_connection (kraken_recover reason st k) = kl_connection k"
    "kl_processor (kraken_recover reason st k) = p" "kl_events (kraken_recover reason st k) = kl_events k @ [ev]"
    "kl_first_record (kraken_recover reason st k) = kl_first_record k" "kl_seen_record (kraken_recover reason st k) = kl_seen_record k"
    by (simp_all add: k' abort_client_def push_lifecycle_def view)
  show ?thesis
  proof (rule kraken_live_inv_step [OF assms(1)])
    show "kraken_sim crc p0 acc (kraken_recover reason st k)" if "fits_uint64 (length acc)" "kraken_sim crc p0 acc k"
      using that rep ordered by (auto simp: kraken_sim_def frame split: if_splits)
  qed (use assms(2) in \<open>simp_all add: frame state\<close>)
qed

lemma kraken_connect_inv:
  assumes "kraken_live_inv crc p0 acc k" and "kl_begun k" and "\<not> kl_client k \<or> kl_retry k \<noteq> None"
  shows "kraken_live_inv crc p0 acc (kraken_connect now failure (k\<lparr>kl_retry := None\<rparr>))"
proof -
  let ?k = "k\<lparr>kl_retry := None, kl_recovering := False, kl_first_record := True, kl_connection := kl_connection k + 1, kl_connected_at := now,
     kl_client := True, kl_aborted := False\<rparr>"
  have "kraken_live_inv crc p0 acc ?k"
  proof (rule kraken_live_inv_step [OF assms(1)])
    assume fits: "fits_uint64 (length (kl_events ?k) + 1)" and sim: "kraken_sim crc p0 acc k"
    have le: "unat (kl_connection k) \<le> length (kl_events k)" using sim assms(3) by (auto simp: kraken_sim_def split: if_splits)
    have inc: "unat (kl_connection k + 1) = unat (kl_connection k) + 1"
      using le fits by (simp add: fits_uint64_def unat_plus_simple [THEN iffD1] no_olen_add_nat)
    then have "kl_connection k < kl_connection k + 1" by (simp add: word_less_nat_alt)
    then have "\<forall>c. last_connection acc = Some c \<longrightarrow> c < kl_connection k + 1"
      using sim by (auto simp: kraken_sim_def split: if_splits)
    then show "kraken_sim crc p0 acc ?k" using sim le inc by (simp add: kraken_sim_def)
  qed (use assms in \<open>simp_all add: kraken_live_inv_def\<close>)
  then show ?thesis using kraken_recover_inv [of crc p0 acc ?k] assms(2) by (auto simp: kraken_connect_def Let_def split: option.split)
qed

lemma kraken_connect_begun [simp]: "kl_begun (kraken_connect now failure k) = kl_begun k"
  by (simp add: kraken_connect_def Let_def split: option.split)

lemma kraken_timers_inv:
  assumes "kraken_live_inv crc p0 acc k" and "kl_begun k"
  shows "kraken_live_inv crc p0 acc (kraken_timeouts t (kraken_forced t k))" "kl_begun (kraken_timeouts t (kraken_forced t k))"
proof -
  have forced: "kraken_live_inv crc p0 acc (k\<lparr>kl_forced := b\<rparr>)" for b
    by (rule kraken_live_inv_frame [OF assms(1)]) (simp_all add: kl_control_def)
  have 1: "kraken_live_inv crc p0 acc (kraken_forced t k)" "kl_begun (kraken_forced t k)"
    using forced assms by (auto simp: kraken_forced_def intro: kraken_recover_inv)
  then show "kraken_live_inv crc p0 acc (kraken_timeouts t (kraken_forced t k))" "kl_begun (kraken_timeouts t (kraken_forced t k))"
    by (auto simp: kraken_timeouts_def Let_def intro: kraken_recover_inv)
qed

lemma kraken_invalidate_inv:
  assumes "kraken_live_inv crc p0 acc k" and "kl_fatal k \<noteq> None"
  shows "kraken_live_inv crc p0 acc (with_processor kraken_invalidate k)"
  by (rule kraken_live_inv_step [OF assms(1)])
    (use assms in \<open>auto simp: with_processor_def kraken_live_inv_def kraken_invalidate_def mark_defs\<close>)

lemma kraken_armed_inv:
  "kraken_live_inv crc p0 acc k \<Longrightarrow> kl_begun k \<or> \<not> b \<Longrightarrow> kraken_live_inv crc p0 acc (k\<lparr>kl_tick_armed := b\<rparr>)"
  by (rule kraken_live_inv_frame) (auto simp: kl_control_def)

lemma kraken_tick_inv:
  assumes "kraken_live_inv crc p0 acc k" and "kl_begun k"
  shows "kraken_live_inv crc p0 acc (kraken_tick t stop_requested k)"
proof -
  define k1 where "k1 = (if kl_fatal k \<noteq> None then with_processor kraken_invalidate k else k)"
  define c where "c \<longleftrightarrow> stop_requested \<or> kl_fatal k \<noteq> None \<or> kl_duration k1 \<noteq> 0 \<and> kl_duration k1 * 1000000000 \<le> t - kl_started k1"
  define k2 where "k2 = (if c then kraken_stop k1 else k1)"
  have inv: "kraken_live_inv crc p0 acc k2" "kl_begun k2"
    using assms kraken_invalidate_inv [OF assms(1)] by (auto simp: k2_def k1_def intro!: kraken_stop_inv) (simp add: with_processor_def)+
  have "kraken_tick t stop_requested k = (if kl_stopping k2 then (kraken_publish k2)\<lparr>kl_tick_armed := False\<rparr>
      else (kraken_publish (kraken_timeouts t (kraken_forced t k2)))\<lparr>kl_tick_armed := True\<rparr>)"
    unfolding kraken_tick_def Let_def kl_status_def k2_def k1_def c_def by (rule refl)
  then show ?thesis using inv kraken_timers_inv [OF inv] by (simp add: kraken_armed_inv)
qed

lemma same_retry: "kl_retry k = None \<Longrightarrow> k\<lparr>kl_retry := None\<rparr> = k"
  by (cases k) simp

lemma kraken_begin_inv:
  assumes "kraken_live_inv crc p0 acc k"
  shows "kraken_live_inv crc p0 acc (kraken_begin now failure t stop_requested k)"
proof (cases "kl_begun k \<or> \<not> (sh_writer_ready (rt_shared (kl_runtime k)) \<or> sh_writer_done (rt_shared (kl_runtime k)))")
  case True
  then show ?thesis using assms by (simp add: kraken_begin_def Let_def)
next
  case False
  let ?k = "k\<lparr>kl_begun := True\<rparr>"
  let ?r = "kl_set_status (\<lambda>s. s\<lparr>rs_runtime_state := Running\<rparr>) ?k"
  have inv: "kraken_live_inv crc p0 acc ?k" using assms by (simp add: kraken_live_inv_def kraken_sim_def)
  then have run: "kraken_live_inv crc p0 acc ?r"
    by (rule kraken_live_inv_frame) (auto simp: kl_control_def market_view_def Let_def)
  have "\<not> kl_client k" "kl_retry k = None" using assms False by (auto simp: kraken_live_inv_def)
  then have "kraken_live_inv crc p0 acc (kraken_connect now failure ?r)"
    using kraken_connect_inv [OF run, of now failure] same_retry [of ?r] by simp
  then show ?thesis using False kraken_stop_inv [OF inv] by (auto simp: kraken_begin_def Let_def kraken_tick_inv)
qed

lemma kraken_exit_inv:
  assumes "kraken_live_inv crc p0 acc k"
  shows "kraken_live_inv crc p0 acc (kraken_market_exit k)" "kraken_live_inv crc p0 acc (kraken_exception e k)"
    "kraken_live_inv crc p0 acc (kraken_end fl sha k)"
proof -
  have exit: "kraken_live_inv crc p0 acc (kraken_market_exit k)" if "kraken_live_inv crc p0 acc k" for k
    by (rule kraken_live_inv_frame [OF that])
      (simp_all add: kl_control_def kraken_market_exit_def close_queue_def set_shared_def market_view_def Let_def)
  have exn: "kraken_live_inv crc p0 acc (kraken_exception e k)" if "kraken_live_inv crc p0 acc k" for k e
    unfolding kraken_exception_def by (rule exit, rule kraken_live_inv_frame [OF that]) (simp_all add: kl_control_def)
  show "kraken_live_inv crc p0 acc (kraken_market_exit k)" "kraken_live_inv crc p0 acc (kraken_exception e k)" using assms by (rule exit, rule exn)
  have "kraken_live_inv crc p0 acc ((kraken_publish k)\<lparr>kl_final_book_hash := h\<rparr>)" for h
    by (rule kraken_live_inv_frame [OF assms]) (simp_all add: kl_control_def)
  then show "kraken_live_inv crc p0 acc (kraken_end fl sha k)"
    using assms exn [of "kraken_publish k"] exit by (auto simp: kraken_end_def Let_def split: sum.split)
qed

section \<open>A message\<close>

lemma kraken_process_state:
  assumes "kraken_process crc payload wall monotonic p = (ok, p')" and "ob_state (kp_book p) \<noteq> Resyncing"
  shows "ob_state (kp_book p') \<noteq> Resyncing"
proof -
  have error: "ob_state (kp_book (snd (apply_error e p))) = Invalid" for e p by (simp add: apply_error_def invalidate_def)
  have snapshot: "ob_state b' = Valid" if "apply_snapshot sn b = (True, b')" for sn b b'
    using that by (auto simp: apply_snapshot_def Let_def split: if_splits option.splits)
  have apply_state: "ob_state (kp_book (snd (kraken_apply crc m p))) \<noteq> Resyncing" if "ob_state (kp_book p) \<noteq> Resyncing" for m p
    using that by (auto simp: kraken_apply_def Let_def error candidate_book_def invalidate_def snapshot split: sum.splits prod.splits bool.splits if_splits)
  have "ob_state (kp_book (snd (kraken_process crc payload wall monotonic p))) \<noteq> Resyncing"
    using assms(2) by (auto simp: kraken_process_def Let_def invalidate_def apply_state split: parse_kind.split)
  then show ?thesis by (simp add: assms(1))
qed

lemma count_push_simps [simp]:
  "rs_fatal_error (count_push i b s) = (if b \<or> rs_fatal_error s \<noteq> None then rs_fatal_error s else Some ''RAW_RECORDING_QUEUE_FULL'')"
  "rs_lifecycle_events (count_push i b s) = rs_lifecycle_events s"
  by (simp_all add: count_push_def Let_def)

lemma count_processed_simps [simp]:
  "rs_fatal_error (count_processed i s) = rs_fatal_error s" "rs_lifecycle_events (count_processed i s) = rs_lifecycle_events s"
  by (simp_all add: count_processed_def)

lemma market_view_counted:
  assumes "counts_agree acc rt" and "i = of_nat (length acc)" and "rm_record_index e = i"
  shows "counts_agree (acc @ [e]) (set_status (count_processed i) (set_status (count_push i True) (rt\<lparr>rt_queue := q\<rparr>)))"
  using assms by (simp add: counts_agree_def market_view_def count_push_def count_processed_def Let_def)

lemma kraken_message_inv:
  assumes inv: "kraken_live_inv crc p0 acc k" and client: "kl_client k" and ok: "fits_int64 wall" "fits_int64 monotonic"
    and k': "k' = snd (kraken_on_message crc payload wall monotonic k)" and live: "\<not> kl_stopping k"
  shows "\<exists>new. market_effect new (kl_runtime k) (kl_runtime k') \<and> kraken_live_inv crc p0 (acc @ new) k' \<and>
    (kl_fatal k' = None \<longrightarrow> map contents_of new = [(payload, wall, monotonic)])"
proof -
  let ?e = "kraken_envelope payload wall monotonic k"
  obtain a q where push: "try_push ?e (rt_queue (kl_runtime k)) = (a, q)" by force
  let ?k1 = "kl_set_status (count_push (kl_index k) (a = Accepted)) (k\<lparr>kl_runtime := (kl_runtime k)\<lparr>rt_queue := q\<rparr>\<rparr>)"
  have msg: "message_ok ?e" using ok by (simp add: message_ok_def kraken_envelope_def)
  have frame: "status_frame (count_push i b)" for i b by (auto simp: status_frame_def count_push_def Let_def)
  have eff1: "market_effect (if a = Accepted then [?e] else []) (kl_runtime k) (kl_runtime ?k1)"
    using market_effect_trans [OF push_effect [OF push msg] market_effect_status [OF frame]] by simp
  show ?thesis
  proof (cases "a = Accepted")
    case False
    then have k'': "k' = kraken_publish (kraken_stop (with_processor kraken_invalidate ?k1))"
      using live push by (simp add: k' kraken_on_message_def Let_def)
    have f: "kl_fatal ?k1 \<noteq> None" using False by simp
    have "kraken_live_inv crc p0 acc ?k1"
      by (rule kraken_live_inv_frame [OF inv]) (use f False in \<open>auto simp: kl_control_def\<close>)
    then have "kraken_live_inv crc p0 acc k'" using f by (simp add: k'' kraken_stop_inv kraken_invalidate_inv)
    moreover have "market_effect [] (kl_runtime k) (kl_runtime k')"
      unfolding k'' using eff1 False by (intro kl_effects) (simp add: with_processor_def)
    moreover have "kl_fatal k' \<noteq> None" unfolding k'' using f by (simp add: with_processor_def)
    ultimately show ?thesis by (intro exI [of _ "[]"]) simp
  next
    case True
    define k2 where "k2 = begin_record ?k1"
    obtain ok p where p: "kraken_process crc payload wall monotonic (kl_processor k2) = (ok, p)" by force
    define k3 where "k3 = kraken_publish ((kl_set_status (count_processed (kl_index k)) (k2\<lparr>kl_processor := p\<rparr>))\<lparr>kl_index := kl_index k + 1\<rparr>)"
    have b: "kl_index k2 = kl_index k" "kl_runtime k2 = kl_runtime ?k1" "kl_client k2" "kl_begun k2" "kl_connection k2 = kl_connection k"
      "kl_retry k2 = kl_retry k" "\<not> kl_first_record k2" "kl_seen_record k2 \<longleftrightarrow> kl_first_record k \<or> kl_seen_record k"
      "kl_processor k2 = (if kl_first_record k \<and> kl_seen_record k then kraken_reset_connection (kl_processor k) else kl_processor k)"
      using client inv by (auto simp: k2_def begin_record_def with_processor_def kraken_live_inv_def)
    have k'': "k' = (if \<not> ok then kraken_recover (if kp_error p = [] then kp_outcome p else kp_error p) False k3
        else if ob_state (kp_book p) = Valid then k3\<lparr>kl_backoff := policy_reset (kl_backoff k3)\<rparr> else k3)"
    proof -
      have "k' = snd (process_record crc payload wall monotonic ?k1)"
        using live push True by (simp add: k' kraken_on_message_def Let_def)
      then show ?thesis unfolding process_record_def k2_def [symmetric] Let_def by (simp add: p b(1) k3_def)
    qed
    have k3: "kl_index k3 = kl_index k + 1" "kl_client k3" "kl_begun k3" "kl_connection k3 = kl_connection k" "kl_retry k3 = kl_retry k"
      "\<not> kl_first_record k3" "kl_seen_record k3 = kl_seen_record k2" "kl_processor k3 = p" "kl_events k3 = kl_events k" "kl_fatal k3 = kl_fatal k"
      "market_view (kl_runtime k3) = market_view (set_status (count_processed (kl_index k)) (kl_runtime ?k1))"
      using b True by (simp_all add: k3_def)
    have e: "rm_connection_id ?e = kl_connection k" "rm_record_index ?e = kl_index k" "rm_payload ?e = payload"
      "rm_receive_wall_time ?e = wall" "rm_receive_monotonic_time ?e = monotonic" "rm_venue ?e = Kraken"
      by (simp_all add: kraken_envelope_def)
    have counts: "counts_agree (acc @ [?e]) (kl_runtime k3)" if "kl_fatal k = None"
      using market_view_counted [of acc "kl_runtime k" "kl_index k" ?e q] that inv True e k3(11) by (simp add: kraken_live_inv_def counts_agree_def)
    have sim: "kraken_sim crc p0 (acc @ [?e]) k3" if "kraken_sim crc p0 acc k"
    proof -
      have regress: "\<not> (case last_connection acc of None \<Rightarrow> False | Some c \<Rightarrow> rm_connection_id ?e < c)"
        using that by (auto simp: kraken_sim_def e dest: less_asym split: option.split if_splits)
      have resets: "acc \<noteq> [] \<and> last_connection acc \<noteq> Some (kl_connection k) \<longleftrightarrow> kl_first_record k \<and> kl_seen_record k"
        using that by (auto simp: kraken_sim_def e last_connection_def split: if_splits)
      have "replays_to crc p0 (acc @ [?e]) (kl_events k) (snd (kraken_process crc payload wall monotonic (kl_processor k2)))"
        using replays_to_record [OF _ regress, of crc p0 "kl_events k" "kl_processor k"] that
        unfolding e resets b(9) by (simp add: kraken_sim_def)
      then show ?thesis using that k3 b(8) client p e events_ordered_mono [of "length acc" "kl_events k" "Suc (length acc)"]
        by (auto simp: kraken_sim_def last_connection_def split: if_splits)
    qed
    have state: "ob_state (kp_book p) \<noteq> Resyncing"
      by (rule kraken_process_state [OF p]) (use inv in \<open>auto simp: b(9) kraken_live_inv_def kraken_reset_connection_def mark_defs\<close>)
    have inv3: "kraken_live_inv crc p0 (acc @ [?e]) k3"
      using inv counts sim k3 state e(6) fits_uint64_mono [of "Suc (length acc)" "length acc"] by (simp add: kraken_live_inv_def)
    have eff2: "market_effect [?e] (kl_runtime k) (kl_runtime ?k1)" using eff1 True by simp
    have "market_effect [] (kl_runtime ?k1) (kl_runtime (kl_set_status (count_processed (kl_index k)) (k2\<lparr>kl_processor := p\<rparr>)))"
      using market_effect_status [of "count_processed (kl_index k)" "kl_runtime ?k1"] b(2) by (simp add: status_frame_def count_processed_def)
    then have "market_effect [] (kl_runtime ?k1) (kl_runtime k3)" unfolding k3_def by (intro kl_effects) simp
    then have "market_effect [] (kl_runtime ?k1) (kl_runtime k')" using kl_effects(3) by (simp add: k'')
    then have "market_effect [?e] (kl_runtime k) (kl_runtime k')" using market_effect_trans [OF eff2, of "[]"] by simp
    moreover have "kraken_live_inv crc p0 (acc @ [?e]) (k3\<lparr>kl_backoff := d\<rparr>)" for d
      by (rule kraken_live_inv_frame [OF inv3]) (simp_all add: kl_control_def)
    then have "kraken_live_inv crc p0 (acc @ [?e]) k'" using inv3 k3(3) by (simp add: k'' kraken_recover_inv)
    ultimately show ?thesis by (intro exI [of _ "[?e]"]) (simp add: contents_of_def e)
  qed
qed

end
