(* ===== verification/KrakenRecorded.thy ===== *)
theory KrakenRecorded
  imports KrakenSimulation
begin

text \<open>
  A Kraken run as a whole: the market thread is a client of the recording contract, so what is
  recorded is complete, and the replay of the recording ends in the state the live run ended in.
\<close>

section \<open>Both threads\<close>

lemma kl_effects_market:
  "market_effect [] rt (kl_runtime k) \<Longrightarrow> market_effect [] rt (kl_runtime (kraken_connect now failure k))"
  "market_effect [] rt (kl_runtime k) \<Longrightarrow> market_effect [] rt (kl_runtime (kraken_tick t stop_requested k))"
  "market_effect [] rt (kl_runtime k) \<Longrightarrow> market_effect [] rt (kl_runtime (kraken_exception e k))"
proof -
  show "market_effect [] rt (kl_runtime k) \<Longrightarrow> market_effect [] rt (kl_runtime (kraken_connect now failure k))"
    using kl_effects(3) by (simp add: kraken_connect_def Let_def split: option.split)
  have forced: "market_effect [] rt (kl_runtime (kraken_forced t k))" if "market_effect [] rt (kl_runtime k)" for k
    using that kl_effects(3) [of rt "k\<lparr>kl_forced := True\<rparr>"] by (simp add: kraken_forced_def)
  have timeouts: "market_effect [] rt (kl_runtime (kraken_timeouts t k))" if "market_effect [] rt (kl_runtime k)" for k
    using that kl_effects(3) [OF that] by (simp add: kraken_timeouts_def Let_def)
  have invalid: "market_effect [] rt (kl_runtime (with_processor f k))" if "market_effect [] rt (kl_runtime k)" for f k
    using that by (simp add: with_processor_def)
  assume k: "market_effect [] rt (kl_runtime k)"
  show "market_effect [] rt (kl_runtime (kraken_tick t stop_requested k))"
    by (simp add: kraken_tick_def Let_def forced timeouts invalid kl_effects k)
  have "market_effect [] rt (set_status (\<lambda>s. s\<lparr>rs_fatal_error := Some (what e), rs_runtime_state := StoppedProcessingError,
       rs_book_state := Invalid\<rparr>) (kl_runtime k))"
    using market_effect_trans [OF k market_effect_status] by (simp add: status_frame_def)
  then show "market_effect [] rt (kl_runtime (kraken_exception e k))" unfolding kraken_exception_def by (intro kl_effects) simp
qed

lemma kraken_begin_effect: "market_effect [] (kl_runtime k) (kl_runtime (kraken_begin now failure t stop_requested k))"
proof -
  have "market_effect [] (kl_runtime k) (kl_runtime (kl_set_status (\<lambda>s. s\<lparr>rs_runtime_state := Running\<rparr>) (k\<lparr>kl_begun := True\<rparr>)))"
    using market_effect_status [of "\<lambda>s. s\<lparr>rs_runtime_state := Running\<rparr>"] by (simp add: status_frame_def)
  then show ?thesis by (simp add: kraken_begin_def Let_def kl_effects_market kl_effects)
qed

lemma kraken_retry_inv:
  assumes "kraken_live_inv crc p0 acc k"
  shows "kraken_live_inv crc p0 acc (kraken_on_retry now failure k)"
    and "market_effect [] (kl_runtime k) (kl_runtime (kraken_on_retry now failure k))"
proof -
  have begun: "kl_begun k" if "kl_retry k \<noteq> None" using assms that by (auto simp: kraken_live_inv_def)
  have "kraken_live_inv crc p0 acc (k\<lparr>kl_retry := None\<rparr>)"
  proof (rule kraken_live_inv_step [OF assms])
    show "kraken_sim crc p0 acc k \<Longrightarrow> kraken_sim crc p0 acc (k\<lparr>kl_retry := None\<rparr>)"
      by (cases "kl_client k") (simp_all add: kraken_sim_def split: if_splits)
  qed (use assms in \<open>simp_all add: kraken_live_inv_def\<close>)
  then show "kraken_live_inv crc p0 acc (kraken_on_retry now failure k)"
    using assms begun kraken_connect_inv [OF assms] by (auto simp: kraken_on_retry_def split: option.split)
  show "market_effect [] (kl_runtime k) (kl_runtime (kraken_on_retry now failure k))"
    by (simp add: kraken_on_retry_def kl_effects_market split: option.split)
qed

lemma kraken_handler_inv:
  assumes inv: "kraken_live_inv crc p0 acc k" and "\<nexists>payload wall monotonic. op = KrakenMessage payload wall monotonic"
  shows "market_effect [] (kl_runtime k) (kl_runtime (kraken_handler fl sha crc op k)) \<and>
    kraken_live_inv crc p0 acc (kraken_handler fl sha crc op k)"
proof (cases op)
  case KrakenBegin
  then show ?thesis by (simp add: kraken_begin_effect kraken_begin_inv [OF inv])
next
  case KrakenTick
  have "kl_begun k" if "kl_tick_armed k" using inv that by (auto simp: kraken_live_inv_def)
  then show ?thesis using inv KrakenTick by (simp add: kl_effects_market kraken_tick_inv)
next
  case (KrakenError e)
  have "kl_begun k" if "kl_client k" using inv that by (auto simp: kraken_live_inv_def)
  then show ?thesis using inv KrakenError by (simp add: kl_effects kraken_recover_inv)
next
  case (KrakenConnected now)
  have "kraken_live_inv crc p0 acc (kraken_on_connected now k)"
    by (rule kraken_live_inv_frame [OF inv]) (simp_all add: kraken_on_connected_def kl_control_def)
  then show ?thesis using inv KrakenConnected by (simp add: kraken_on_connected_def)
next
  case KrakenRetry
  then show ?thesis using kraken_retry_inv [OF inv] by simp
next
  case KrakenException
  then show ?thesis using kraken_exit_inv(2) [OF inv] by (simp add: kl_effects_market)
next
  case KrakenEnd
  have "market_effect [] (kl_runtime k) (kl_runtime (kraken_end fl sha k))"
    using kl_effects(4) [of _ "(kraken_publish k)\<lparr>kl_final_book_hash := h\<rparr>" for h]
    by (auto simp: kraken_end_def Let_def kl_effects_market kl_effects split: sum.split)
  then show ?thesis using KrakenEnd inv kraken_exit_inv(3) [OF inv] by simp
qed (use assms(2) in blast)

lemma kraken_live_step_inv:
  assumes inv: "kraken_live_inv crc p0 acc k" and "kraken_op_ok op"
  shows "\<exists>new. market_effect new (kl_runtime k) (kl_runtime (kraken_live_step fl sha crc op k)) \<and>
    kraken_live_inv crc p0 (acc @ new) (kraken_live_step fl sha crc op k) \<and>
    (kl_fatal (kraken_live_step fl sha crc op k) = None \<longrightarrow> map contents_of new = kraken_received op k)"
proof (cases "\<not> kl_done k \<and> (\<exists>payload wall monotonic. op = KrakenMessage payload wall monotonic \<and> kl_client k \<and> \<not> kl_aborted k \<and> \<not> kl_stopping k)")
  case True
  then obtain payload wall monotonic where op: "op = KrakenMessage payload wall monotonic" "kl_client k" "\<not> kl_aborted k" "\<not> kl_stopping k"
    "\<not> kl_done k" by blast
  then show ?thesis
    using kraken_message_inv [OF inv op(2) _ _ refl op(4), of wall monotonic payload] assms(2) by (simp add: kraken_live_step_def)
next
  case False
  have "market_effect [] (kl_runtime k) (kl_runtime (kraken_live_step fl sha crc op k)) \<and> kraken_live_inv crc p0 acc (kraken_live_step fl sha crc op k)"
  proof (cases "kl_done k \<or> (\<exists>payload wall monotonic. op = KrakenMessage payload wall monotonic)")
    case True
    then have "kraken_live_step fl sha crc op k = k" using False by (auto simp: kraken_live_step_def kraken_on_message_def)
    then show ?thesis using inv by simp
  next
    case handler: False
    then show ?thesis using kraken_handler_inv [OF inv, of op fl sha] by (simp add: kraken_live_step_def)
  qed
  moreover have "kraken_received op k = []" using False by (cases op) auto
  ultimately show ?thesis by (intro exI [of _ "[]"]) simp
qed

interpretation kraken_threads: recording_client "kraken_live_step fl sha crc" kraken_received kl_runtime put_kraken_runtime
  "kraken_live_inv crc p0" kraken_op_ok for fl sha crc p0
proof
  show "kl_runtime (put_kraken_runtime rt k) = rt" for rt k by (simp add: put_kraken_runtime_def)
  show "\<exists>new. market_effect new (kl_runtime k) (kl_runtime (kraken_live_step fl sha crc op k)) \<and>
      kraken_live_inv crc p0 (acc @ new) (kraken_live_step fl sha crc op k) \<and>
      (kl_fatal (kraken_live_step fl sha crc op k) = None \<longrightarrow> map contents_of new = kraken_received op k)"
    if "kraken_live_inv crc p0 acc k" "kraken_op_ok op" for acc k op
    using that by (rule kraken_live_step_inv)
  show "kraken_live_inv crc p0 acc (put_kraken_runtime rt k)" if "kraken_live_inv crc p0 acc k" "writer_effect (kl_runtime k) rt" for acc k rt
    using that(1) by (rule kraken_live_inv_frame) (use that(2) in \<open>auto simp: put_kraken_runtime_def kl_control_def writer_effect_def\<close>)
  show "counts_agree acc (kl_runtime k)" if "kraken_live_inv crc p0 acc k" "kl_fatal k = None" for acc k
    using that by (simp add: kraken_live_inv_def)
qed

section \<open>The digest of the final book\<close>

text \<open>When the thread has ended without an error, the digest is that of the book it ended with.\<close>

definition digest_inv :: "(double \<Rightarrow> string) \<Rightarrow> (string \<Rightarrow> string) \<Rightarrow> kraken_live \<Rightarrow> bool" where
  "digest_inv fl sha k \<longleftrightarrow> (kl_done k \<and> kl_fatal k = None \<longrightarrow>
     kl_final_metrics k = kp_metrics (kl_processor k) \<and>
     (\<exists>text. json_dump fl None (kraken_contents (kl_book k)) = Inr text \<and> kl_final_book_hash k = sha text))"

lemma kl_done_simps [simp]:
  "kl_done (kraken_publish k) = kl_done k" "kl_done (kraken_stop k) = kl_done k" "kl_done (kl_set_status f k) = kl_done k"
  "kl_done (kraken_recover reason st k) = kl_done k" "kl_done (kraken_connect now failure k) = kl_done k"
  "kl_done (with_processor g k) = kl_done k"
proof -
  show pub: "kl_done (kraken_publish k) = kl_done k" for k
    by (simp add: kraken_publish_def kl_set_status_def set_status_def set_shared_def Let_def)
  show "kl_done (kraken_stop k) = kl_done k" by (simp add: kraken_stop_def abort_client_def close_queue_def Let_def)
  show set: "kl_done (kl_set_status f k) = kl_done k" for f k by (simp add: set_status_def set_shared_def)
  show "kl_done (with_processor g k) = kl_done k" by (simp add: with_processor_def)
  show rec: "kl_done (kraken_recover reason st k) = kl_done k" for reason st k
    by (simp add: kraken_recover_def pub Let_def abort_client_def with_processor_def set_status_def set_shared_def split: prod.split)
  show "kl_done (kraken_connect now failure k) = kl_done k" by (simp add: kraken_connect_def rec Let_def split: option.split)
qed

lemma kl_done_handlers [simp]:
  "kl_done (kraken_tick t stop_requested k) = kl_done k" "kl_done (kraken_begin now failure t stop_requested k) = kl_done k"
  "kl_done (kraken_on_retry now failure k) = kl_done k"
proof -
  have forced: "kl_done (kraken_forced t k) = kl_done k" for k by (simp add: kraken_forced_def)
  have timeouts: "kl_done (kraken_timeouts t k) = kl_done k" for k by (simp add: kraken_timeouts_def Let_def)
  show tick: "kl_done (kraken_tick t stop_requested k) = kl_done k" for k by (simp add: kraken_tick_def Let_def forced timeouts)
  show "kl_done (kraken_begin now failure t stop_requested k) = kl_done k" by (simp add: kraken_begin_def Let_def tick)
  show "kl_done (kraken_on_retry now failure k) = kl_done k" by (simp add: kraken_on_retry_def split: option.split)
qed

lemma kraken_handler_digest:
  assumes "\<not> kl_done k"
  shows "digest_inv fl sha (kraken_handler fl sha crc op k)"
proof (cases op)
  case (KrakenMessage payload wall monotonic)
  have "\<not> kl_done (snd (process_record crc payload wall monotonic k))" if "\<not> kl_done k" for k
  proof -
    have "kl_runtime (begin_record k) = kl_runtime k" by (simp add: begin_record_def with_processor_def)
    then show ?thesis using that by (simp add: process_record_def Let_def split: prod.split)
  qed
  then have "\<not> kl_done (snd (kraken_on_message crc payload wall monotonic k))"
    using assms by (simp add: kraken_on_message_def Let_def split: prod.split)
  then show ?thesis using KrakenMessage assms by (simp add: digest_inv_def)
next
  case KrakenEnd
  have "kl_final_metrics (kraken_publish k) = kp_metrics (kl_processor k)" by (simp add: kraken_publish_def Let_def)
  with KrakenEnd show ?thesis using assms
    by (auto simp: kraken_end_def digest_inv_def kraken_exception_def kraken_market_exit_def set_shared_def close_queue_def Let_def
        split: sum.split)
next
  case (KrakenException e)
  then show ?thesis by (simp add: digest_inv_def kraken_exception_def kraken_market_exit_def set_shared_def close_queue_def)
qed (use assms in \<open>simp_all add: digest_inv_def kraken_on_connected_def\<close>)

lemma writer_step_done: "sh_market_done (rt_shared (writer_step fl op rt)) = sh_market_done (rt_shared rt)"
proof -
  have catch: "sh_market_done (rt_shared (writer_catch e rt)) = sh_market_done (rt_shared rt)" for e rt
    by (simp add: writer_catch_def writer_exit_def set_shared_def recording_failed_def Let_def)
  show ?thesis
  proof (cases op)
    case (OpenFile fs minimum)
    then show ?thesis by (auto simp: writer_start_def catch set_shared_def split: sum.split)
  next
    case (PopNext f)
    then show ?thesis
      by (auto simp: writer_pop_def catch writer_exit_def set_shared_def Let_def split: option.split prod.split pop_result.split)
  next
    case (WriteNext f)
    then show ?thesis
      by (auto simp: writer_write_def catch set_shared_def count_written_def Let_def split: option.split prod.split sum.split bool.split)
  qed
qed

lemma kraken_threads_digest:
  assumes "run_threads (kraken_live_step fl sha crc) kraken_received kl_runtime put_kraken_runtime fl ops k = (ms, k')"
    and "digest_inv fl sha k"
  shows "digest_inv fl sha k'"
  using assms
proof (induction ops arbitrary: k ms)
  case (Cons op ops)
  show ?case
  proof (cases op)
    case (Inl m)
    have "digest_inv fl sha (kraken_live_step fl sha crc m k)"
      using Cons.prems(2) kraken_handler_digest by (simp add: kraken_live_step_def)
    then show ?thesis using Cons.IH Cons.prems(1) Inl by (auto split: prod.splits)
  next
    case (Inr w)
    have "digest_inv fl sha (put_kraken_runtime (writer_step fl w (kl_runtime k)) k)"
      using Cons.prems(2) writer_step_effect [of "kl_runtime k" fl w]
      by (auto simp: digest_inv_def put_kraken_runtime_def writer_step_done writer_effect_def)
    then show ?thesis using Cons.IH Cons.prems(1) Inr by auto
  qed
qed simp

section \<open>Properties\<close>

lemma run_kraken_start:
  assumes "new_kraken_live depth duration force_seconds config started = Inr k" and "KrakenBookProcessor depth = Inr p0"
  shows "kraken_live_inv crc p0 [] k" "writer_inv fl [] (kl_runtime k)" "digest_inv fl sha k"
proof -
  have p0: "kl_processor k = p0" "kl_runtime k = new_runtime config" using assms by (auto simp: new_kraken_live_def)
  have "ob_state (kp_book p0) = Initializing"
    using assms(2) by (auto simp: KrakenBookProcessor_def bind_exn_eq_Inr metrics_frame OrderBook_def)
  moreover have "market_view (new_runtime config) = ((0, 0, 0), None, None, None)"
    by (simp add: market_view_def new_runtime_def SharedRuntime_def RuntimeStatus_def Let_def)
  ultimately show "kraken_live_inv crc p0 [] k"
    using assms replays_to_start [of crc p0]
    by (auto simp: new_kraken_live_def kraken_live_inv_def kraken_sim_def counts_agree_def last_connection_def)
      (simp_all add: new_runtime_def SharedRuntime_def RuntimeStatus_def events_ordered_def)
  show "writer_inv fl [] (kl_runtime k)" by (simp add: p0 writer_inv_new)
  show "digest_inv fl sha k" by (simp add: p0 digest_inv_def new_runtime_def SharedRuntime_def)
qed

lemma final_state_name_session: "st \<noteq> Resyncing \<Longrightarrow> final_state_name st = session_book_name st"
  by (cases st) (simp_all add: final_state_name_def)

lemma kraken_contents_session: "ob_state b \<noteq> Resyncing \<Longrightarrow> kraken_contents b = book_contents None b"
  by (simp add: kraken_contents_def book_contents_def optional_json_def final_state_name_session)

text \<open>What is known of a run once both threads have ended without an error.\<close>

definition kraken_recorded ::
  "(double \<Rightarrow> string) \<Rightarrow> (string \<Rightarrow> string) \<Rightarrow> (string \<Rightarrow> uint32) \<Rightarrow> nat \<Rightarrow> received list \<Rightarrow> kraken_live \<Rightarrow> raw_message list \<Rightarrow>
   kraken_replay \<Rightarrow> bool" where
  "kraken_recorded fl sha crc depth received k ms s \<longleftrightarrow> (\<exists>r rd p0 text. rt_recorder (kl_runtime k) = Some r \<and>
     read_all (RawEventReader (Some (os_bytes (rc_output r)))) = (ms, rd) \<and> \<not> has_error rd \<and>
     map contents_of ms = received \<and> counts_agree ms (kl_runtime k) \<and> written_of (kl_runtime k) = written_counts ms \<and>
     list_all (\<lambda>m. rm_venue m = Kraken) ms \<and> indexed_from 0 ms \<and>
     KrakenBookProcessor depth = Inr p0 \<and>
     kraken_replay_records crc ms (new_kraken_replay p0 (map entry_of (kl_events k))) = Inr s \<and>
     ry_processor s = kl_processor k \<and> ry_lifecycle s = [] \<and> ry_count s = of_nat (length ms) \<and>
     kl_final_metrics k = kp_metrics (kl_processor k) \<and> events_ordered (length ms) (kl_events k) \<and>
     json_dump fl None (book_contents None (kp_book (ry_processor s))) = Inr text \<and> kl_final_book_hash k = sha text)"

lemma kraken_finish_simps [simp]:
  "kl_processor (kraken_finish k) = kl_processor k" "kl_events (kraken_finish k) = kl_events k" "kl_fatal (kraken_finish k) = kl_fatal k"
  "kl_done (kraken_finish k) = kl_done k" "kl_final_metrics (kraken_finish k) = kl_final_metrics k" "kl_final_book_hash (kraken_finish k) = kl_final_book_hash k"
  "rt_recorder (kl_runtime (kraken_finish k)) = rt_recorder (kl_runtime k)"
  "market_view (kl_runtime (kraken_finish k)) = market_view (kl_runtime k)" "written_of (kl_runtime (kraken_finish k)) = written_of (kl_runtime k)"
  "sh_writer_done (rt_shared (kl_runtime (kraken_finish k))) = sh_writer_done (rt_shared (kl_runtime k))"
  by (simp_all add: kraken_finish_def kl_set_status_def market_view_def set_status_def set_shared_def Let_def)

lemma kraken_run_recorded:
  assumes "run_kraken fl sha crc depth duration force_seconds config started ops = Inr (received, k)" and "market_ops_ok kraken_op_ok ops"
    and "kl_done k" and "sh_writer_done (rt_shared (kl_runtime k))" and "kl_fatal k = None"
    and "fits_uint64 (length received)" and "fits_uint64 (length (kl_events k) + 1)"
  shows "\<exists>ms s. kraken_recorded fl sha crc depth received k ms s"
proof -
  obtain k0 k1 where new: "new_kraken_live depth duration force_seconds config started = Inr k0"
    and run: "run_threads (kraken_live_step fl sha crc) kraken_received kl_runtime put_kraken_runtime fl ops k0 = (received, k1)"
    and k: "k = kraken_finish k1"
    using assms(1) by (cases "new_kraken_live depth duration force_seconds config started") (auto simp: run_kraken_def split: prod.splits)
  obtain p0 where p0: "KrakenBookProcessor depth = Inr p0" using new by (auto simp: new_kraken_live_def bind_exn_eq_Inr)
  note start = run_kraken_start [OF new p0]
  obtain acc r rd where acc: "kraken_live_inv crc p0 acc k1" "map contents_of acc = received" "rt_recorder (kl_runtime k1) = Some r"
    "read_all (RawEventReader (Some (os_bytes (rc_output r)))) = (acc, rd)" "\<not> has_error rd" "indexed_from 0 acc"
    "written_of (kl_runtime k1) = written_counts acc"
    using kraken_threads.ended_recording [OF start(1,2) assms(2) run] assms(4,5) by (auto simp: k)
  have "length acc = length received" using acc(2) by auto
  then have sim: "kraken_sim crc p0 acc k1" and counts: "counts_agree acc (kl_runtime k1)" and venue: "list_all (\<lambda>m. rm_venue m = Kraken) acc"
    and state: "ob_state (kl_book k1) \<noteq> Resyncing"
    using acc(1) assms(5-7) by (simp_all add: kraken_live_inv_def k)
  then have ordered: "events_ordered (length acc) (kl_events k1)" by (simp add: kraken_sim_def)
  obtain s where s: "kraken_replay_records crc acc (new_kraken_replay p0 (map entry_of (kl_events k1))) = Inr s"
    "ry_processor s = kl_processor k1" "ry_lifecycle s = []" "ry_count s = of_nat (length acc)"
    using sim by (auto simp: kraken_sim_def replays_to_def)
  obtain bytes where digest: "kl_final_metrics k1 = kp_metrics (kl_processor k1)" "json_dump fl None (kraken_contents (kl_book k1)) = Inr bytes" "kl_final_book_hash k1 = sha bytes"
    using kraken_threads_digest [OF run start(3)] assms(3,5) by (auto simp: digest_inv_def k)
  have "kraken_recorded fl sha crc depth received k acc s"
    unfolding kraken_recorded_def
    by (rule exI [of _ r], rule exI [of _ rd], rule exI [of _ p0], rule exI [of _ bytes])
      (use acc s p0 counts venue state digest ordered in \<open>simp add: k counts_agree_def kraken_contents_session\<close>)
  then show ?thesis by blast
qed

end
