(* ===== verification/KrakenReproduced.thy ===== *)
theory KrakenReproduced
  imports KrakenRecorded
begin

text \<open>
  The property of a whole Kraken run, with a run that meets its hypotheses: one message that does
  not parse, the recovery it causes, a requested stop and the writer's turns.
\<close>

lemma run_threads_snoc:
  "run_threads step recv get put fl (ops @ [Inl op]) c =
     (case run_threads step recv get put fl ops c of (ms, c') \<Rightarrow> (ms @ recv op c', step op c'))"
proof (induction ops arbitrary: c)
  case (Cons op' ops)
  then show ?case by (cases op') (simp_all split: prod.split)
qed simp

lemma kraken_contents_dumped: "\<exists>bytes. json_dump fl None (kraken_contents b) = Inr bytes"
proof -
  have "json_ascii (levels_json levels)" for levels by (induction levels) (auto simp: levels_json_def)
  then have "json_ascii (kraken_contents b)" by (auto simp: kraken_contents_def final_state_name_def)
  then show ?thesis by (rule json_dump_ascii)
qed

definition sample_kraken_live :: "kraken_processor \<Rightarrow> kraken_live" where
  "sample_kraken_live processor = \<lparr>kl_processor = processor, kl_runtime = new_runtime small_queue, kl_client = False, kl_aborted = False,
     kl_backoff = ReconnectPolicy, kl_retry = None, kl_tick_armed = False, kl_begun = False, kl_index = 0, kl_connection = 0,
     kl_stopping = False, kl_recovering = False, kl_connected = False, kl_first_record = True, kl_seen_record = False,
     kl_forced = False, kl_started = 0, kl_connected_at = 0, kl_checksum = 0, kl_final_metrics = [],
     kl_final_book_hash = [], kl_duration = 0, kl_force_seconds = 0\<rparr>"

definition sample_kraken_ops :: "(kraken_live_op + writer_op) list" where
  "sample_kraken_ops = [Inr (OpenFile good_disk 0), Inl (KrakenBegin 0 None 1 False), Inl (KrakenConnected 2),
     Inl (KrakenMessage [] 5 7), Inr (PopNext (NoFault, NoFault)), Inr (WriteNext (NoFault, NoFault, NoFault, NoFault)),
     Inl (KrakenTick 8 True), Inr (PopNext (NoFault, NoFault))]"

lemma sample_kraken_threads:
  "case run_threads (kraken_live_step (\<lambda>_. []) (\<lambda>_. []) (\<lambda>_. 0)) kraken_received kl_runtime put_kraken_runtime (\<lambda>_. [])
       sample_kraken_ops (sample_kraken_live p0) of
     (ms, k) \<Rightarrow> ms = [([], 5, 7)] \<and> kl_fatal k = None \<and> sh_writer_done (rt_shared (kl_runtime k)) \<and> kl_begun k \<and>
       \<not> kl_tick_armed k \<and> length (kl_events k) = 1 \<and> \<not> kl_done k"
  by code_simp

lemma sample_kraken_run:
  "\<exists>k. run_kraken (\<lambda>_. []) (\<lambda>_. []) (\<lambda>_. 0) 10 0 0 small_queue 0 (sample_kraken_ops @ [Inl KrakenEnd]) = Inr ([([], 5, 7)], k) \<and>
     kl_done k \<and> sh_writer_done (rt_shared (kl_runtime k)) \<and> kl_fatal k = None \<and> length (kl_events k) = 1"
proof -
  obtain p0 where p0: "KrakenBookProcessor 10 = Inr p0" by (simp add: KrakenBookProcessor_def validate_depth_def)
  have new: "new_kraken_live 10 0 0 small_queue 0 = Inr (sample_kraken_live p0)"
    by (simp add: new_kraken_live_def sample_kraken_live_def p0)
  obtain k where k: "run_threads (kraken_live_step (\<lambda>_. []) (\<lambda>_. []) (\<lambda>_. 0)) kraken_received kl_runtime put_kraken_runtime (\<lambda>_. [])
      sample_kraken_ops (sample_kraken_live p0) = ([([], 5, 7)], k)" "kl_fatal k = None" "sh_writer_done (rt_shared (kl_runtime k))"
    "kl_begun k" "\<not> kl_tick_armed k" "length (kl_events k) = 1" "\<not> kl_done k"
    using sample_kraken_threads [of p0] by (auto split: prod.splits)
  obtain bytes where "json_dump (\<lambda>_. []) None (kraken_contents (kl_book k)) = Inr bytes" using kraken_contents_dumped by blast
  then have "kraken_live_step (\<lambda>_. []) (\<lambda>_. []) (\<lambda>_. 0) KrakenEnd k = kraken_market_exit ((kraken_publish k)\<lparr>kl_final_book_hash := []\<rparr>)"
    using k by (simp add: kraken_live_step_def kraken_end_def Let_def)
  moreover have "sh_writer_done (rt_shared (kl_runtime (kraken_publish k))) = sh_writer_done (rt_shared (kl_runtime k))"
    by (simp add: kraken_publish_def kl_set_status_def set_status_def set_shared_def Let_def)
  ultimately show ?thesis
    using k new by (simp add: run_kraken_def run_threads_snoc) (simp add: kraken_market_exit_def set_shared_def close_queue_def)
qed

lemma sample_kraken_ops_ok: "market_ops_ok kraken_op_ok (sample_kraken_ops @ [Inl KrakenEnd])"
  by (simp add: market_ops_ok_def sample_kraken_ops_def int_limits)

text \<open>C2. Replay reproduces a live Kraken run. For every interleaving of the market thread with the raw writer
  thread: when both have ended and no fatal error was reported, the file reads back as exactly
  the messages received, and replaying these records with the recorded lifecycle events applies
  every event and ends with the same processor as the live run, field for field (book, checksum,
  metrics, outcome), so that the digest the capture stores is the digest the replay computes.\<close>

theorem kraken_replay_reproduces:
  assumes "run_kraken fl sha crc depth duration force_seconds config started ops = Inr (received, k)" and "market_ops_ok kraken_op_ok ops"
    and "kl_done k" and "sh_writer_done (rt_shared (kl_runtime k))" and "kl_fatal k = None"
    and "fits_uint64 (length received)" and "fits_uint64 (length (kl_events k) + 1)"
  shows "\<exists>r ms rd p0 s bytes. rt_recorder (kl_runtime k) = Some r \<and>
    read_all (RawEventReader (Some (os_bytes (rc_output r)))) = (ms, rd) \<and> \<not> has_error rd \<and> map contents_of ms = received \<and>
    KrakenBookProcessor depth = Inr p0 \<and>
    kraken_replay_records crc ms (new_kraken_replay p0 (map entry_of (kl_events k))) = Inr s \<and>
    ry_lifecycle s = [] \<and> ry_processor s = kl_processor k \<and>
    json_dump fl None (book_contents None (kp_book (ry_processor s))) = Inr bytes \<and> kl_final_book_hash k = sha bytes"
  using kraken_run_recorded [OF assms] unfolding kraken_recorded_def by (elim exE conjE) (intro exI conjI; assumption)

theorem kraken_replay_reproduces_witness:
  "\<exists>k r ms rd p0 s. run_kraken (\<lambda>_. []) (\<lambda>_. []) (\<lambda>_. 0) 10 0 0 small_queue 0 (sample_kraken_ops @ [Inl KrakenEnd]) = Inr ([([], 5, 7)], k) \<and>
    rt_recorder (kl_runtime k) = Some r \<and> read_all (RawEventReader (Some (os_bytes (rc_output r)))) = (ms, rd) \<and>
    map contents_of ms = [([], 5, 7)] \<and> length (kl_events k) = 1 \<and>
    kraken_replay_records (\<lambda>_. 0) ms (new_kraken_replay p0 (map entry_of (kl_events k))) = Inr s \<and> ry_processor s = kl_processor k"
proof -
  obtain k where k: "run_kraken (\<lambda>_. []) (\<lambda>_. []) (\<lambda>_. 0) 10 0 0 small_queue 0 (sample_kraken_ops @ [Inl KrakenEnd]) = Inr ([([], 5, 7)], k)"
    "kl_done k" "sh_writer_done (rt_shared (kl_runtime k))" "kl_fatal k = None" "length (kl_events k) = 1"
    using sample_kraken_run by blast
  have "fits_uint64 (length [([] :: string, 5 :: int, 7 :: int)])" "fits_uint64 (length (kl_events k) + 1)" using k(5) by (simp_all add: fits_uint64_def)
  from kraken_replay_reproduces [OF k(1) sample_kraken_ops_ok k(2-4) this] show ?thesis
    by (elim exE conjE) (rule exI [of _ k], intro exI conjI, rule k(1), assumption, assumption, assumption, rule k(5), assumption, assumption)
qed

end
