(* ===== verification/Session.thy ===== *)
theory Session
  imports LiveRuntime KrakenReplay
begin

text \<open>
  Recorded sessions: \<open>src/session/session.cpp\<close> up to \<open>Capture::finalize\<close>. The files of a session
  directory are a map from relative paths to contents. SHA-256 (\<open>sha\<close>, in hexadecimal), the
  wall clock text, the names the build defines and what the system calls answer are arguments.
\<close>

section \<open>Publishing a document\<close>

type_synonym files = "string \<Rightarrow> string option"

text \<open>
  What the system answers to one publication: \<open>create_directories\<close>, the suffix \<open>mkstemp\<close> chooses,
  the result of the i-th \<open>write\<close>, of \<open>fsync\<close>, \<open>close\<close> and of the rename where nothing is in its way.
\<close>

record publish_answers =
  pa_directories :: "unit result"
  pa_suffix :: "string option"
  pa_write :: "nat \<Rightarrow> int"
  pa_fsync :: bool
  pa_close :: bool
  pa_rename :: bool

text \<open>A \<open>write\<close> that succeeds takes at least one byte and at most what it was given.\<close>

function write_loop :: "(nat \<Rightarrow> int) \<Rightarrow> nat \<Rightarrow> string \<Rightarrow> string \<Rightarrow> bool \<times> string" where
  "write_loop answer call bytes written =
     (if bytes = [] then (True, written)
      else let count = answer call in
        if count \<le> 0 then (False, written)
        else let n = min (nat count) (length bytes)
          in write_loop answer (call + 1) (drop n bytes) (written @ take n bytes))"
  by auto
termination by (relation "measure (\<lambda>(_, _, bytes, _). length bytes)") (auto simp: min_def)

declare write_loop.simps [simp del]

definition publish :: "(double \<Rightarrow> string) \<Rightarrow> publish_answers \<Rightarrow> string \<Rightarrow> json \<Rightarrow> files \<Rightarrow> unit result \<times> files" where
  "publish fl ans path value fs =
     (case pa_directories ans of
        Inl e \<Rightarrow> (Inl e, fs)
      | Inr _ \<Rightarrow>
          case pa_suffix ans of
            None \<Rightarrow> (Inl (RuntimeError ''cannot create temporary manifest/result''), fs)
          | Some suffix \<Rightarrow>
              let name = path @ ''.tmp-'' @ suffix in
              if fs name \<noteq> None then (Inl (RuntimeError ''cannot create temporary manifest/result''), fs)
              else case json_dump fl (Some (2, 0)) value of
                  Inl e \<Rightarrow> (Inl e, fs(name \<mapsto> []))
                | Inr text \<Rightarrow>
                    let (ok, written) = write_loop (pa_write ans) 0 (text @ [CHR 0x0A]) [];
                        ok = (ok \<and> pa_fsync ans \<and> pa_close ans);
                        renamed = (ok \<and> pa_rename ans \<and> fs path = None)
                    in if renamed then (Inr (), fs(path \<mapsto> written))
                       else (Inl (RuntimeError (''cannot atomically publish new file: '' @ path)), fs))"

section \<open>Scanning and hashing a recording\<close>

text \<open>One reading of a file: it is missing, the device fails, or its bytes.\<close>

datatype file_read = Missing | Broken | Contents string

fun file_sha256 :: "(string \<Rightarrow> string) \<Rightarrow> string \<Rightarrow> file_read \<Rightarrow> string result" where
  "file_sha256 sha path Missing = Inl (RuntimeError (''missing raw file: '' @ path))"
| "file_sha256 sha path Broken = Inl (RuntimeError ''raw file read failed'')"
| "file_sha256 sha path (Contents bytes) = Inr (sha bytes)"

record scan_result =
  sc_records :: uint64
  sc_connections :: "uint64 set"

fun scan_loop :: "venue \<Rightarrow> raw_message list \<Rightarrow> scan_result \<Rightarrow> scan_result result" where
  "scan_loop venue [] result = Inr result"
| "scan_loop venue (e # es) result =
     (if rm_venue e \<noteq> venue then Inl (RuntimeError ''unexpected venue'')
      else scan_loop venue es \<lparr>sc_records = sc_records result + 1, sc_connections = insert (rm_connection_id e) (sc_connections result)\<rparr>)"

definition scan_file :: "venue \<Rightarrow> string option \<Rightarrow> scan_result result" where
  "scan_file venue raw =
     (let (es, reader) = read_all (RawEventReader raw) in
      bind_exn (scan_loop venue es \<lparr>sc_records = 0, sc_connections = {}\<rparr>) (\<lambda>result.
        if has_error reader then Inl (RuntimeError (rd_last_error reader)) else Inr result))"

section \<open>Configuration\<close>

definition configuration :: "(string, json) omap" where
  "configuration =
     [(''instruments'', JArray [JString ''BTC-USD'']), (''processor_version'', JInt 1),
      (''product_metadata'', JObject [(''coinbase:BTC-USD'', JObject [(''price_scale'', JInt 2), (''quantity_scale'', JInt 8)])]),
      (''venues'', JArray [JString ''coinbase''])]"

definition kraken_configuration :: "nat \<Rightarrow> (string, json) omap result" where
  "kraken_configuration depth =
     bind_exn (validate_depth depth) (\<lambda>_. Inr
       [(''instruments'', JArray [JString ''BTC_USD'']), (''processor_version'', JInt 1),
        (''product_metadata'', JObject [(''kraken:BTC_USD'', JObject [(''price_scale'', JInt 2), (''quantity_scale'', JInt 8)])]),
        (''subscriptions'', JObject [(''kraken:BTC_USD'', JObject [(''channel'', JString ''book''), (''depth'', JUInt (of_nat depth))])]),
        (''venue_symbols'', JObject [(''kraken:BTC_USD'', JString ''BTC/USD'')]),
        (''venues'', JArray [JString ''kraken''])])"

section \<open>Capture\<close>

definition put :: "string \<Rightarrow> json \<Rightarrow> (string, json) omap \<Rightarrow> (string, json) omap" where
  "put key value m = om_insert_or_assign str_less key value m"

record build_info =
  bi_git_commit :: string
  bi_build_type :: string
  bi_os :: string
  bi_arch :: string

record capture =
  cp_name :: string
  cp_manifest :: "(string, json) omap"

definition in_progress_manifest ::
  "(double \<Rightarrow> string) \<Rightarrow> (string \<Rightarrow> string) \<Rightarrow> build_info \<Rightarrow> string \<Rightarrow> string \<Rightarrow> string \<Rightarrow> nat \<Rightarrow> (string, json) omap result" where
  "in_progress_manifest fl sha build utc_now name venue depth =
     bind_exn (if venue = ''kraken'' then kraken_configuration depth else Inr configuration) (\<lambda>config.
     bind_exn (json_dump fl None (JObject config)) (\<lambda>text. Inr
       (put ''raw_files'' (JArray [JObject [(''path'', JString (''raw/'' @ venue @ ''.jsonl'')), (''venue'', JString venue)]])
       (put ''configuration_hash'' (JString (sha text))
       (put ''platform'' (JObject [(''architecture'', JString (bi_arch build)), (''os'', JString (bi_os build))])
       (put ''application'' (JObject [(''build_type'', JString (bi_build_type build)), (''git_commit'', JString (bi_git_commit build))])
       (put ''started_at_utc'' (JString utc_now)
       (put ''status'' (JString ''in_progress'')
       (put ''session_id'' (JString name)
       (put ''format_version'' (JInt 1) config))))))))))"

text \<open>
  The constructor. \<open>parents\<close>, \<open>created\<close> and \<open>raw_created\<close> are the answers to the creation of the
  parent directory, of the session directory and of its \<open>raw\<close> directory.
\<close>

definition Capture ::
  "(double \<Rightarrow> string) \<Rightarrow> (string \<Rightarrow> string) \<Rightarrow> build_info \<Rightarrow> unit result \<Rightarrow> bool result \<Rightarrow> bool result \<Rightarrow> string \<Rightarrow> publish_answers \<Rightarrow>
   string \<Rightarrow> string \<Rightarrow> nat \<Rightarrow> files \<Rightarrow> capture result \<times> files" where
  "Capture fl sha build parents created raw_created utc_now ans name venue depth fs =
     (if venue \<noteq> ''coinbase'' \<and> venue \<noteq> ''kraken'' then (Inl (InvalidArgument ''unsupported venue''), fs)
      else case bind_exn parents (\<lambda>_. bind_exn created (\<lambda>fresh.
             if \<not> fresh then Inl (RuntimeError ''session directory must be new'')
             else bind_exn raw_created (\<lambda>_. in_progress_manifest fl sha build utc_now name venue depth))) of
          Inl e \<Rightarrow> (Inl e, fs)
        | Inr m \<Rightarrow>
            case publish fl ans ''manifest.inprogress.json'' (JObject m) fs of
              (Inl e, fs') \<Rightarrow> (Inl e, fs')
            | (Inr _, fs') \<Rightarrow> (Inr \<lparr>cp_name = name, cp_manifest = m\<rparr>, fs'))"

definition set_metrics :: "(string, uint64) omap \<Rightarrow> capture \<Rightarrow> capture" where
  "set_metrics metrics c = c\<lparr>cp_manifest := put ''metrics'' (JObject (map (\<lambda>(key, n). (key, JUInt n)) metrics)) (cp_manifest c)\<rparr>"

definition set_final_book_hash :: "string \<Rightarrow> capture \<Rightarrow> capture" where
  "set_final_book_hash hash c = c\<lparr>cp_manifest := put ''final_book_hash'' (JString hash) (cp_manifest c)\<rparr>"

section \<open>Finalization\<close>

text \<open>The status and the name of the runtime state; a state that is not final is refused.\<close>

fun final_status :: "runtime_state \<Rightarrow> (string \<times> string) result" where
  "final_status Stopped = Inr (''complete'', ''Stopped'')"
| "final_status StoppedRecordingError = Inr (''recording_failure'', ''StoppedRecordingError'')"
| "final_status StoppedQueueFull = Inr (''queue_overflow'', ''StoppedQueueFull'')"
| "final_status StoppedProcessingError = Inr (''processing_failure'', ''StoppedProcessingError'')"
| "final_status _ = Inl (RuntimeError ''cannot finalize running recorder'')"

definition event_json :: "lifecycle_event \<Rightarrow> json" where
  "event_json event = JObject [(''before_record_index'', JUInt (le_before_record_index event)), (''reason'', JString (le_reason event)),
     (''state'', JString (session_book_name (le_state event)))]"

definition final_fields :: "string \<Rightarrow> string \<Rightarrow> string \<Rightarrow> runtime_status \<Rightarrow> (string, json) omap \<Rightarrow> (string, json) omap" where
  "final_fields status runtime utc_now s m =
     put ''unpersisted_processed_tail'' (JBool (unpersisted_processed_range s \<noteq> []))
     (put ''unpersisted_records'' (JUInt (rs_received_messages s - rs_written_messages s))
     (put ''last_processed_index'' (optional_json (rp_last_processed_index (rs_progress s)))
     (put ''last_written_index'' (optional_json (rp_last_written_index (rs_progress s)))
     (put ''last_enqueued_index'' (optional_json (rp_last_enqueued_index (rs_progress s)))
     (put ''last_received_index'' (optional_json (rp_last_received_index (rs_progress s)))
     (put ''stop_reason'' (JString (case rs_fatal_error s of None \<Rightarrow> ''requested_shutdown'' | Some e \<Rightarrow> e))
     (put ''ended_at_utc'' (JString utc_now)
     (put ''final_runtime_state'' (JString runtime)
     (put ''status'' (JString status)
     (put ''lifecycle_events'' (JArray (map event_json (rs_lifecycle_events s))) m))))))))))"

text \<open>
  The venue of the manifest and the object of its raw file; both are set by the constructor.
\<close>

definition raw_file_of :: "(string, json) omap \<Rightarrow> (string, json) omap" where
  "raw_file_of m = (case om_find ''raw_files'' m of Some (JArray [JObject raw]) \<Rightarrow> raw | _ \<Rightarrow> [])"

definition raw_path :: "(string, json) omap \<Rightarrow> string" where
  "raw_path m = (case om_find ''path'' (raw_file_of m) of Some (JString path) \<Rightarrow> path | _ \<Rightarrow> [])"

definition capture_venue :: "(string, json) omap \<Rightarrow> venue" where
  "capture_venue m =
     (case om_find ''venues'' m of Some (JArray (v # _)) \<Rightarrow> if json_eq v (JString ''kraken'') then Kraken else Coinbase | _ \<Rightarrow> Coinbase)"

definition raw_fields :: "(string \<Rightarrow> string) \<Rightarrow> string \<Rightarrow> runtime_status \<Rightarrow> (string, json) omap \<Rightarrow> (string, json) omap" where
  "raw_fields sha bytes s raw =
     put ''last_record_index'' (optional_json (rp_last_written_index (rs_progress s)))
     (put ''first_record_index'' (if rs_written_messages s \<noteq> 0 then JInt 0 else JNull)
     (put ''records'' (JUInt (rs_written_messages s))
     (put ''sha256'' (JString (sha bytes))
     (put ''bytes'' (JUInt (of_nat (length bytes))) raw))))"

definition scan_fields :: "runtime_status \<Rightarrow> scan_result result \<Rightarrow> (string, json) omap \<Rightarrow> (string, json) omap" where
  "scan_fields s scanned m =
     (case scanned of
        Inl _ \<Rightarrow> put ''status'' (JString ''recording_failure'') m
      | Inr result \<Rightarrow>
          let m = put ''connections'' (JUInt (of_nat (card (sc_connections result)))) m
          in if sc_records result \<noteq> rs_written_messages s then put ''status'' (JString ''recording_failure'') m else m)"

definition raw_file_fields :: "(string \<Rightarrow> string) \<Rightarrow> string option \<Rightarrow> runtime_status \<Rightarrow> (string, json) omap \<Rightarrow> (string, json) omap" where
  "raw_file_fields sha raw s m =
     (case raw of
        None \<Rightarrow> put ''connections'' (JInt 0) m
      | Some bytes \<Rightarrow>
          scan_fields s (scan_file (capture_venue m) (Some bytes))
            (put ''raw_files'' (JArray [JObject (raw_fields sha bytes s (raw_file_of m))]) m))"

definition final_manifest ::
  "(string \<Rightarrow> string) \<Rightarrow> string \<Rightarrow> runtime_status \<Rightarrow> files \<Rightarrow> (string, json) omap \<Rightarrow> (string, json) omap result" where
  "final_manifest sha utc_now s fs m =
     bind_exn (final_status (rs_runtime_state s)) (\<lambda>(status, runtime).
       let m = raw_file_fields sha (fs (raw_path m)) s (final_fields status runtime utc_now s m)
       in Inr (if om_find ''status'' m = Some (JString ''complete'') \<and>
                  (rs_fatal_error s \<noteq> None \<or> rs_received_messages s \<noteq> rs_written_messages s)
               then put ''status'' (JString ''recording_failure'') m else m))"

definition finalize ::
  "(double \<Rightarrow> string) \<Rightarrow> (string \<Rightarrow> string) \<Rightarrow> string \<Rightarrow> publish_answers \<Rightarrow> runtime_status \<Rightarrow> capture \<Rightarrow> files \<Rightarrow>
   capture result \<times> files" where
  "finalize fl sha utc_now ans s c fs =
     (case final_manifest sha utc_now s fs (cp_manifest c) of
        Inl e \<Rightarrow> (Inl e, fs)
      | Inr m \<Rightarrow>
          case publish fl ans ''manifest.json'' (JObject m) fs of
            (Inl e, fs') \<Rightarrow> (Inl e, fs')
          | (Inr _, fs') \<Rightarrow> (Inr (c\<lparr>cp_manifest := m\<rparr>), fs'(''manifest.inprogress.json'' := None)))"

end
