(* ===== verification/SessionReplay.thy ===== *)
theory SessionReplay
  imports Session
begin

text \<open>
  \<open>sessions::replay\<close> in \<open>src/session/session.cpp\<close>: the validation of the manifest and of the recording
  before anything is processed. Every reading of a file is an argument of its own, so that a
  source that changes between two readings is part of the model.
\<close>

section \<open>Helpers\<close>

definition require :: "bool \<Rightarrow> string \<Rightarrow> unit result" where
  "require condition message = (if condition then Inr () else Inl (RuntimeError message))"

fun json_size :: "json \<Rightarrow> nat" where
  "json_size JNull = 0"
| "json_size (JArray xs) = length xs"
| "json_size (JObject m) = length m"
| "json_size _ = 1"

definition json_at_index :: "json \<Rightarrow> nat \<Rightarrow> json result" where
  "json_at_index j i =
     (case j of JArray xs \<Rightarrow> if i < length xs then Inr (xs ! i) else Inl (JsonOutOfRange 401) | _ \<Rightarrow> Inl (JsonTypeError 304))"

definition is_absolute :: "string \<Rightarrow> bool" where
  "is_absolute path \<longleftrightarrow> (case path of [] \<Rightarrow> False | c # _ \<Rightarrow> c = CHR ''/'')"

text \<open>\<open>lexically_relative\<close> on the components of two canonical paths.\<close>

fun lexically_relative :: "string list \<Rightarrow> string list \<Rightarrow> string list" where
  "lexically_relative [] [] = [''.'']"
| "lexically_relative path [] = path"
| "lexically_relative [] base = map (\<lambda>_. ''..'') base"
| "lexically_relative (p # path) (b # base) =
     (if p = b then lexically_relative path base else map (\<lambda>_. ''..'') (b # base) @ p # path)"

text \<open>What the file system answers in the course of one replay.\<close>

record session_reads =
  sr_directory :: string
  sr_exists :: bool
  sr_manifest :: "string option"
  sr_in_progress :: "string option"
  sr_root :: "string list result"
  sr_raw_path :: "string \<Rightarrow> string list result"
  sr_raw_hash :: file_read
  sr_raw_size :: "uint64 result"
  sr_raw_scan :: "string option"
  sr_raw_loop :: "string option"
  sr_raw_again :: file_read
  sr_manifest_again :: file_read

section \<open>The manifest\<close>

definition manifest_bytes :: "bool \<Rightarrow> session_reads \<Rightarrow> string result" where
  "manifest_bytes allow_incomplete r =
     (case (if \<not> sr_exists r \<and> allow_incomplete then sr_in_progress r else sr_manifest r) of
        None \<Rightarrow> Inl (RuntimeError ''missing session manifest'') | Some bytes \<Rightarrow> Inr bytes)"

definition check_status :: "bool \<Rightarrow> json \<Rightarrow> bool result" where
  "check_status allow_incomplete manifest =
     bind_exn (json_at manifest ''format_version'') (\<lambda>version.
     bind_exn (require (is_number_unsigned version \<and> json_eq version (JInt 1)) ''unsupported manifest version'') (\<lambda>_.
     bind_exn (bind_exn (json_at manifest ''status'') get_string) (\<lambda>status.
     bind_exn (require (status \<in> {''in_progress'', ''complete'', ''recording_failure'', ''queue_overflow'', ''processing_failure'', ''interrupted''})
       ''unknown session status'') (\<lambda>_.
     bind_exn (require (status = ''complete'' \<or> allow_incomplete) ''incomplete session requires --allow-incomplete'') (\<lambda>_.
       Inr (status = ''complete''))))))"

definition check_scale :: "json \<Rightarrow> string \<Rightarrow> unit result" where
  "check_scale precision key =
     bind_exn (json_at precision key) (\<lambda>v.
     bind_exn (require (is_number_unsigned v) ''unsupported precision scale'') (\<lambda>_.
     bind_exn (get_uint64 v) (\<lambda>scale. require (scale \<le> 18) ''unsupported precision scale'')))"

definition check_products :: "string \<Rightarrow> json \<Rightarrow> json result" where
  "check_products product_key manifest =
     bind_exn (json_at manifest ''product_metadata'') (\<lambda>products.
     bind_exn (require (is_object products \<and> json_size products = 1 \<and> json_contains products product_key) ''unexpected product metadata'') (\<lambda>_.
     bind_exn (json_at products product_key) (\<lambda>precision.
     bind_exn (require (is_object precision \<and> json_size precision = 2) ''invalid precision metadata'') (\<lambda>_.
     bind_exn (check_scale precision ''price_scale'') (\<lambda>_.
     bind_exn (check_scale precision ''quantity_scale'') (\<lambda>_. Inr products))))))"

definition same_value :: "json \<Rightarrow> (string, json) omap \<Rightarrow> string \<Rightarrow> bool result" where
  "same_value manifest config key =
     bind_exn (json_at manifest key) (\<lambda>v. bind_exn (json_at (JObject config) key) (\<lambda>c. Inr (json_eq v c)))"

fun check_keys :: "json \<Rightarrow> (string, json) omap \<Rightarrow> string list \<Rightarrow> unit result" where
  "check_keys manifest config [] = Inr ()"
| "check_keys manifest config (key # keys) =
     bind_exn (same_value manifest config key) (\<lambda>same.
     bind_exn (require same ''unexpected venue, instrument, precision or processor configuration'') (\<lambda>_.
       check_keys manifest config keys))"

text \<open>The venue, the depth of the subscription, and the configuration with the recorded precision.\<close>

definition is_kraken :: "json \<Rightarrow> bool result" where
  "is_kraken manifest = bind_exn (json_at manifest ''venues'') (\<lambda>v. Inr (json_eq v (JArray [JString ''kraken''])))"

definition manifest_depth :: "bool \<Rightarrow> json \<Rightarrow> nat result" where
  "manifest_depth kraken manifest =
     (if kraken
      then bind_exn (json_at manifest ''subscriptions'') (\<lambda>subscriptions. bind_exn (json_at subscriptions ''kraken:BTC_USD'') (\<lambda>subscription.
        bind_exn (json_at subscription ''depth'') (\<lambda>v. bind_exn (get_uint64 v) (\<lambda>depth. Inr (unat depth)))))
      else Inr 100)"

definition check_configuration :: "(double \<Rightarrow> string) \<Rightarrow> (string \<Rightarrow> string) \<Rightarrow> bool \<Rightarrow> nat \<Rightarrow> json \<Rightarrow> unit result" where
  "check_configuration fl sha kraken depth manifest =
     bind_exn (if kraken then kraken_configuration depth else Inr configuration) (\<lambda>config.
     bind_exn (check_products (if kraken then ''kraken:BTC_USD'' else ''coinbase:BTC-USD'') manifest) (\<lambda>products.
     bind_exn (if kraken then bind_exn (json_at (JObject config) ''product_metadata'') (\<lambda>c. require (json_eq products c) ''unsupported Kraken precision'')
               else Inr ()) (\<lambda>_.
     let config = put ''product_metadata'' products config in
     bind_exn (if kraken
               then bind_exn (same_value manifest config ''venue_symbols'') (\<lambda>symbols.
                 bind_exn (if symbols then same_value manifest config ''subscriptions'' else Inr False) (\<lambda>same.
                   require same ''unsupported Kraken subscription''))
               else Inr ()) (\<lambda>_.
     bind_exn (check_keys manifest config [''venues'', ''instruments'', ''product_metadata'', ''processor_version'']) (\<lambda>_.
     bind_exn (json_at manifest ''configuration_hash'') (\<lambda>hash.
     bind_exn (json_dump fl None (JObject config)) (\<lambda>text.
       require (json_eq hash (JString (sha text))) ''configuration hash mismatch'')))))))"

section \<open>The raw file\<close>

definition raw_metadata :: "bool \<Rightarrow> json \<Rightarrow> json result" where
  "raw_metadata kraken manifest =
     bind_exn (json_at manifest ''raw_files'') (\<lambda>raw_files.
     bind_exn (require (json_size raw_files = 1) ''expected one Coinbase raw file'') (\<lambda>_.
     bind_exn (json_at_index raw_files 0) (\<lambda>metadata.
     bind_exn (json_at metadata ''venue'') (\<lambda>venue.
     bind_exn (require (json_eq venue (JString (if kraken then ''kraken'' else ''coinbase''))) ''unexpected raw venue'') (\<lambda>_.
       Inr metadata)))))"

definition path_text :: "string list \<Rightarrow> string" where
  "path_text path = concat (map (\<lambda>component. CHR ''/'' # component) path)"

definition check_path :: "session_reads \<Rightarrow> json \<Rightarrow> string result" where
  "check_path r metadata =
     bind_exn (bind_exn (json_at metadata ''path'') get_string) (\<lambda>relative.
     bind_exn (require (\<not> is_absolute relative) ''raw path must be relative'') (\<lambda>_.
     bind_exn (sr_root r) (\<lambda>root.
     bind_exn (sr_raw_path r relative) (\<lambda>raw.
       let inside = lexically_relative raw root
       in bind_exn (require (\<not> (inside = [] \<or> hd inside = ''..'')) ''raw path escapes session'') (\<lambda>_. Inr (path_text raw))))))"

text \<open>A field is compared when the session is complete or the field is there.\<close>

definition check_field :: "bool \<Rightarrow> json \<Rightarrow> string \<Rightarrow> (json \<Rightarrow> bool) \<Rightarrow> string \<Rightarrow> unit result" where
  "check_field complete j key ok message =
     (if complete \<or> json_contains j key then bind_exn (json_at j key) (\<lambda>v. require (ok v) message) else Inr ())"

definition check_raw :: "(string \<Rightarrow> string) \<Rightarrow> session_reads \<Rightarrow> bool \<Rightarrow> bool \<Rightarrow> json \<Rightarrow> (string \<times> string \<times> uint64) result" where
  "check_raw sha r kraken complete metadata =
     bind_exn (check_path r metadata) (\<lambda>raw.
     bind_exn (file_sha256 sha raw (sr_raw_hash r)) (\<lambda>checksum.
     bind_exn (check_field complete metadata ''bytes'' is_number_unsigned ''invalid raw metadata count'') (\<lambda>_.
     bind_exn (check_field complete metadata ''records'' is_number_unsigned ''invalid raw metadata count'') (\<lambda>_.
     bind_exn (if complete \<or> json_contains metadata ''bytes''
               then bind_exn (json_at metadata ''bytes'') (\<lambda>v. bind_exn (sr_raw_size r) (\<lambda>size. require (json_eq v (JUInt size)) ''raw file size mismatch''))
               else Inr ()) (\<lambda>_.
     bind_exn (check_field complete metadata ''sha256'' (\<lambda>v. json_eq v (JString checksum)) ''raw checksum mismatch'') (\<lambda>_.
     bind_exn (scan_file (if kraken then Kraken else Coinbase) (sr_raw_scan r)) (\<lambda>scanned.
     bind_exn (check_field complete metadata ''records'' (\<lambda>v. json_eq v (JUInt (sc_records scanned))) ''raw record count mismatch'') (\<lambda>_.
       Inr (raw, checksum, sc_records scanned)))))))))"

section \<open>A complete session\<close>

definition last_index :: "uint64 \<Rightarrow> json" where
  "last_index records = (if records \<noteq> 0 then JUInt (records - 1) else JNull)"

fun check_progress :: "json \<Rightarrow> json \<Rightarrow> string list \<Rightarrow> unit result" where
  "check_progress manifest expected [] = Inr ()"
| "check_progress manifest expected (key # keys) =
     bind_exn (json_at manifest key) (\<lambda>v.
     bind_exn (require (json_eq v expected) ''inconsistent complete runtime progress'') (\<lambda>_. check_progress manifest expected keys))"

definition json_is :: "json \<Rightarrow> string \<Rightarrow> json \<Rightarrow> bool result" where
  "json_is j key expected = bind_exn (json_at j key) (\<lambda>v. Inr (json_eq v expected))"

definition check_complete :: "uint64 \<Rightarrow> json \<Rightarrow> json \<Rightarrow> unit result" where
  "check_complete records metadata manifest =
     bind_exn (check_progress manifest (last_index records)
       [''last_received_index'', ''last_enqueued_index'', ''last_written_index'', ''last_processed_index'']) (\<lambda>_.
     bind_exn (json_is manifest ''final_runtime_state'' (JString ''Stopped'')) (\<lambda>stopped.
     bind_exn (require stopped ''complete session has non-stopped runtime'') (\<lambda>_.
     bind_exn (json_is metadata ''first_record_index'' (if records \<noteq> 0 then JInt 0 else JNull)) (\<lambda>first_ok.
     bind_exn (if first_ok then json_is metadata ''last_record_index'' (last_index records) else Inr False) (\<lambda>last_ok.
     bind_exn (if last_ok then json_is manifest ''unpersisted_records'' (JInt 0) else Inr False) (\<lambda>records_ok.
     bind_exn (if records_ok then json_is manifest ''unpersisted_processed_tail'' (JBool False) else Inr False) (\<lambda>tail_ok.
       require tail_ok ''inconsistent complete manifest'')))))))"

section \<open>Lifecycle events\<close>

text \<open>What a range-based loop over a JSON value visits.\<close>

fun json_elements :: "json \<Rightarrow> json list" where
  "json_elements JNull = []"
| "json_elements (JArray xs) = xs"
| "json_elements (JObject m) = map snd m"
| "json_elements j = [j]"

definition decode_event :: "bool \<Rightarrow> uint64 \<Rightarrow> uint64 \<Rightarrow> json \<Rightarrow> lifecycle_entry result" where
  "decode_event complete records last_lifecycle_index event =
     bind_exn (json_at event ''before_record_index'') (\<lambda>v.
     bind_exn (require (is_number_unsigned v) ''invalid lifecycle index'') (\<lambda>_.
     bind_exn (get_uint64 v) (\<lambda>index.
     bind_exn (require (\<not> index < last_lifecycle_index \<and> \<not> (complete \<and> index > records)) ''invalid lifecycle event'') (\<lambda>_.
     bind_exn (bind_exn (json_at event ''state'') get_string) (\<lambda>state.
     bind_exn (require (state \<in> {''DISCONNECTED'', ''RESYNCING'', ''INITIALIZING'', ''STALE'', ''INVALID''}) ''invalid lifecycle event'') (\<lambda>_.
     bind_exn (json_at event ''reason'') (\<lambda>reason.
       case reason of JString text \<Rightarrow> Inr \<lparr>en_index = index, en_state = state, en_reason = text\<rparr>
       | _ \<Rightarrow> Inl (RuntimeError ''invalid lifecycle event''))))))))"

fun decode_events :: "bool \<Rightarrow> uint64 \<Rightarrow> uint64 \<Rightarrow> json list \<Rightarrow> lifecycle_entry list result" where
  "decode_events complete records last_lifecycle_index [] = Inr []"
| "decode_events complete records last_lifecycle_index (event # events) =
     bind_exn (decode_event complete records last_lifecycle_index event) (\<lambda>entry.
     bind_exn (decode_events complete records (en_index entry) events) (\<lambda>entries. Inr (entry # entries)))"

text \<open>The loops index the value, which only an array allows.\<close>

definition lifecycle_entries :: "bool \<Rightarrow> uint64 \<Rightarrow> json \<Rightarrow> lifecycle_entry list result" where
  "lifecycle_entries complete records manifest =
     (if \<not> is_object manifest then Inl (JsonTypeError 306)
      else let events = (case json_find ''lifecycle_events'' manifest of None \<Rightarrow> JArray [] | Some v \<Rightarrow> v) in
        bind_exn (decode_events complete records 0 (json_elements events)) (\<lambda>entries.
          if is_array events \<or> entries = [] then Inr entries else Inl (JsonTypeError 305)))"

section \<open>A validated session\<close>

record validated =
  vd_manifest :: json
  vd_manifest_checksum :: string
  vd_complete :: bool
  vd_kraken :: bool
  vd_depth :: nat
  vd_raw :: string
  vd_checksum :: string
  vd_records :: uint64
  vd_events :: "lifecycle_entry list"

definition validate_session :: "(double \<Rightarrow> string) \<Rightarrow> (string \<Rightarrow> string) \<Rightarrow> bool \<Rightarrow> session_reads \<Rightarrow> validated result" where
  "validate_session fl sha allow_incomplete r =
     bind_exn (manifest_bytes allow_incomplete r) (\<lambda>bytes.
     bind_exn (json_parse bytes) (\<lambda>manifest.
     bind_exn (check_status allow_incomplete manifest) (\<lambda>complete.
     bind_exn (is_kraken manifest) (\<lambda>kraken.
     bind_exn (manifest_depth kraken manifest) (\<lambda>depth.
     bind_exn (check_configuration fl sha kraken depth manifest) (\<lambda>_.
     bind_exn (raw_metadata kraken manifest) (\<lambda>metadata.
     bind_exn (check_raw sha r kraken complete metadata) (\<lambda>(raw, checksum, records).
     bind_exn (if complete then check_complete records metadata manifest else Inr ()) (\<lambda>_.
     bind_exn (lifecycle_entries complete records manifest) (\<lambda>events.
       Inr \<lparr>vd_manifest = manifest, vd_manifest_checksum = sha bytes, vd_complete = complete, vd_kraken = kraken, vd_depth = depth,
            vd_raw = raw, vd_checksum = checksum, vd_records = records, vd_events = events\<rparr>))))))))))"

end
