(* ===== verification/Replay.thy ===== *)
theory Replay
  imports SessionReplay
begin

text \<open>
  \<open>sessions::replay\<close> in \<open>src/session/session.cpp\<close> after the validation: the Coinbase loop, the result
  documents of both venues and their publication.
\<close>

section \<open>Documents\<close>

definition object_of :: "(string \<times> json) list \<Rightarrow> (string, json) omap" where
  "object_of pairs = fold (\<lambda>(key, value). put key value) pairs []"

definition counts_json :: "(string, uint64) omap \<Rightarrow> json" where
  "counts_json counts = JObject (map (\<lambda>(key, n). (key, JUInt n)) counts)"

definition best_json :: "book_level option \<Rightarrow> json" where
  "best_json best = (case best of None \<Rightarrow> JNull | Some level \<Rightarrow> JInt (lv_price level))"

text \<open>The fields every result has, with the digests of the book and of the transitions.\<close>

definition source_fields :: "validated \<Rightarrow> uint64 \<Rightarrow> (string \<times> json) list result" where
  "source_fields v count =
     bind_exn (json_at (vd_manifest v) ''session_id'') (\<lambda>session_id.
     bind_exn (json_at (vd_manifest v) ''configuration_hash'') (\<lambda>configuration_hash. Inr
       [(''format_version'', JInt 1), (''source_session_id'', session_id), (''source_manifest_sha256'', JString (vd_manifest_checksum v)),
        (''source_raw_sha256'', JString (vd_checksum v)), (''configuration_hash'', configuration_hash),
        (''complete_source'', JBool (vd_complete v)), (''research_valid'', JBool (vd_complete v)), (''messages_read'', JUInt count)]))"

text \<open>The digest of the result without the fields that name the source, then the optional book.\<close>

definition finish_result :: "(double \<Rightarrow> string) \<Rightarrow> (string \<Rightarrow> string) \<Rightarrow> bool \<Rightarrow> json \<Rightarrow> (string, json) omap \<Rightarrow> (string, json) omap result" where
  "finish_result fl sha include_final_book contents result =
     (let canonical = put ''final_book'' contents (om_erase ''source_manifest_sha256'' (om_erase ''source_session_id'' result)) in
      bind_exn (json_dump fl None (JObject canonical)) (\<lambda>text.
        let result = put ''deterministic_result_hash'' (JString (sha text)) result
        in Inr (if include_final_book then put ''final_book'' contents result else result)))"

definition manifest_path :: "bool \<Rightarrow> session_reads \<Rightarrow> string" where
  "manifest_path allow_incomplete r =
     sr_directory r @ (if \<not> sr_exists r \<and> allow_incomplete then ''/manifest.inprogress.json'' else ''/manifest.json'')"

definition check_manifest_again :: "(string \<Rightarrow> string) \<Rightarrow> bool \<Rightarrow> session_reads \<Rightarrow> validated \<Rightarrow> unit result" where
  "check_manifest_again sha allow_incomplete r v =
     bind_exn (file_sha256 sha (manifest_path allow_incomplete r) (sr_manifest_again r)) (\<lambda>hash.
       require (hash = vd_manifest_checksum v) ''manifest changed during replay'')"

definition in_progress :: "validated \<Rightarrow> bool result" where
  "in_progress v = json_is (vd_manifest v) ''status'' (JString ''in_progress'')"

section \<open>Kraken\<close>

definition kraken_source_ok :: "(string \<Rightarrow> string) \<Rightarrow> session_reads \<Rightarrow> validated \<Rightarrow> bool \<Rightarrow> kraken_replay \<Rightarrow> unit result" where
  "kraken_source_ok sha r v reader_error s =
     bind_exn (require (\<not> (vd_complete v \<and> ry_lifecycle s \<noteq> []) \<and> \<not> reader_error \<and> ry_count s = vd_records v)
       ''source changed or invalid lifecycle ordering'') (\<lambda>_.
     bind_exn (file_sha256 sha (vd_raw v) (sr_raw_again r)) (\<lambda>hash.
       require (hash = vd_checksum v) ''source changed or invalid lifecycle ordering''))"

definition kraken_document ::
  "(double \<Rightarrow> string) \<Rightarrow> (string \<Rightarrow> string) \<Rightarrow> bool \<Rightarrow> validated \<Rightarrow> kraken_replay \<Rightarrow> (string, json) omap result" where
  "kraken_document fl sha include_final_book v s =
     (let p = ry_processor s; book = kp_book p; contents = book_contents None book in
      bind_exn (source_fields v (ry_count s)) (\<lambda>source.
      bind_exn (json_dump fl None contents) (\<lambda>contents_text.
      bind_exn (json_dump fl None (JArray (ry_transitions s))) (\<lambda>transitions_text.
        finish_result fl sha include_final_book contents (object_of (source @
          [(''outcomes'', counts_json (ry_outcomes s)), (''metrics'', counts_json (kp_metrics p)), (''checksum'', JUInt (ucast (kp_checksum p))),
           (''final_book_state'', JString (session_book_name (ob_state book))), (''final_sequence'', JNull),
           (''final_bid_levels'', JUInt (of_nat (length (ob_bids book)))), (''final_ask_levels'', JUInt (of_nat (length (ob_asks book)))),
           (''final_best_bid'', best_json (best_bid book)), (''final_best_ask'', best_json (best_ask book)),
           (''final_book_hash'', JString (sha contents_text)), (''state_transitions'', JArray (ry_transitions s)),
           (''state_transition_hash'', JString (sha transitions_text))]))))))"

definition kraken_session ::
  "(double \<Rightarrow> string) \<Rightarrow> (string \<Rightarrow> string) \<Rightarrow> (string \<Rightarrow> uint32) \<Rightarrow> bool \<Rightarrow> session_reads \<Rightarrow> validated \<Rightarrow> (string, json) omap result" where
  "kraken_session fl sha crc include_final_book r v =
     bind_exn (KrakenBookProcessor (vd_depth v)) (\<lambda>processor.
     let (es, reader) = read_all (RawEventReader (sr_raw_loop r)) in
     bind_exn (kraken_replay_records crc es (new_kraken_replay processor (vd_events v))) (\<lambda>s.
     bind_exn (kraken_source_ok sha r v (has_error reader) s) (\<lambda>_.
     bind_exn (if vd_complete v then Inr True else in_progress v) (\<lambda>keep.
       kraken_document fl sha include_final_book v (if keep then s else s\<lparr>ry_processor := kraken_invalidate (ry_processor s)\<rparr>)))))"

section \<open>Coinbase\<close>

text \<open>
  The clock of a replay shows the time of the current record. The counters of the outcomes start
  at zero, one for each outcome.
\<close>

record replay_clock =
  ck_wall :: receive_wall_timestamp
  ck_mono :: receive_monotonic_timestamp

definition clock_set :: "receive_wall_timestamp \<Rightarrow> receive_monotonic_timestamp \<Rightarrow> replay_clock \<Rightarrow> replay_clock" where
  "clock_set wall monotonic c = c\<lparr>ck_wall := wall, ck_mono := monotonic\<rparr>"

definition monotonic_now :: "replay_clock \<Rightarrow> receive_monotonic_timestamp" where
  "monotonic_now c = ck_mono c"

record coinbase_replay =
  cr_market :: market_state
  cr_clock :: replay_clock
  cr_outcomes :: "(string, uint64) omap"
  cr_transitions :: "json list"
  cr_connection :: "uint64 option"
  cr_boundaries :: uint64
  cr_snapshots :: uint64
  cr_updates :: uint64
  cr_count :: uint64
  cr_lifecycle :: "lifecycle_entry list"
  cr_lifecycle_connected :: bool

abbreviation cr_book :: "coinbase_replay \<Rightarrow> order_book" where
  "cr_book s \<equiv> ms_book (cr_market s)"

definition with_book :: "(order_book \<Rightarrow> order_book) \<Rightarrow> coinbase_replay \<Rightarrow> coinbase_replay" where
  "with_book f s = s\<lparr>cr_market := (cr_market s)\<lparr>ms_book := f (ms_book (cr_market s))\<rparr>\<rparr>"

definition reset_sequence :: "coinbase_replay \<Rightarrow> coinbase_replay" where
  "reset_sequence s = s\<lparr>cr_market := (cr_market s)\<lparr>ms_sequence := seq_reset (ms_sequence (cr_market s))\<rparr>\<rparr>"

definition all_outcomes :: "message_outcome list" where
  "all_outcomes = [BookUpdated, IgnoredMessage, DuplicateMessage, OutOfOrderMessage, SequenceGap, ParseError, RecordingRejected, ApplyError]"

definition new_coinbase_replay :: "lifecycle_entry list \<Rightarrow> coinbase_replay" where
  "new_coinbase_replay events =
     (let s = \<lparr>cr_market = \<lparr>ms_book = OrderBook Coinbase BTC_USD, ms_sequence = None, ms_health = FeedHealth\<rparr>,
        cr_clock = \<lparr>ck_wall = 0, ck_mono = 0\<rparr>,
        cr_outcomes = fold (\<lambda>outcome. om_insert_or_assign str_less (outcome_name outcome) 0) all_outcomes [],
        cr_transitions = [], cr_connection = None, cr_boundaries = 0, cr_snapshots = 0, cr_updates = 0, cr_count = 0,
        cr_lifecycle = events, cr_lifecycle_connected = False\<rparr>
      in if events \<noteq> [] then with_book mark_disconnected s else s)"

definition coinbase_transition :: "uint64 \<Rightarrow> book_state \<Rightarrow> string \<Rightarrow> coinbase_replay \<Rightarrow> coinbase_replay" where
  "coinbase_transition index from_state reason s =
     (if from_state \<noteq> ob_state (cr_book s)
      then s\<lparr>cr_transitions := cr_transitions s @ [transition_json index from_state (ob_state (cr_book s)) reason]\<rparr> else s)"

text \<open>A change of the book's state and the transition it causes.\<close>

definition book_step :: "uint64 \<Rightarrow> string \<Rightarrow> (order_book \<Rightarrow> order_book) \<Rightarrow> coinbase_replay \<Rightarrow> coinbase_replay" where
  "book_step index reason f s = coinbase_transition index (ob_state (cr_book s)) reason (with_book f s)"

definition coinbase_replay_event :: "uint64 \<Rightarrow> lifecycle_entry \<Rightarrow> coinbase_replay \<Rightarrow> coinbase_replay result" where
  "coinbase_replay_event index event s =
     (let previous = ob_state (cr_book s); state = en_state event in
      bind_exn
        (if state = ''DISCONNECTED'' then Inr (with_book mark_disconnected s)
         else if state = ''RESYNCING'' then Inr (with_book mark_resyncing s)
         else if state = ''INITIALIZING'' then Inr ((with_book mark_initializing s)\<lparr>cr_lifecycle_connected := True\<rparr>)
         else if state = ''STALE'' then Inr (with_book mark_stale s)
         else if state = ''INVALID'' then Inr (with_book invalidate s)
         else Inl (RuntimeError ''invalid lifecycle state''))
        (\<lambda>s. Inr (coinbase_transition index previous (en_reason event) (reset_sequence s))))"

fun coinbase_replay_events :: "uint64 \<Rightarrow> lifecycle_entry list \<Rightarrow> coinbase_replay \<Rightarrow> coinbase_replay result" where
  "coinbase_replay_events index [] s = Inr (s\<lparr>cr_lifecycle := []\<rparr>)"
| "coinbase_replay_events index (event # events) s =
     (if en_index event = index
      then bind_exn (coinbase_replay_event index event s) (coinbase_replay_events index events)
      else Inr (s\<lparr>cr_lifecycle := event # events\<rparr>))"

definition coinbase_apply_lifecycle :: "uint64 \<Rightarrow> coinbase_replay \<Rightarrow> coinbase_replay result" where
  "coinbase_apply_lifecycle index s = coinbase_replay_events index (cr_lifecycle s) (s\<lparr>cr_lifecycle_connected := False\<rparr>)"

definition coinbase_replay_connection :: "raw_message \<Rightarrow> coinbase_replay \<Rightarrow> coinbase_replay" where
  "coinbase_replay_connection e s =
     (if cr_connection s = Some (rm_connection_id e) then s
      else
        let index = rm_record_index e;
            s = (if cr_connection s \<noteq> None then s\<lparr>cr_boundaries := cr_boundaries s + 1\<rparr> else s);
            s = (if cr_connection s \<noteq> None \<and> \<not> cr_lifecycle_connected s
                 then book_step index ''connection_id_changed'' mark_disconnected s else s);
            s = (if \<not> cr_lifecycle_connected s
                 then book_step index ''new_connection'' mark_initializing (book_step index ''resynchronization'' mark_resyncing s) else s);
            s = reset_sequence s
        in s\<lparr>cr_market := (cr_market s)\<lparr>ms_health := health_reset (monotonic_now (cr_clock s)) (ms_health (cr_market s))\<rparr>,
             cr_connection := Some (rm_connection_id e)\<rparr>)"

definition count_existing :: "string \<Rightarrow> (string, uint64) omap \<Rightarrow> (string, uint64) omap" where
  "count_existing name counts =
     om_insert_or_assign str_less name ((case om_find name counts of None \<Rightarrow> 0 | Some n \<Rightarrow> n) + 1) counts"

definition coinbase_replay_message :: "coinbase_symbol_mapper \<Rightarrow> raw_message \<Rightarrow> coinbase_replay \<Rightarrow> coinbase_replay result" where
  "coinbase_replay_message symbols e s =
     (let previous = ob_state (cr_book s) in
      case coinbase_process symbols (monotonic_now (cr_clock s)) e (cr_market s) of
        (Inl exn, _) \<Rightarrow> Inl exn
      | (Inr result, market) \<Rightarrow>
          let s = coinbase_transition (rm_record_index e) previous
                (if pr_error result = [] then (if cr_snapshots s \<noteq> 0 then ''fresh_recovery_snapshot'' else ''initial_snapshot'')
                 else pr_error result) (s\<lparr>cr_market := market\<rparr>)
          in Inr (s\<lparr>cr_count := cr_count s + 1, cr_outcomes := count_existing (outcome_name (pr_outcome result)) (cr_outcomes s),
                   cr_snapshots := cr_snapshots s + of_nat (pr_snapshots result), cr_updates := cr_updates s + of_nat (pr_updates result)\<rparr>))"

definition coinbase_replay_record :: "coinbase_symbol_mapper \<Rightarrow> raw_message \<Rightarrow> coinbase_replay \<Rightarrow> coinbase_replay result" where
  "coinbase_replay_record symbols e s =
     bind_exn (coinbase_apply_lifecycle (rm_record_index e) s) (\<lambda>s.
       let s = s\<lparr>cr_clock := clock_set (rm_receive_wall_time e) (rm_receive_monotonic_time e) (cr_clock s)\<rparr>
       in coinbase_replay_message symbols e (coinbase_replay_connection e s))"

fun coinbase_replay_records :: "coinbase_symbol_mapper \<Rightarrow> raw_message list \<Rightarrow> coinbase_replay \<Rightarrow> coinbase_replay result" where
  "coinbase_replay_records symbols [] s = coinbase_apply_lifecycle (cr_count s) s"
| "coinbase_replay_records symbols (e # es) s = bind_exn (coinbase_replay_record symbols e s) (coinbase_replay_records symbols es)"

text \<open>The products with the recorded precision.\<close>

definition replay_scale :: "json \<Rightarrow> string \<Rightarrow> int result" where
  "replay_scale precision key = bind_exn (json_at precision key) (\<lambda>v. bind_exn (get_uint64 v) (\<lambda>scale. Inr (uint scale mod 256)))"

definition replay_symbols :: "json \<Rightarrow> coinbase_symbol_mapper result" where
  "replay_symbols manifest =
     bind_exn (bind_exn (json_at manifest ''product_metadata'') (\<lambda>products. json_at products ''coinbase:BTC-USD'')) (\<lambda>precision.
     bind_exn (replay_scale precision ''price_scale'') (\<lambda>price_scale.
     bind_exn (replay_scale precision ''quantity_scale'') (\<lambda>quantity_scale.
       CoinbaseSymbolMapper [(''BTC-USD'', \<lparr>pc_instrument = BTC_USD, pc_price_scale = price_scale, pc_quantity_scale = quantity_scale\<rparr>)])))"

definition coinbase_source_ok :: "(string \<Rightarrow> string) \<Rightarrow> session_reads \<Rightarrow> validated \<Rightarrow> bool \<Rightarrow> coinbase_replay \<Rightarrow> unit result" where
  "coinbase_source_ok sha r v reader_error s =
     bind_exn (require (\<not> reader_error \<and> cr_count s = vd_records v) ''source changed during replay'') (\<lambda>_.
     bind_exn (file_sha256 sha (vd_raw v) (sr_raw_again r)) (\<lambda>hash. require (hash = vd_checksum v) ''source changed during replay''))"

definition outcome_json :: "message_outcome \<Rightarrow> coinbase_replay \<Rightarrow> json" where
  "outcome_json outcome s = JUInt (case om_find (outcome_name outcome) (cr_outcomes s) of None \<Rightarrow> 0 | Some n \<Rightarrow> n)"

definition coinbase_document ::
  "(double \<Rightarrow> string) \<Rightarrow> (string \<Rightarrow> string) \<Rightarrow> bool \<Rightarrow> validated \<Rightarrow> coinbase_replay \<Rightarrow> (string, json) omap result" where
  "coinbase_document fl sha include_final_book v s =
     (let book = cr_book s; contents = book_contents (ob_last_sequence book) book in
      bind_exn (source_fields v (cr_count s)) (\<lambda>source.
      bind_exn (json_dump fl None contents) (\<lambda>contents_text.
      bind_exn (json_dump fl None (JArray (cr_transitions s))) (\<lambda>transitions_text.
        finish_result fl sha include_final_book contents (object_of (source @
          [(''outcomes'', counts_json (cr_outcomes s)), (''book_messages'', outcome_json BookUpdated s),
           (''ignored_messages'', outcome_json IgnoredMessage s), (''snapshots'', JUInt (cr_snapshots s)), (''updates'', JUInt (cr_updates s)),
           (''sequence_gaps'', outcome_json SequenceGap s), (''connection_boundaries'', JUInt (cr_boundaries s)),
           (''final_sequence'', optional_json (ms_sequence (cr_market s))), (''final_book_state'', JString (session_book_name (ob_state book))),
           (''final_best_bid'', best_json (best_bid book)), (''final_best_ask'', best_json (best_ask book)),
           (''final_bid_levels'', JUInt (of_nat (length (ob_bids book)))), (''final_ask_levels'', JUInt (of_nat (length (ob_asks book)))),
           (''final_book_hash'', JString (sha contents_text)), (''state_transitions'', JArray (cr_transitions s)),
           (''state_transition_hash'', JString (sha transitions_text))]))))))"

definition coinbase_session ::
  "(double \<Rightarrow> string) \<Rightarrow> (string \<Rightarrow> string) \<Rightarrow> bool \<Rightarrow> session_reads \<Rightarrow> validated \<Rightarrow> (string, json) omap result" where
  "coinbase_session fl sha include_final_book r v =
     bind_exn (replay_symbols (vd_manifest v)) (\<lambda>symbols.
     let (es, reader) = read_all (RawEventReader (sr_raw_loop r)) in
     bind_exn (coinbase_replay_records symbols es (new_coinbase_replay (vd_events v))) (\<lambda>s.
     bind_exn (require (\<not> (vd_complete v \<and> cr_lifecycle s \<noteq> [])) ''invalid lifecycle ordering'') (\<lambda>_.
     bind_exn (if vd_complete v then Inr True else in_progress v) (\<lambda>keep.
     let s = (if keep then s else reset_sequence (book_step (cr_count s) ''terminal_failure'' invalidate s)) in
     bind_exn (coinbase_source_ok sha r v (has_error reader) s) (\<lambda>_. coinbase_document fl sha include_final_book v s)))))"

section \<open>Replay\<close>

definition replay_document ::
  "(double \<Rightarrow> string) \<Rightarrow> (string \<Rightarrow> string) \<Rightarrow> (string \<Rightarrow> uint32) \<Rightarrow> bool \<Rightarrow> bool \<Rightarrow> session_reads \<Rightarrow> (string, json) omap result" where
  "replay_document fl sha crc allow_incomplete include_final_book r =
     bind_exn (validate_session fl sha allow_incomplete r) (\<lambda>v.
     bind_exn (if vd_kraken v then kraken_session fl sha crc include_final_book r v else coinbase_session fl sha include_final_book r v) (\<lambda>result.
     bind_exn (check_manifest_again sha allow_incomplete r v) (\<lambda>_. Inr result)))"

definition replay ::
  "(double \<Rightarrow> string) \<Rightarrow> (string \<Rightarrow> string) \<Rightarrow> (string \<Rightarrow> uint32) \<Rightarrow> bool \<Rightarrow> bool \<Rightarrow> session_reads \<Rightarrow> publish_answers \<Rightarrow> string \<Rightarrow> files \<Rightarrow>
   int result \<times> files" where
  "replay fl sha crc allow_incomplete include_final_book r ans output fs =
     (case replay_document fl sha crc allow_incomplete include_final_book r of
        Inl e \<Rightarrow> (Inl e, fs)
      | Inr result \<Rightarrow>
          case publish fl ans output (JObject result) fs of
            (Inl e, fs') \<Rightarrow> (Inl e, fs')
          | (Inr _, fs') \<Rightarrow> (Inr 0, fs'))"

end
