(* ===== verification/SessionFiles.thy ===== *)
theory SessionFiles
  imports Replay
begin

text \<open>
  What the publication of a document guarantees to the readers of a session directory, and what
  a replay has verified of its source before it publishes a result.
\<close>

section \<open>Publication\<close>

lemma write_loop_all: "write_loop answer call bytes written = (True, w) \<Longrightarrow> w = written @ bytes"
proof (induction answer call bytes written rule: write_loop.induct)
  case (1 answer call bytes written)
  then show ?case
    by (subst (asm) (2) write_loop.simps) (auto simp: Let_def split: if_splits)
qed

lemma write_loop_succeeds: "(\<And>i. answer i > 0) \<Longrightarrow> fst (write_loop answer call bytes written)"
proof (induction answer call bytes written rule: write_loop.induct)
  case (1 answer call bytes written)
  moreover have "\<not> answer call \<le> 0" using "1.prems" [of call] by simp
  ultimately show ?case by (subst write_loop.simps) (simp add: Let_def)
qed

lemma publish_Inr:
  assumes "publish fl ans path document fs = (Inr (), fs')"
  shows "\<exists>text. json_dump fl (Some (2, 0)) document = Inr text \<and> fs path = None \<and> fs' = fs(path \<mapsto> text @ [CHR 0x0A])"
  using assms
  by (auto simp: publish_def Let_def split: sum.splits option.splits if_splits prod.splits dest: write_loop_all)

lemma publish_Inl:
  assumes "publish fl ans path document fs = (Inl e, fs')" and "fs name \<noteq> None \<or> name = path"
  shows "fs' name = fs name"
  using assms by (auto simp: publish_def Let_def split: sum.splits option.splits if_splits prod.splits)

definition good_publish :: publish_answers where
  "good_publish = \<lparr>pa_directories = Inr (), pa_suffix = Some ''AAAAAA'', pa_write = (\<lambda>i. 3), pa_fsync = True, pa_close = True, pa_rename = True\<rparr>"

lemma publish_good:
  assumes "json_dump fl (Some (2, 0)) document = Inr text" and "fs path = None" and "fs (path @ ''.tmp-AAAAAA'') = None"
  shows "publish fl good_publish path document fs = (Inr (), fs(path \<mapsto> text @ [CHR 0x0A]))"
proof -
  obtain ok w where run: "write_loop (\<lambda>i. 3) 0 (text @ [CHR 0x0A]) [] = (ok, w)" by force
  then have "ok" using write_loop_succeeds [of "\<lambda>i. 3" 0 "text @ [CHR 0x0A]" "[]"] by simp
  then show ?thesis using assms run write_loop_all [of "\<lambda>i. 3" 0 "text @ [CHR 0x0A]" "[]" w]
    by (simp add: publish_def good_publish_def)
qed

text \<open>C8. Documents are published atomically and never replace one. Whatever the system calls answer: if \<open>publish\<close>
  returns, the destination did not exist before and now holds the whole document, and no other
  file has changed; if it throws, the destination and every file that existed are as they were.\<close>

theorem publish_atomic:
  "case publish fl ans path document fs of
     (Inr _, fs') \<Rightarrow> fs path = None \<and> (\<exists>text. json_dump fl (Some (2, 0)) document = Inr text \<and> fs' = fs(path \<mapsto> text @ [CHR 0x0A]))
   | (Inl _, fs') \<Rightarrow> fs' path = fs path \<and> map_le fs fs'"
proof (cases "publish fl ans path document fs")
  case (Pair res fs')
  show ?thesis
  proof (cases res)
    case (Inr u)
    then show ?thesis using publish_Inr [of fl ans path document fs fs'] Pair by auto
  next
    case (Inl e)
    then show ?thesis using Pair publish_Inl [of fl ans path document fs e fs'] by (auto simp: map_le_def dom_def)
  qed
qed

end
