(* ===== verification/Spec2Isabelle.thy ===== *)
theory Spec2Isabelle
  imports OrderedMap FixedPoint MarketData SequenceTracker OrderBook JsonRoundTrip RawEvents Timestamps RecordingQueue CoinbaseConnection KrakenChecked LiveRecorded KrakenReproduced SessionFiles Replay
begin

text \<open>
  Verification of the cross-exchange market data engine.
\<close>

end
